(* ===== verification/Prelude.thy ===== *)
theory Prelude
  imports Main "HOL-Library.Sublist" "HOL-Library.Code_Target_Nat"
begin

text \<open>
  Shared vocabulary of the development: results of fallible Go functions as sums
  (\<open>Inl\<close> is the error return, \<open>Inr\<close> the value), the order preserving
  de-duplication loop that the code writes with a \<open>seen\<close> map in six places, the
  first-match loop, and the theorem collections the component theories add to.
\<close>

named_theorems go_eval "equations that evaluate the model of Go's standard library"
named_theorems wf_intros "introduction rules for the well-formedness invariants"

section \<open>Results\<close>

fun is_ok :: "'e + 'a \<Rightarrow> bool" where
  "is_ok (Inl e) = False"
| "is_ok (Inr a) = True"

lemma is_ok_conv: "is_ok r \<longleftrightarrow> (\<exists>a. r = Inr a)"
  by (cases r) auto

text \<open>
  Applying a fallible function to a list, stopping at the first error: the shape of
  every parsing loop of the code that returns on the first bad item.
\<close>

fun map_result :: "('a \<Rightarrow> 'e + 'b) \<Rightarrow> 'a list \<Rightarrow> 'e + 'b list" where
  "map_result f [] = Inr []"
| "map_result f (x # xs) =
     (case f x of Inl e \<Rightarrow> Inl e
      | Inr y \<Rightarrow> (case map_result f xs of Inl e \<Rightarrow> Inl e | Inr ys \<Rightarrow> Inr (y # ys)))"

lemma map_result_InrD: "map_result f xs = Inr ys \<Longrightarrow> list_all2 (\<lambda>x y. f x = Inr y) xs ys"
  by (induction xs arbitrary: ys) (auto split: sum.splits)

lemma map_result_InrI: "list_all2 (\<lambda>x y. f x = Inr y) xs ys \<Longrightarrow> map_result f xs = Inr ys"
  by (induction rule: list_all2_induct) auto

lemma map_result_Inr_iff:
  "map_result f xs = Inr ys \<longleftrightarrow> list_all2 (\<lambda>x y. f x = Inr y) xs ys"
  by (blast intro: map_result_InrI dest: map_result_InrD)

lemma map_result_Inl:
  "map_result f xs = Inl e \<Longrightarrow> \<exists>x \<in> set xs. f x = Inl e"
  by (induction xs) (auto split: sum.splits)

lemma map_result_all_ok:
  "(\<And>x. x \<in> set xs \<Longrightarrow> f x = Inr (g x)) \<Longrightarrow> map_result f xs = Inr (map g xs)"
  by (induction xs) auto

lemma map_result_set:
  "map_result f xs = Inr ys \<Longrightarrow> y \<in> set ys \<Longrightarrow> \<exists>x \<in> set xs. f x = Inr y"
  by (induction xs arbitrary: ys) (auto split: sum.splits)

section \<open>De-duplication by a key, with the set of keys seen so far\<close>

fun dedup_by :: "('a \<Rightarrow> 'k) \<Rightarrow> 'k set \<Rightarrow> 'a list \<Rightarrow> 'a list" where
  "dedup_by key seen [] = []"
| "dedup_by key seen (x # xs) =
     (if key x \<in> seen then dedup_by key seen xs
      else x # dedup_by key (insert (key x) seen) xs)"

lemma dedup_by_keys_disjoint:
  "key ` set (dedup_by key seen xs) \<inter> seen = {}"
  by (induction xs arbitrary: seen) auto

lemma dedup_by_distinct [simp]: "distinct (map key (dedup_by key seen xs))"
proof (induction xs arbitrary: seen)
  case Nil
  then show ?case by simp
next
  case (Cons x xs)
  have "key x \<notin> key ` set (dedup_by key (insert (key x) seen) xs)"
    using dedup_by_keys_disjoint [of key "insert (key x) seen" xs] by auto
  with Cons show ?case by simp
qed

lemma dedup_by_subset: "set (dedup_by key seen xs) \<subseteq> set xs"
  by (induction xs arbitrary: seen) auto

lemma dedup_by_keys: "key ` set (dedup_by key seen xs) = key ` set xs - seen"
  by (induction xs arbitrary: seen) auto

lemma dedup_by_id:
  "distinct (map key xs) \<Longrightarrow> key ` set xs \<inter> seen = {} \<Longrightarrow> dedup_by key seen xs = xs"
  by (induction xs arbitrary: seen) auto

lemma dedup_by_idem: "dedup_by key {} (dedup_by key {} xs) = dedup_by key {} xs"
  by (rule dedup_by_id) auto

lemma dedup_by_append:
  "dedup_by key seen (xs @ ys) =
     dedup_by key seen xs @ dedup_by key (seen \<union> key ` set xs) ys"
  by (induction xs arbitrary: seen) (auto simp: insert_absorb Un_insert_right)

lemma dedup_by_subseq: "subseq (dedup_by key seen xs) xs"
  by (induction xs arbitrary: seen) auto

lemma dedup_by_ex_key:
  "\<lbrakk> x \<in> set xs; key x \<notin> seen \<rbrakk> \<Longrightarrow> \<exists>y \<in> set (dedup_by key seen xs). key y = key x"
  using dedup_by_keys [of key seen xs] by (metis DiffI imageE imageI)

text \<open>The tail of a de-duplicated list with one more item at the end.\<close>

lemma distinct_map_snoc:
  "distinct (map key (xs @ [x])) \<longleftrightarrow> distinct (map key xs) \<and> key x \<notin> key ` set xs"
  by auto

lemma distinct_map_filter_key:
  "distinct (map key xs) \<Longrightarrow> distinct (map key (filter P xs))"
  by (induction xs) auto

section \<open>First match in a list\<close>

lemma find_Some_append:
  "find P (xs @ ys) = (case find P xs of None \<Rightarrow> find P ys | Some x \<Rightarrow> Some x)"
  by (induction xs) auto

lemma find_isSome_iff: "(\<exists>x. find P xs = Some x) \<longleftrightarrow> (\<exists>x \<in> set xs. P x)"
  by (induction xs) auto

lemma find_Some_in: "find P xs = Some x \<Longrightarrow> x \<in> set xs \<and> P x"
  by (induction xs) (auto split: if_splits)

lemma find_Some_first:
  "find P xs = Some x \<Longrightarrow> \<exists>us vs. xs = us @ x # vs \<and> P x \<and> (\<forall>u \<in> set us. \<not> P u)"
proof (induction xs)
  case Nil
  then show ?case by simp
next
  case (Cons a xs)
  show ?case
  proof (cases "P a")
    case True
    with Cons.prems show ?thesis
      by (intro exI [of _ "[]"] exI [of _ xs]) auto
  next
    case False
    with Cons obtain us vs where "xs = us @ x # vs" "P x" "\<forall>u \<in> set us. \<not> P u"
      by auto
    with False show ?thesis
      by (intro exI [of _ "a # us"] exI [of _ vs]) auto
  qed
qed

section \<open>Suffixes of a history\<close>

lemma suffix_snoc_take:
  "suffix xs ys \<Longrightarrow> suffix (xs @ [y]) (ys @ [y])"
  by (auto simp: suffix_def)

lemma suffix_drop_mono: "suffix xs ys \<Longrightarrow> suffix (drop n xs) ys"
  by (meson suffix_drop suffix_order.trans)

lemma drop_dropWhile_suffix: "suffix (dropWhile P xs) xs"
  by (rule suffix_dropWhile)

end
