(* ===== verification/Go_File.thy ===== *)
theory Go_File
  imports Prelude
begin

text \<open>
  The file operations of package \<open>os\<close> that the program uses to save its state: a file is its
  bytes and whether they have reached the disk (\<open>Sync\<close>). A script is the sequence of calls
  of a save function with the clean-up and the error of each; running it yields every state
  the file system goes through, so that a crash at any point can be described. The contract
  \<open>durable_save\<close> is the crash safety that the callers promise. Directories are not part of
  the model: \<open>MkdirParent p\<close> stands for \<open>os.MkdirAll(filepath.Dir(p))\<close>, and a rename is
  atomic but may be lost in a crash like any directory update that is not synced.
\<close>

section \<open>Files and calls\<close>

record os_file =
  file_data :: string
  file_durable :: bool

type_synonym fs = "string \<Rightarrow> os_file option"

datatype call =
    MkdirParent string
  | OpenTrunc string
  | WriteTo string string
  | SyncFile string
  | CloseFile string
  | Rename string string
  | Remove string

fun exec_call :: "call \<Rightarrow> fs \<Rightarrow> fs" where
  "exec_call (MkdirParent p) fs = fs"
| "exec_call (OpenTrunc p) fs = fs(p \<mapsto> \<lparr>file_data = [], file_durable = False\<rparr>)"
| "exec_call (WriteTo p t) fs =
     (case fs p of None \<Rightarrow> fs
      | Some f \<Rightarrow> fs(p \<mapsto> \<lparr>file_data = file_data f @ t, file_durable = False\<rparr>))"
| "exec_call (SyncFile p) fs =
     (case fs p of None \<Rightarrow> fs | Some f \<Rightarrow> fs(p \<mapsto> f\<lparr>file_durable := True\<rparr>))"
| "exec_call (CloseFile p) fs = fs"
| "exec_call (Rename p q) fs = (if p = q then fs else fs(q := fs p, p := None))"
| "exec_call (Remove p) fs = fs(p := None)"

text \<open>
  Which calls fail is a parameter: \<open>None\<close> is success; a failing write leaves the given number
  of bytes behind, any other failing call leaves the files as they were.
\<close>

type_synonym faults = "call \<Rightarrow> nat option"

definition no_faults :: faults where
  "no_faults c = None"

fun fail_call :: "nat \<Rightarrow> call \<Rightarrow> fs \<Rightarrow> fs" where
  "fail_call k (WriteTo p t) fs = exec_call (WriteTo p (take k t)) fs"
| "fail_call k c fs = fs"

fun do_call :: "faults \<Rightarrow> call \<Rightarrow> fs \<Rightarrow> fs" where
  "do_call F c fs = (case F c of None \<Rightarrow> exec_call c fs | Some k \<Rightarrow> fail_call k c fs)"

section \<open>Scripts\<close>

type_synonym 'e script = "(call \<times> call list \<times> 'e) list"

fun run_quiet :: "faults \<Rightarrow> call list \<Rightarrow> fs \<Rightarrow> fs list" where
  "run_quiet F [] fs = []"
| "run_quiet F (c # cs) fs = (let fs' = do_call F c fs in fs' # run_quiet F cs fs')"

fun run_script :: "faults \<Rightarrow> 'e script \<Rightarrow> fs \<Rightarrow> fs list \<times> 'e option" where
  "run_script F [] fs = ([], None)"
| "run_script F ((c, cleanup, e) # cs) fs =
     (let fs' = do_call F c fs in
      case F c of
        None \<Rightarrow> (let (tr, r) = run_script F cs fs' in (fs' # tr, r))
      | Some k \<Rightarrow> (fs' # run_quiet F cleanup fs', Some e))"

definition final_fs :: "fs \<Rightarrow> fs list \<Rightarrow> fs" where
  "final_fs fs tr = last (fs # tr)"

text \<open>
  The bytes a file may hold after a crash in a given state: a durable file keeps its bytes,
  a file that was not synced may hold anything.
\<close>

definition crash_reads :: "fs \<Rightarrow> string \<Rightarrow> string option set" where
  "crash_reads fs p =
     (case fs p of None \<Rightarrow> {None} | Some f \<Rightarrow> if file_durable f then {Some (file_data f)} else UNIV)"

section \<open>The contract of a safe save\<close>

definition durable_file :: "string \<Rightarrow> os_file" where
  "durable_file t = \<lparr>file_data = t, file_durable = True\<rparr>"

definition safe_save :: "string \<Rightarrow> string \<Rightarrow> 'e script \<Rightarrow> bool" where
  "safe_save p t s \<longleftrightarrow>
     (\<forall>F fs tr r. run_script F s fs = (tr, r) \<longrightarrow>
        (\<forall>g \<in> set tr. g p = fs p \<or> r = None \<and> g p = Some (durable_file t)) \<and>
        final_fs fs tr p = (case r of None \<Rightarrow> Some (durable_file t) | Some e \<Rightarrow> fs p))"

locale durable_save =
  fixes save :: "string \<Rightarrow> string \<Rightarrow> 'e script"
  assumes save_safe: "safe_save p t (save p t)"
begin

lemma saved:
  "run_script F (save p t) fs = (tr, r) \<Longrightarrow>
     final_fs fs tr p = (case r of None \<Rightarrow> Some (durable_file t) | Some e \<Rightarrow> fs p)"
  using save_safe unfolding safe_save_def by blast

lemma in_flight:
  "run_script F (save p t) fs = (tr, r) \<Longrightarrow> g \<in> set tr \<Longrightarrow>
     g p = fs p \<or> r = None \<and> g p = Some (durable_file t)"
  using save_safe unfolding safe_save_def by blast

text \<open>A crash during or after a save finds the old bytes or the new ones.\<close>

lemma crash_old_or_new:
  assumes "run_script F (save p t) fs = (tr, r)" "g \<in> set (fs # tr)" "b \<in> crash_reads g p"
  shows "b \<in> crash_reads fs p \<or> b = Some t"
proof -
  have "g p = fs p \<or> g p = Some (durable_file t)" using in_flight [OF assms(1)] assms(2) by auto
  with assms(3) show ?thesis by (auto simp: crash_reads_def durable_file_def)
qed

end

section \<open>Write to a temporary file, sync, rename\<close>

definition temp_name :: "string \<Rightarrow> string" where
  "temp_name p = p @ ''.tmp''"

lemma temp_name_ne [simp]: "temp_name p \<noteq> p" "p \<noteq> temp_name p"
  by (simp_all add: temp_name_def)

definition temp_script :: "'e \<Rightarrow> 'e \<Rightarrow> 'e \<Rightarrow> 'e \<Rightarrow> 'e \<Rightarrow> 'e \<Rightarrow> string \<Rightarrow> string \<Rightarrow> 'e script" where
  "temp_script e1 e2 e3 e4 e5 e6 p t =
     (let tmp = temp_name p in
      [(MkdirParent p, [], e1),
       (OpenTrunc tmp, [], e2),
       (WriteTo tmp t, [CloseFile tmp, Remove tmp], e3),
       (SyncFile tmp, [CloseFile tmp, Remove tmp], e4),
       (CloseFile tmp, [Remove tmp], e5),
       (Rename tmp p, [Remove tmp], e6)])"

lemma temp_script_safe: "safe_save p t (temp_script e1 e2 e3 e4 e5 e6 p t)"
  unfolding safe_save_def temp_script_def Let_def
  by (auto simp: final_fs_def durable_file_def Let_def split: option.splits)

end
