(* ===== verification/Go_Strings.thy ===== *)
theory Go_Strings
  imports Prelude "HOL-Library.Char_ord"
begin

text \<open>
  The functions of Go's packages \<open>strings\<close> and \<open>strconv\<close> that the program calls, on
  byte strings: a Go string is its list of bytes, one \<open>char\<close> per byte, so
  \<open>length\<close> is Go's \<open>len\<close>. Everything is exact on arbitrary bytes except the two
  places that read the Unicode tables (\<open>strings.ToLower\<close> and the
  \<open>unicode.IsLetter\<close>/\<open>IsDigit\<close> test of a hostname label): there a string with a byte
  above 127 is handed to the tables, a parameter of type \<open>unicode\<close>, exactly where Go
  leaves its ASCII fast path.
\<close>

section \<open>Bytes\<close>

definition byte :: "char \<Rightarrow> nat" where
  "byte c = of_char c"

lemma byte_less [simp]: "byte c < 256"
  by (simp add: byte_def)

lemma byte_inj: "byte c = byte d \<longleftrightarrow> c = d"
  by (simp add: byte_def)

lemma byte_char_of: "n < 256 \<Longrightarrow> byte (char_of n) = n"
  by (simp add: byte_def)

definition is_upper :: "char \<Rightarrow> bool" where
  "is_upper c \<longleftrightarrow> 65 \<le> byte c \<and> byte c \<le> 90"

definition is_digit :: "char \<Rightarrow> bool" where
  "is_digit c \<longleftrightarrow> 48 \<le> byte c \<and> byte c \<le> 57"

definition is_alpha :: "char \<Rightarrow> bool" where
  "is_alpha c \<longleftrightarrow> is_upper c \<or> (97 \<le> byte c \<and> byte c \<le> 122)"

definition is_graph :: "char \<Rightarrow> bool" where
  "is_graph c \<longleftrightarrow> 33 \<le> byte c \<and> byte c \<le> 126"

definition is_ascii :: "string \<Rightarrow> bool" where
  "is_ascii s \<longleftrightarrow> list_all (\<lambda>c. byte c < 128) s"

lemma is_ascii_simps [simp]:
  "is_ascii []" "is_ascii (c # s) \<longleftrightarrow> byte c < 128 \<and> is_ascii s"
  "is_ascii (s @ t) \<longleftrightarrow> is_ascii s \<and> is_ascii t" "is_ascii (rev s) \<longleftrightarrow> is_ascii s"
  by (auto simp: is_ascii_def)

lemma is_ascii_iff: "is_ascii s \<longleftrightarrow> (\<forall>c \<in> set s. byte c < 128)"
  by (simp add: is_ascii_def list_all_iff)

lemma is_ascii_subset: "set t \<subseteq> set s \<Longrightarrow> is_ascii s \<Longrightarrow> is_ascii t"
  by (auto simp: is_ascii_iff)

section \<open>Prefixes, suffixes and search\<close>

definition has_prefix :: "string \<Rightarrow> string \<Rightarrow> bool" where
  "has_prefix s p \<longleftrightarrow> take (length p) s = p"

definition has_suffix :: "string \<Rightarrow> string \<Rightarrow> bool" where
  "has_suffix s p \<longleftrightarrow> length p \<le> length s \<and> drop (length s - length p) s = p"

definition trim_prefix :: "string \<Rightarrow> string \<Rightarrow> string" where
  "trim_prefix s p = (if has_prefix s p then drop (length p) s else s)"

definition trim_suffix :: "string \<Rightarrow> string \<Rightarrow> string" where
  "trim_suffix s p = (if has_suffix s p then take (length s - length p) s else s)"

lemma has_prefix_iff: "has_prefix s p \<longleftrightarrow> (\<exists>t. s = p @ t)"
  by (auto simp: has_prefix_def) (metis append_take_drop_id)

lemma has_suffix_iff: "has_suffix s p \<longleftrightarrow> (\<exists>t. s = t @ p)"
  by (auto simp: has_suffix_def) (metis append_take_drop_id)

lemma has_prefix_append [simp]: "has_prefix (p @ t) p"
  by (simp add: has_prefix_def)

lemma has_suffix_append [simp]: "has_suffix (t @ p) p"
  by (simp add: has_suffix_def)

lemma has_suffix_rev: "has_suffix s p \<longleftrightarrow> has_prefix (rev s) (rev p)"
  by (auto simp: has_suffix_iff has_prefix_iff) (metis rev_append rev_rev_ident)

lemma trim_prefix_append [simp]: "trim_prefix (p @ t) p = t"
  by (simp add: trim_prefix_def)

lemma trim_suffix_append [simp]: "trim_suffix (t @ p) p = t"
  by (simp add: trim_suffix_def)

lemma trim_suffix_cases: "s = trim_suffix s p @ p \<or> trim_suffix s p = s"
  by (auto simp: trim_suffix_def has_suffix_iff)

lemma trim_prefix_cases: "s = p @ trim_prefix s p \<or> trim_prefix s p = s"
  by (auto simp: trim_prefix_def has_prefix_iff)

lemma trim_suffix_no: "\<not> has_suffix s p \<Longrightarrow> trim_suffix s p = s"
  by (simp add: trim_suffix_def)

lemma set_trim_suffix: "set (trim_suffix s p) \<subseteq> set s"
  by (auto simp: trim_suffix_def dest: in_set_takeD)

lemma set_trim_prefix: "set (trim_prefix s p) \<subseteq> set s"
  by (auto simp: trim_prefix_def dest: in_set_dropD)

fun contains :: "string \<Rightarrow> string \<Rightarrow> bool" where
  "contains [] p = (p = [])"
| "contains (c # s) p = (has_prefix (c # s) p \<or> contains s p)"

lemma contains_iff: "contains s p \<longleftrightarrow> (\<exists>u v. s = u @ p @ v)"
proof (induction s)
  case Nil
  then show ?case by auto
next
  case (Cons c s)
  show ?case
  proof
    assume "contains (c # s) p"
    then consider "has_prefix (c # s) p" | "contains s p" by auto
    then show "\<exists>u v. c # s = u @ p @ v"
    proof cases
      case 1
      then show ?thesis by (metis append_Nil has_prefix_iff)
    next
      case 2
      then show ?thesis using Cons.IH by (metis append_Cons)
    qed
  next
    assume "\<exists>u v. c # s = u @ p @ v"
    then obtain u v where "c # s = u @ p @ v" by blast
    then show "contains (c # s) p"
    proof (cases u)
      case Nil
      with \<open>c # s = u @ p @ v\<close> have "has_prefix (c # s) p" by simp
      then show ?thesis by simp
    next
      case u: (Cons d u')
      with \<open>c # s = u @ p @ v\<close> have "s = u' @ p @ v" by simp
      then show ?thesis using Cons.IH by auto
    qed
  qed
qed

lemma contains_appendI1: "contains s p \<Longrightarrow> contains (s @ t) p"
  unfolding contains_iff by (metis append.assoc)

lemma contains_appendI2: "contains t p \<Longrightarrow> contains (s @ t) p"
  unfolding contains_iff by (metis append.assoc)

lemma contains_single [simp]: "contains s [c] \<longleftrightarrow> c \<in> set s"
  by (auto simp: contains_iff in_set_conv_decomp)

definition contains_any :: "string \<Rightarrow> string \<Rightarrow> bool" where
  "contains_any s cs \<longleftrightarrow> list_ex (\<lambda>c. c \<in> set cs) s"

lemma contains_any_iff: "contains_any s cs \<longleftrightarrow> (\<exists>c \<in> set s. c \<in> set cs)"
  by (simp add: contains_any_def list_ex_iff)

text \<open>\<open>strings.IndexByte\<close> and \<open>strings.LastIndexByte\<close>; \<open>None\<close> stands for -1.\<close>

fun index_byte :: "string \<Rightarrow> char \<Rightarrow> nat option" where
  "index_byte [] c = None"
| "index_byte (d # s) c = (if d = c then Some 0 else map_option Suc (index_byte s c))"

definition last_index_byte :: "string \<Rightarrow> char \<Rightarrow> nat option" where
  "last_index_byte s c = map_option (\<lambda>i. length s - 1 - i) (index_byte (rev s) c)"

lemma index_byte_None [simp]: "index_byte s c = None \<longleftrightarrow> c \<notin> set s"
  by (induction s) auto

lemma index_byte_append:
  "index_byte (s @ t) c =
     (if c \<in> set s then index_byte s c else map_option ((+) (length s)) (index_byte t c))"
proof (induction s)
  case Nil
  then show ?case by (cases "index_byte t c") (auto simp del: index_byte_None)
next
  case (Cons d s)
  then show ?case by (cases "index_byte t c") (auto simp del: index_byte_None)
qed

lemma index_byte_hit [simp]: "c \<notin> set s \<Longrightarrow> index_byte (s @ c # t) c = Some (length s)"
  by (simp add: index_byte_append)

lemma index_byte_Some_split:
  "index_byte s c = Some i \<Longrightarrow> s = take i s @ c # drop (Suc i) s \<and> c \<notin> set (take i s)"
  by (induction s arbitrary: i) (auto split: if_splits)

lemma last_index_byte_hit [simp]:
  "c \<notin> set t \<Longrightarrow> last_index_byte (s @ c # t) c = Some (length s)"
  by (simp add: last_index_byte_def)

lemma last_index_byte_None [simp]: "last_index_byte s c = None \<longleftrightarrow> c \<notin> set s"
  by (simp add: last_index_byte_def)

section \<open>Split, Join and Cut on a single byte\<close>

fun split_on :: "char \<Rightarrow> string \<Rightarrow> string list" where
  "split_on c [] = [[]]"
| "split_on c (d # s) =
     (if d = c then [] # split_on c s
      else (case split_on c s of [] \<Rightarrow> [[d]] | p # ps \<Rightarrow> (d # p) # ps))"

fun join :: "string \<Rightarrow> string list \<Rightarrow> string" where
  "join sep [] = []"
| "join sep [p] = p"
| "join sep (p # q # ps) = p @ sep @ join sep (q # ps)"

lemma split_on_ne [simp]: "split_on c s \<noteq> []"
  by (induction s) (auto split: list.splits)

lemma split_on_no: "c \<notin> set s \<Longrightarrow> split_on c s = [s]"
  by (induction s) auto

lemma split_on_append: "c \<notin> set s \<Longrightarrow> split_on c (s @ c # t) = s # split_on c t"
  by (induction s) auto

lemma split_on_parts: "p \<in> set (split_on c s) \<Longrightarrow> c \<notin> set p \<and> set p \<subseteq> set s"
proof (induction s arbitrary: p)
  case Nil
  then show ?case by simp
next
  case (Cons d s)
  obtain q qs where q: "split_on c s = q # qs" by (cases "split_on c s") auto
  show ?case
  proof (cases "d = c")
    case True
    with Cons.prems have "p = [] \<or> p \<in> set (split_on c s)" by auto
    then show ?thesis using Cons.IH [of p] by auto
  next
    case False
    with Cons.prems q have "p = d # q \<or> p \<in> set qs" by auto
    then show ?thesis using Cons.IH [of q] Cons.IH [of p] q False by auto
  qed
qed

lemma split_on_append_sep: "split_on c (s @ c # t) = split_on c s @ split_on c t"
proof (induction s)
  case (Cons d s)
  obtain p ps where "split_on c s = p # ps" by (cases "split_on c s") auto
  with Cons show ?case by auto
qed simp

lemma join_split_on: "join [c] (split_on c s) = s"
proof (induction s)
  case Nil
  then show ?case by simp
next
  case (Cons d s)
  obtain q qs where q: "split_on c s = q # qs" by (cases "split_on c s") auto
  show ?case
  proof (cases "d = c")
    case True
    with Cons q show ?thesis by simp
  next
    case False
    with Cons q show ?thesis by (cases qs) auto
  qed
qed

lemma split_on_join:
  "ps \<noteq> [] \<Longrightarrow> (\<And>p. p \<in> set ps \<Longrightarrow> c \<notin> set p) \<Longrightarrow> split_on c (join [c] ps) = ps"
  by (induction "[c]" ps rule: join.induct) (auto simp: split_on_no split_on_append)

text \<open>\<open>strings.Cut(s, sep)\<close> for a one-byte separator: the parts around the first one.\<close>

definition cut :: "string \<Rightarrow> char \<Rightarrow> (string \<times> string) option" where
  "cut s c = (case index_byte s c of None \<Rightarrow> None | Some i \<Rightarrow> Some (take i s, drop (Suc i) s))"

lemma cut_hit: "c \<notin> set s \<Longrightarrow> cut (s @ c # t) c = Some (s, t)"
  by (simp add: cut_def)

lemma cut_None [simp]: "cut s c = None \<longleftrightarrow> c \<notin> set s"
  using index_byte_None [of s c]
  by (cases "index_byte s c") (simp_all add: cut_def del: index_byte_None)

section \<open>strings.TrimSpace\<close>

text \<open>
  The UTF-8 encodings of the runes for which \<open>unicode.IsSpace\<close> holds. A rune at an end of
  the string is white space exactly when its encoding is a prefix (a suffix) of the
  string, because an encoding determines where its rune starts.
\<close>

definition ws_encodings :: "string list" where
  "ws_encodings =
    [[CHR 0x09], [CHR 0x0A], [CHR 0x0B], [CHR 0x0C], [CHR 0x0D], [CHR 0x20],
     [CHR 0xC2, CHR 0x85], [CHR 0xC2, CHR 0xA0], [CHR 0xE1, CHR 0x9A, CHR 0x80],
     [CHR 0xE2, CHR 0x80, CHR 0x80], [CHR 0xE2, CHR 0x80, CHR 0x81],
     [CHR 0xE2, CHR 0x80, CHR 0x82], [CHR 0xE2, CHR 0x80, CHR 0x83],
     [CHR 0xE2, CHR 0x80, CHR 0x84], [CHR 0xE2, CHR 0x80, CHR 0x85],
     [CHR 0xE2, CHR 0x80, CHR 0x86], [CHR 0xE2, CHR 0x80, CHR 0x87],
     [CHR 0xE2, CHR 0x80, CHR 0x88], [CHR 0xE2, CHR 0x80, CHR 0x89],
     [CHR 0xE2, CHR 0x80, CHR 0x8A], [CHR 0xE2, CHR 0x80, CHR 0xA8],
     [CHR 0xE2, CHR 0x80, CHR 0xA9], [CHR 0xE2, CHR 0x80, CHR 0xAF],
     [CHR 0xE2, CHR 0x81, CHR 0x9F], [CHR 0xE3, CHR 0x80, CHR 0x80]]"

function strip_front :: "string list \<Rightarrow> string \<Rightarrow> string" where
  "strip_front ws s =
     (case find (\<lambda>w. w \<noteq> [] \<and> has_prefix s w) ws of
        None \<Rightarrow> s
      | Some w \<Rightarrow> strip_front ws (drop (length w) s))"
  by pat_completeness auto
termination
proof (relation "measure (\<lambda>(ws, s). length s)", simp)
  fix ws s w
  assume "find (\<lambda>w. w \<noteq> [] \<and> has_prefix s w) ws = Some w"
  then have w: "w \<noteq> []" "has_prefix s w" by (auto dest: find_Some_in)
  then have "s \<noteq> []" by (auto simp: has_prefix_iff)
  with w show "((ws, drop (length w) s), (ws, s)) \<in> measure (\<lambda>(ws, s). length s)"
    by simp
qed

declare strip_front.simps [simp del]

definition trim_space :: "string \<Rightarrow> string" where
  "trim_space s = rev (strip_front (map rev ws_encodings) (rev (strip_front ws_encodings s)))"

lemma strip_front_stop:
  "(\<And>w. w \<in> set ws \<Longrightarrow> w \<noteq> [] \<Longrightarrow> \<not> has_prefix s w) \<Longrightarrow> strip_front ws s = s"
  by (subst strip_front.simps) (auto split: option.splits dest!: find_Some_in)

lemma strip_front_done:
  "w \<in> set ws \<Longrightarrow> w \<noteq> [] \<Longrightarrow> \<not> has_prefix (strip_front ws s) w"
proof (induction ws s rule: strip_front.induct)
  case (1 ws s)
  show ?case
  proof (cases "find (\<lambda>w. w \<noteq> [] \<and> has_prefix s w) ws")
    case None
    then have "strip_front ws s = s" by (subst strip_front.simps) simp
    moreover have "\<not> has_prefix s w"
      using None "1.prems" by (auto simp: find_None_iff)
    ultimately show ?thesis by simp
  next
    case (Some v)
    with "1" show ?thesis by (subst strip_front.simps) simp
  qed
qed

lemma strip_front_suffix: "suffix (strip_front ws s) s"
proof (induction ws s rule: strip_front.induct)
  case (1 ws s)
  show ?case
  proof (cases "find (\<lambda>w. w \<noteq> [] \<and> has_prefix s w) ws")
    case None
    then show ?thesis by (subst strip_front.simps) simp
  next
    case (Some v)
    then have "strip_front ws s = strip_front ws (drop (length v) s)"
      by (subst strip_front.simps) simp
    with "1" [OF Some] show ?thesis by (simp add: suffix_order.trans [OF _ suffix_drop])
  qed
qed

lemma has_prefix_mono: "has_prefix s w \<Longrightarrow> prefix s t \<Longrightarrow> has_prefix t w"
  by (auto simp: has_prefix_iff prefix_def)

lemma trim_space_substring: "\<exists>u v. s = u @ trim_space s @ v"
proof -
  let ?a = "strip_front ws_encodings s"
  obtain u where u: "s = u @ ?a" using strip_front_suffix [of ws_encodings s] by (auto simp: suffix_def)
  obtain v where "rev ?a = v @ strip_front (map rev ws_encodings) (rev ?a)"
    using strip_front_suffix [of "map rev ws_encodings" "rev ?a"] by (auto simp: suffix_def)
  then have "?a = trim_space s @ rev v"
    unfolding trim_space_def by (metis rev_append rev_rev_ident)
  with u show ?thesis by metis
qed

lemma set_trim_space: "set (trim_space s) \<subseteq> set s"
  using trim_space_substring [of s] by (metis Un_iff set_append subsetI)

lemma length_trim_space: "length (trim_space s) \<le> length s"
  using trim_space_substring [of s] by (metis le_add1 le_add2 length_append order_trans)

lemma is_ascii_trim_space [simp]: "is_ascii s \<Longrightarrow> is_ascii (trim_space s)"
  by (rule is_ascii_subset [OF set_trim_space])

text \<open>After trimming no white-space rune is left at either end.\<close>

lemma trim_space_no_prefix:
  assumes "w \<in> set ws_encodings" "w \<noteq> []"
  shows "\<not> has_prefix (trim_space s) w"
proof
  assume h: "has_prefix (trim_space s) w"
  let ?a = "strip_front ws_encodings s"
  have "suffix (rev (trim_space s)) (rev ?a)"
    unfolding trim_space_def by (simp add: strip_front_suffix)
  then have "prefix (trim_space s) ?a" by (metis rev_rev_ident suffix_to_prefix)
  with h have "has_prefix ?a w" by (rule has_prefix_mono)
  with strip_front_done [OF assms] show False by blast
qed

lemma trim_space_no_suffix:
  assumes "w \<in> set ws_encodings" "w \<noteq> []"
  shows "\<not> has_suffix (trim_space s) w"
proof -
  have "\<not> has_prefix (strip_front (map rev ws_encodings) (rev (strip_front ws_encodings s))) (rev w)"
    by (rule strip_front_done) (use assms in auto)
  then show ?thesis by (simp add: has_suffix_rev trim_space_def)
qed

lemma trim_space_stop:
  assumes "\<And>w. w \<in> set ws_encodings \<Longrightarrow> w \<noteq> [] \<Longrightarrow> \<not> has_prefix s w"
    and "\<And>w. w \<in> set ws_encodings \<Longrightarrow> w \<noteq> [] \<Longrightarrow> \<not> has_suffix s w"
  shows "trim_space s = s"
proof -
  have 1: "strip_front ws_encodings s = s" by (rule strip_front_stop) (rule assms(1))
  have 2: "strip_front (map rev ws_encodings) (rev s) = rev s"
    by (rule strip_front_stop) (use assms(2) in \<open>auto simp: has_suffix_rev\<close>)
  show ?thesis by (simp add: trim_space_def 1 2)
qed

lemma trim_space_idem [simp]: "trim_space (trim_space s) = trim_space s"
  by (rule trim_space_stop) (simp_all add: trim_space_no_prefix trim_space_no_suffix)

lemma trim_space_Nil [simp]: "trim_space [] = []"
  using trim_space_substring [of "[]"] by simp

text \<open>A string that starts and ends with a visible ASCII byte is left alone.\<close>

lemma ws_encodings_ends:
  "w \<in> set ws_encodings \<Longrightarrow> w \<noteq> [] \<and> \<not> is_graph (hd w) \<and> \<not> is_graph (last w)"
  by (auto simp: ws_encodings_def is_graph_def byte_def)

lemma trim_space_graph:
  assumes "s \<noteq> []" "is_graph (hd s)" "is_graph (last s)"
  shows "trim_space s = s"
proof (rule trim_space_stop)
  fix w assume w: "w \<in> set ws_encodings" "w \<noteq> []"
  show "\<not> has_prefix s w"
    using ws_encodings_ends [OF w(1)] w(2) assms by (cases w) (auto simp: has_prefix_iff)
  show "\<not> has_suffix s w"
    using ws_encodings_ends [OF w(1)] w(2) assms by (auto simp: has_suffix_iff)
qed

section \<open>strings.ToLower and the Unicode tables\<close>

record unicode =
  uni_lower :: "string \<Rightarrow> string"
  uni_label :: "string \<Rightarrow> bool"

text \<open>
  \<open>uni_lower\<close> is \<open>strings.Map(unicode.ToLower, s)\<close>, \<open>uni_label\<close> tells whether every rune
  of a string is a letter, a digit or a hyphen; both are consulted only for strings that
  hold a byte above 127.
\<close>

text \<open>Tables that know no letter beyond ASCII, for evaluation on concrete inputs.\<close>

definition ascii_tables :: unicode where
  "ascii_tables = \<lparr>uni_lower = (\<lambda>s. s), uni_label = (\<lambda>s. False)\<rparr>"

definition lower_char :: "char \<Rightarrow> char" where
  "lower_char c = (if is_upper c then char_of (byte c + 32) else c)"

definition to_lower :: "unicode \<Rightarrow> string \<Rightarrow> string" where
  "to_lower U s = (if is_ascii s then map lower_char s else uni_lower U s)"

definition label_chars_ok :: "unicode \<Rightarrow> string \<Rightarrow> bool" where
  "label_chars_ok U s =
     (if is_ascii s then list_all (\<lambda>c. is_alpha c \<or> is_digit c \<or> c = CHR ''-'') s
      else uni_label U s)"

lemma byte_lower_char: "byte (lower_char c) = (if is_upper c then byte c + 32 else byte c)"
  by (auto simp: lower_char_def is_upper_def byte_char_of)

lemma not_upper_lower_char [simp]: "\<not> is_upper (lower_char c)"
  by (simp add: is_upper_def byte_lower_char)

lemma lower_char_id: "\<not> is_upper c \<Longrightarrow> lower_char c = c"
  by (simp add: lower_char_def)

lemma lower_char_idem [simp]: "lower_char (lower_char c) = lower_char c"
  by (simp add: lower_char_id)

lemma byte_lower_char_ascii [simp]: "byte (lower_char c) < 128 \<longleftrightarrow> byte c < 128"
  by (auto simp: byte_lower_char is_upper_def)

lemma is_ascii_map_lower [simp]: "is_ascii (map lower_char s) \<longleftrightarrow> is_ascii s"
  by (induction s) auto

lemma to_lower_ascii: "is_ascii s \<Longrightarrow> to_lower U s = map lower_char s"
  by (simp add: to_lower_def)

lemma to_lower_idem: "is_ascii s \<Longrightarrow> to_lower U (to_lower U s) = to_lower U s"
  by (simp add: to_lower_def)

lemma is_ascii_to_lower: "is_ascii s \<Longrightarrow> is_ascii (to_lower U s)"
  by (simp add: to_lower_def)

lemma is_alpha_lower: "is_alpha (lower_char c) \<longleftrightarrow> is_alpha c"
  by (auto simp: is_alpha_def is_upper_def byte_lower_char)

lemma to_lower_no_upper: "(\<forall>c \<in> set s. \<not> is_upper c) \<Longrightarrow> is_ascii s \<Longrightarrow> to_lower U s = s"
  by (simp add: to_lower_ascii map_idI lower_char_id)

section \<open>Decimal numbers\<close>

definition digit_char :: "nat \<Rightarrow> char" where
  "digit_char d = char_of (48 + d)"

definition digit_val :: "char \<Rightarrow> nat" where
  "digit_val c = byte c - 48"

fun show_nat :: "nat \<Rightarrow> string" where
  "show_nat n = (if n < 10 then [digit_char n] else show_nat (n div 10) @ [digit_char (n mod 10)])"

declare show_nat.simps [simp del]

definition show_int :: "int \<Rightarrow> string" where
  "show_int i = (if i < 0 then ''-'' @ show_nat (nat (- i)) else show_nat (nat i))"

definition digits_val :: "string \<Rightarrow> nat" where
  "digits_val s = foldl (\<lambda>a c. 10 * a + digit_val c) 0 s"

definition read_nat :: "string \<Rightarrow> nat option" where
  "read_nat s = (if s \<noteq> [] \<and> list_all is_digit s then Some (digits_val s) else None)"

text \<open>\<open>strconv.Atoi\<close> on a 64-bit platform: an optional sign, decimal digits, in range.\<close>

definition atoi :: "string \<Rightarrow> int option" where
  "atoi s =
     (let neg = has_prefix s ''-'';
          body = (if neg \<or> has_prefix s ''+'' then drop 1 s else s)
      in case read_nat body of
           None \<Rightarrow> None
         | Some n \<Rightarrow> let i = (if neg then - int n else int n)
                     in if - (2 ^ 63) \<le> i \<and> i < 2 ^ 63 then Some i else None)"

lemma byte_digit_char: "d < 10 \<Longrightarrow> byte (digit_char d) = 48 + d"
  by (simp add: digit_char_def byte_char_of)

lemma digit_char_props [simp]:
  "d < 10 \<Longrightarrow> is_digit (digit_char d)" "d < 10 \<Longrightarrow> digit_val (digit_char d) = d"
  by (simp_all add: is_digit_def digit_val_def byte_digit_char)

lemma show_nat_digits: "list_all is_digit (show_nat n)"
  by (induction n rule: show_nat.induct) (subst show_nat.simps, auto)

lemma show_nat_ne [simp]: "show_nat n \<noteq> []"
  by (subst show_nat.simps) simp

lemma digits_val_snoc: "digits_val (s @ [c]) = 10 * digits_val s + digit_val c"
  by (simp add: digits_val_def)

lemma digits_val_show_nat: "digits_val (show_nat n) = n"
proof (induction n rule: show_nat.induct)
  case (1 n)
  show ?case
  proof (cases "n < 10")
    case True
    then show ?thesis by (subst show_nat.simps) (simp add: digits_val_def)
  next
    case False
    with "1" show ?thesis by (subst show_nat.simps) (simp add: digits_val_snoc)
  qed
qed

theorem read_nat_show_nat [simp]: "read_nat (show_nat n) = Some n"
  by (simp add: read_nat_def show_nat_digits digits_val_show_nat)

lemma show_nat_inject: "show_nat m = show_nat n \<longleftrightarrow> m = n"
  by (metis digits_val_show_nat)

lemma is_digit_graph: "is_digit c \<Longrightarrow> is_graph c \<and> byte c < 128"
  by (auto simp: is_digit_def is_graph_def)

lemma show_nat_set: "c \<in> set (show_nat n) \<Longrightarrow> is_digit c"
  using show_nat_digits [of n] by (auto simp: list_all_iff)

text \<open>No superfluous leading zero.\<close>

lemma show_nat_hd_zero: "hd (show_nat n) = CHR ''0'' \<Longrightarrow> n = 0"
proof (induction n rule: show_nat.induct)
  case (1 n)
  show ?case
  proof (cases "n < 10")
    case True
    with "1.prems" have "digit_char n = CHR ''0''" by (subst (asm) show_nat.simps) simp
    then have "byte (digit_char n) = byte (CHR ''0'')" by simp
    with True show ?thesis by (simp add: byte_digit_char) (simp add: byte_def)
  next
    case False
    with "1.prems" have "hd (show_nat (n div 10)) = CHR ''0''"
      by (subst (asm) show_nat.simps) simp
    with "1.IH" False show ?thesis by simp
  qed
qed

lemma show_nat_length_less: "n < 10 ^ k \<Longrightarrow> 0 < k \<Longrightarrow> length (show_nat n) \<le> k"
proof (induction n arbitrary: k rule: show_nat.induct)
  case (1 n)
  show ?case
  proof (cases "n < 10")
    case True
    with "1.prems" show ?thesis by (subst show_nat.simps) simp
  next
    case False
    then have "k \<noteq> 1" using "1.prems" by auto
    with "1.prems" obtain j where k: "k = Suc (Suc j)" by (cases k; cases "k - 1") auto
    with "1.prems" have "n div 10 < 10 ^ Suc j" by (simp add: less_mult_imp_div_less)
    with "1.IH" False have "length (show_nat (n div 10)) \<le> Suc j" by simp
    with False k show ?thesis by (subst show_nat.simps) simp
  qed
qed

text \<open>The other direction: decimal digits without a superfluous zero print as they were.\<close>

lemma digit_char_digit_val: "is_digit c \<Longrightarrow> digit_char (digit_val c) = c"
  unfolding byte_inj [symmetric] by (simp add: digit_char_def digit_val_def is_digit_def byte_char_of)

lemma digit_val_less: "is_digit c \<Longrightarrow> digit_val c < 10"
  by (auto simp: is_digit_def digit_val_def)

lemma digit_char_0: "digit_char 0 = CHR ''0''"
  by code_simp

lemma show_nat_digits_val:
  "f \<noteq> [] \<Longrightarrow> list_all is_digit f \<Longrightarrow> (1 < length f \<longrightarrow> hd f \<noteq> CHR ''0'') \<Longrightarrow>
     show_nat (digits_val f) = f"
proof (induction f rule: rev_induct)
  case (snoc c g)
  then have d: "is_digit c" "digit_val c < 10" by (auto simp: digit_val_less)
  show ?case
  proof (cases "g = []")
    case True
    with d show ?thesis by (subst show_nat.simps) (simp add: digits_val_def digit_char_digit_val)
  next
    case False
    with snoc have g: "show_nat (digits_val g) = g" "hd g \<noteq> CHR ''0''" by (cases g; auto)+
    have "digits_val g \<noteq> 0"
    proof
      assume "digits_val g = 0"
      with g(1) have "g = show_nat 0" by simp
      with g(2) show False by (simp add: show_nat.simps digit_char_0)
    qed
    with g d show ?thesis
      by (subst show_nat.simps) (simp add: digits_val_snoc digit_char_digit_val)
  qed
qed simp

end
