(* ===== verification/Config_Key.thy ===== *)
theory Config_Key
  imports Go_File Go_Strings
begin

text \<open>
  \<open>internal/config/key.go\<close> and the functions of \<open>internal/config/config.go\<close> around the access
  key: validation, redaction, saving it and the backend choice, and the order in which a key
  is looked for at start-up. A file that cannot be read counts as absent, as in the code.
\<close>

section \<open>Validation and redaction\<close>

datatype key_error = KeyEmpty | KeySpaces | KeyRedacted | KeyScheme

definition validate_access_key :: "unicode \<Rightarrow> string \<Rightarrow> key_error option" where
  "validate_access_key U key0 =
     (let key = trim_space key0; lower = to_lower U key in
      if key = [] then Some KeyEmpty
      else if contains_any key [CHR '' '', CHR 0x09, CHR 0x0D, CHR 0x0A] then Some KeySpaces
      else if contains key ''***'' \<or> contains lower ''%2a%2a%2a'' \<or>
              contains lower ''ready:'' \<or> contains lower ''persist:'' then Some KeyRedacted
      else if \<not> has_prefix key ''ss://'' \<and> \<not> has_prefix key ''ssconf://'' then Some KeyScheme
      else None)"

fun index_of :: "string \<Rightarrow> string \<Rightarrow> nat option" where
  "index_of [] p = (if p = [] then Some 0 else None)"
| "index_of (c # s) p = (if has_prefix (c # s) p then Some 0 else map_option Suc (index_of s p))"

definition redact_access_key :: "string \<Rightarrow> string" where
  "redact_access_key key =
     (let short = (if length key \<le> 8 then ''***''
                   else take 4 key @ ''***'' @ drop (length key - 2) key)
      in if key = [] then []
         else case index_of key ''://'' of
           None \<Rightarrow> short
         | Some i \<Rightarrow>
             (let rest = drop (i + 3) key in
              case last_index_byte rest CHR ''@'' of
                None \<Rightarrow> short
              | Some k \<Rightarrow> take (i + 3) key @ ''***@'' @ drop (k + 1) rest))"

section \<open>Files\<close>

fun first_line :: "string list \<Rightarrow> string" where
  "first_line [] = []"
| "first_line (l # ls) =
     (let line = trim_space l in
      if line = [] \<or> has_prefix line ''#'' then first_line ls else line)"

definition first_non_comment_line :: "string \<Rightarrow> string" where
  "first_non_comment_line s = first_line (split_on CHR 0x0A s)"

definition read_persisted_key :: "fs \<Rightarrow> string \<Rightarrow> string" where
  "read_persisted_key fs path0 =
     (let path = trim_space path0 in
      if path = [] then []
      else case fs path of None \<Rightarrow> [] | Some f \<Rightarrow> first_non_comment_line (file_data f))"

datatype save_error =
    NoPath | BadKey key_error | BadBackend | SMkdir | SOpen | SWrite | SSync | SClose | SRename

definition key_header :: string where
  "key_header = ''# outline-gate runtime access key (managed by UI/API)''"

definition key_text :: "string \<Rightarrow> string" where
  "key_text key = key_header @ [CHR 0x0A] @ key @ [CHR 0x0A]"

definition key_script :: "string \<Rightarrow> string \<Rightarrow> save_error script" where
  "key_script = temp_script SMkdir SOpen SWrite SSync SClose SRename"

definition persist_access_key ::
  "unicode \<Rightarrow> faults \<Rightarrow> string \<Rightarrow> string \<Rightarrow> fs \<Rightarrow> fs list \<times> save_error option" where
  "persist_access_key U F path0 key0 fs =
     (let path = trim_space path0; key = trim_space key0 in
      if path = [] then ([], Some NoPath)
      else case validate_access_key U key of
        Some e \<Rightarrow> ([], Some (BadKey e))
      | None \<Rightarrow> run_script F (key_script path (key_text key)) fs)"

text \<open>\<open>os.WriteFile\<close> opens, writes and closes, without a sync.\<close>

definition backend_script :: "string \<Rightarrow> string \<Rightarrow> save_error script" where
  "backend_script p t =
     (let tmp = temp_name p in
      [(MkdirParent p, [], SMkdir), (OpenTrunc tmp, [], SOpen), (WriteTo tmp t, [CloseFile tmp], SWrite),
       (CloseFile tmp, [], SClose), (Rename tmp p, [Remove tmp], SRename)])"

definition persist_backend ::
  "unicode \<Rightarrow> faults \<Rightarrow> string \<Rightarrow> string \<Rightarrow> fs \<Rightarrow> fs list \<times> save_error option" where
  "persist_backend U F path0 backend0 fs =
     (let path = trim_space path0; backend = to_lower U (trim_space backend0) in
      if path = [] then ([], Some NoPath)
      else if backend \<noteq> ''outline'' \<and> backend \<noteq> ''amnezia'' then ([], Some BadBackend)
      else run_script F (backend_script path
             (''# outline-gate tunnel backend'' @ [CHR 0x0A] @ backend @ [CHR 0x0A])) fs)"

section \<open>The key at start-up\<close>

datatype load_key_error = KeyFileUnreadable | KeyFileBlank | KeyMissing

type_synonym getenv = "string \<Rightarrow> string"

definition env_key :: "getenv \<Rightarrow> fs \<Rightarrow> load_key_error + string" where
  "env_key getenv fs =
     (let v = trim_space (getenv ''OUTLINE_ACCESS_KEY'');
          path = trim_space (getenv ''OUTLINE_ACCESS_KEY_FILE'')
      in if v \<noteq> [] then Inr v
         else if path \<noteq> [] then
           (case fs path of
              None \<Rightarrow> Inl KeyFileUnreadable
            | Some f \<Rightarrow>
                (let key = first_non_comment_line (file_data f) in
                 if key = [] then Inl KeyFileBlank else Inr key))
         else Inl KeyMissing)"

definition load_access_key :: "unicode \<Rightarrow> faults \<Rightarrow> getenv \<Rightarrow> fs \<Rightarrow> (load_key_error + string) \<times> fs" where
  "load_access_key U F getenv fs =
     (let v = trim_space (getenv ''OUTLINE_KEY_PERSIST_FILE'');
          path = (if v = [] then ''/config/outline_key.runtime.txt'' else v);
          key = (case fs path of None \<Rightarrow> [] | Some f \<Rightarrow> first_non_comment_line (file_data f))
      in if key = [] then (env_key getenv fs, fs)
         else if validate_access_key U key = None then (Inr key, fs)
         else (let fs' = do_call F (Rename path (path @ ''.invalid'')) fs in (env_key getenv fs', fs')))"

section \<open>Trimming keeps visible text\<close>

lemma ws_no_graph: "w \<in> set ws_encodings \<Longrightarrow> c \<in> set w \<Longrightarrow> \<not> is_graph c"
  by (auto simp: ws_encodings_def is_graph_def byte_def)

lemma prefix_of_middle:
  assumes "has_prefix (u @ g @ v) w" "g \<noteq> []" "hd g \<notin> set w"
  shows "length w \<le> length u"
proof (rule ccontr)
  assume "\<not> length w \<le> length u"
  moreover have "(u @ g @ v) ! length u = hd g" using assms(2) by (cases g) (auto simp: nth_append)
  moreover have "w = take (length w) (u @ g @ v)" using assms(1) by (simp add: has_prefix_def)
  ultimately have "w ! length u = hd g" "length u < length w" by (metis nth_take not_le)+
  with assms(3) show False using nth_mem by metis
qed

lemma strip_front_keeps:
  assumes "g \<noteq> []" "\<And>w. w \<in> set ws \<Longrightarrow> hd g \<notin> set w"
  shows "\<exists>u'. strip_front ws (u @ g @ v) = u' @ g @ v"
proof (induction "length u" arbitrary: u rule: less_induct)
  case less
  show ?case
  proof (cases "find (\<lambda>w. w \<noteq> [] \<and> has_prefix (u @ g @ v) w) ws")
    case None
    then show ?thesis by (subst strip_front.simps) auto
  next
    case (Some w)
    then have w: "w \<in> set ws" "w \<noteq> []" "has_prefix (u @ g @ v) w" by (auto dest: find_Some_in)
    then have l: "length w \<le> length u" using prefix_of_middle [OF w(3) assms(1)] assms(2) by blast
    have "strip_front ws (u @ g @ v) = strip_front ws (drop (length w) u @ g @ v)"
      using Some l by (subst strip_front.simps) simp
    moreover have "length (drop (length w) u) < length u"
      using l length_greater_0_conv [of w] w(2) unfolding length_drop by linarith
    ultimately show ?thesis using less by metis
  qed
qed

lemma trim_space_keeps:
  assumes "contains s g" "g \<noteq> []" "\<And>c. c \<in> set g \<Longrightarrow> is_graph c"
  shows "contains (trim_space s) g"
proof -
  from assms(1) obtain u v where s: "s = u @ g @ v" by (auto simp: contains_iff)
  have h: "hd g \<notin> set w" "hd (rev g) \<notin> set w" if "w \<in> set ws_encodings" for w
    using ws_no_graph [OF that] assms(2,3) by (metis hd_in_set, metis hd_in_set rev_is_Nil_conv set_rev)
  obtain u' where 1: "strip_front ws_encodings s = u' @ g @ v"
    using strip_front_keeps [OF assms(2), of ws_encodings u v] h s by blast
  have 2: "rev (strip_front ws_encodings s) = rev v @ rev g @ rev u'" by (simp add: 1)
  obtain v' where "strip_front (map rev ws_encodings) (rev v @ rev g @ rev u') = v' @ rev g @ rev u'"
    using strip_front_keeps [of "rev g" "map rev ws_encodings" "rev v" "rev u'"] assms(2) h
    by fastforce
  then have "trim_space s = u' @ g @ rev v'" by (simp add: trim_space_def 2)
  then show ?thesis by (auto simp: contains_iff)
qed

section \<open>Properties of the key\<close>

lemma index_of_Some: "index_of s p = Some i \<Longrightarrow> \<exists>u v. s = u @ p @ v \<and> i = length u"
proof (induction s p arbitrary: i rule: index_of.induct)
  case (1 p)
  then show ?case by (auto split: if_splits)
next
  case (2 c s p)
  show ?case
  proof (cases "has_prefix (c # s) p")
    case True
    with 2(2) show ?thesis by (auto simp: has_prefix_iff intro!: exI [of _ "[]"])
  next
    case False
    with 2(2) obtain j where j: "index_of s p = Some j" "i = Suc j" by auto
    from 2(1) [OF False j(1)] obtain u v where "s = u @ p @ v" "j = length u" by blast
    with j(2) show ?thesis by (intro exI [of _ "c # u"] exI [of _ v]) simp
  qed
qed

lemma redact_stars: "key \<noteq> [] \<Longrightarrow> contains (redact_access_key key) ''***''"
proof -
  assume k: "key \<noteq> []"
  have "contains (a @ ''***@'' @ b) ''***''" "contains (a @ ''***'' @ b) ''***''" "contains ''***'' ''***''" for a b
    unfolding contains_iff by (metis append.assoc append_Cons append_Nil append_Nil2)+
  then show ?thesis using k by (auto simp: redact_access_key_def Let_def split: option.split)
qed

lemma validate_stars:
  assumes "contains key ''***''"
  shows "validate_access_key U key \<noteq> None"
proof -
  have "is_graph CHR ''*''" by (simp add: is_graph_def byte_def)
  then have "contains (trim_space key) ''***''" by (intro trim_space_keeps assms) auto
  then show ?thesis by (simp add: validate_access_key_def Let_def)
qed

text \<open>
  A redacted key can never be stored: whatever the key, ValidateAccessKey rejects the
  output of RedactAccessKey (what the UI and the logs show).
\<close>

theorem redacted_key_rejected: "validate_access_key U (redact_access_key key) \<noteq> None"
proof (cases "key = []")
  case True
  then show ?thesis by (simp add: redact_access_key_def validate_access_key_def)
next
  case False
  then show ?thesis by (rule validate_stars [OF redact_stars])
qed

interpretation key_file: durable_save key_script
  by unfold_locales (simp add: key_script_def temp_script_safe)

lemma valid_key_line:
  assumes "validate_access_key U key = None" "trim_space key = key"
  shows "key \<noteq> []" "CHR 0x0A \<notin> set key" "\<not> has_prefix key ''#''"
proof -
  have v: "key \<noteq> []" "\<not> contains_any key [CHR '' '', CHR 0x09, CHR 0x0D, CHR 0x0A]"
    "has_prefix key ''ss://'' \<or> has_prefix key ''ssconf://''"
    using assms by (auto simp: validate_access_key_def Let_def split: if_splits)
  show "key \<noteq> []" by (rule v(1))
  show "CHR 0x0A \<notin> set key" using v(2) by (auto simp: contains_any_iff)
  show "\<not> has_prefix key ''#''" using v(3) by (auto simp: has_prefix_iff)
qed

lemma first_line_key_text:
  assumes "validate_access_key U key = None" "trim_space key = key"
  shows "first_non_comment_line (key_text key) = key"
proof -
  note k = valid_key_line [OF assms]
  let ?h = key_header
  have "CHR 0x0A \<notin> set ?h" by (simp add: key_header_def)
  then have "split_on CHR 0x0A (key_text key) = ?h # split_on CHR 0x0A (key @ [CHR 0x0A])"
    using split_on_append [of "CHR 0x0A" ?h "key @ [CHR 0x0A]"] by (simp add: key_text_def)
  moreover have "split_on CHR 0x0A (key @ [CHR 0x0A]) = [key, []]"
    using split_on_append [OF k(2), of "[]"] by simp
  moreover have "trim_space ?h = ?h" "has_prefix ?h ''#''" by code_simp+
  ultimately show ?thesis using k assms(2) by (simp add: first_non_comment_line_def)
qed

text \<open>
  A key saved through the UI wins at the next start. If PersistAccessKey succeeds, a
  process that starts afterwards with the same persist path (whatever OUTLINE_ACCESS_KEY and
  the other variables say, and even after a crash right behind the call) loads exactly the
  trimmed key.
\<close>

theorem persisted_key_survives:
  assumes "persist_access_key U F path key fs = (tr, None)"
    and "trim_space (getenv ''OUTLINE_KEY_PERSIST_FILE'') = trim_space path"
  shows "load_access_key U G getenv (final_fs fs tr) = (Inr (trim_space key), final_fs fs tr) \<and>
    crash_reads (final_fs fs tr) (trim_space path) = {Some (key_text (trim_space key))}"
proof -
  let ?p = "trim_space path" and ?k = "trim_space key"
  have v: "?p \<noteq> []" "validate_access_key U ?k = None"
    and run: "run_script F (key_script ?p (key_text ?k)) fs = (tr, None)"
    using assms(1) by (auto simp: persist_access_key_def Let_def split: if_splits option.splits)
  have fin: "final_fs fs tr ?p = Some (durable_file (key_text ?k))" using key_file.saved [OF run] by simp
  have "first_non_comment_line (key_text ?k) = ?k" using first_line_key_text [OF v(2)] by simp
  with fin v assms(2) valid_key_line(1) [OF v(2)] show ?thesis
    by (simp add: load_access_key_def Let_def durable_file_def crash_reads_def)
qed

definition sample_env :: "(string \<times> string) list \<Rightarrow> getenv" where
  "sample_env kvs name = (case map_of kvs name of None \<Rightarrow> [] | Some v \<Rightarrow> v)"

theorem persisted_key_survives_witness:
  "let tr = fst (persist_access_key ascii_tables no_faults ''k'' '' ss://u@h:1 '' Map.empty);
       env = sample_env [(''OUTLINE_KEY_PERSIST_FILE'', ''k''), (''OUTLINE_ACCESS_KEY'', ''ss://old@h:2'')]
   in fst (load_access_key ascii_tables no_faults env (final_fs Map.empty tr)) = Inr ''ss://u@h:1''"
proof -
  let ?r = "persist_access_key ascii_tables no_faults ''k'' '' ss://u@h:1 '' Map.empty"
  let ?env = "sample_env [(''OUTLINE_KEY_PERSIST_FILE'', ''k''), (''OUTLINE_ACCESS_KEY'', ''ss://old@h:2'')]"
  have "snd ?r = None" by code_simp
  then have r: "?r = (fst ?r, None)" by (metis prod.collapse)
  have e: "trim_space (?env ''OUTLINE_KEY_PERSIST_FILE'') = trim_space ''k''" by code_simp
  have "trim_space '' ss://u@h:1 '' = ''ss://u@h:1''" by code_simp
  with persisted_key_survives [of ascii_tables no_faults "''k''" _ Map.empty "fst ?r" ?env, OF r e] show ?thesis by (simp add: Let_def)
qed

text \<open>
  A bad persisted key never shadows the environment and is not lost: the loader moves
  the file aside and answers with the key of the environment, exactly as if the file had
  never been there.
\<close>

lemma bad_persisted_key_moved_aside:
  assumes "trim_space (getenv ''OUTLINE_KEY_PERSIST_FILE'') = p" "p \<noteq> []" "fs p = Some f"
    and "validate_access_key U (first_non_comment_line (file_data f)) \<noteq> None"
    and "first_non_comment_line (file_data f) \<noteq> []"
    and "F (Rename p (p @ ''.invalid'')) = None"
  shows "load_access_key U F getenv fs =
      (env_key getenv (fs(p @ ''.invalid'' \<mapsto> f, p := None)), fs(p @ ''.invalid'' \<mapsto> f, p := None))"
  using assms by (auto simp: load_access_key_def Let_def)

end
