(* ===== verification/Go_Time.thy ===== *)
theory Go_Time
  imports Go_Strings
begin

text \<open>
  \<open>strconv.ParseBool\<close> and \<open>time.ParseDuration\<close>. A duration is its nanoseconds, a 64-bit
  integer; every overflow test of the parser is written out. The one floating-point step,
  the value of a decimal fraction of a unit, is a parameter: \<open>fl f k u\<close> stands for
  \<open>uint64(float64(f) * (float64(u) / 10^k))\<close>.
\<close>

definition parse_bool :: "string \<Rightarrow> bool option" where
  "parse_bool s =
     (if s \<in> {''1'', ''t'', ''T'', ''TRUE'', ''true'', ''True''} then Some True
      else if s \<in> {''0'', ''f'', ''F'', ''FALSE'', ''false'', ''False''} then Some False
      else None)"

type_synonym float_step = "nat \<Rightarrow> nat \<Rightarrow> nat \<Rightarrow> nat"

fun leading_int :: "nat \<Rightarrow> string \<Rightarrow> (nat \<times> string) option" where
  "leading_int x [] = Some (x, [])"
| "leading_int x (c # s) =
     (if \<not> is_digit c then Some (x, c # s)
      else if 2 ^ 63 div 10 < x then None
      else (let y = x * 10 + digit_val c in if 2 ^ 63 < y then None else leading_int y s))"

text \<open>Digits after the point: value, number of digits that count, and the rest.\<close>

fun leading_fraction :: "bool \<Rightarrow> nat \<Rightarrow> nat \<Rightarrow> string \<Rightarrow> nat \<times> nat \<times> string" where
  "leading_fraction ovf x k [] = (x, k, [])"
| "leading_fraction ovf x k (c # s) =
     (if \<not> is_digit c then (x, k, c # s)
      else if ovf then leading_fraction True x k s
      else if (2 ^ 63 - 1) div 10 < x then leading_fraction True x k s
      else (let y = x * 10 + digit_val c in
            if 2 ^ 63 < y then leading_fraction True x k s
            else leading_fraction False y (k + 1) s))"

definition unit_of :: "string \<Rightarrow> nat option" where
  "unit_of u =
     map_of [(''ns'', 1), (''us'', 1000), ([CHR 0xC2, CHR 0xB5, CHR ''s''], 1000),
             ([CHR 0xCE, CHR 0xBC, CHR ''s''], 1000), (''ms'', 1000000), (''s'', 1000000000),
             (''m'', 60000000000), (''h'', 3600000000000)] u"

definition unit_char :: "char \<Rightarrow> bool" where
  "unit_char c \<longleftrightarrow> c \<noteq> CHR ''.'' \<and> \<not> is_digit c"

lemma leading_int_shorter: "leading_int x s = Some (y, t) \<Longrightarrow> length t \<le> length s"
  by (induction x s rule: leading_int.induct) (auto simp: Let_def split: if_splits)

lemma leading_fraction_shorter: "leading_fraction b x k s = (y, j, t) \<Longrightarrow> length t \<le> length s"
  by (induction b x k s rule: leading_fraction.induct) (auto simp: Let_def split: if_splits)

text \<open>One group "digits, fraction, unit": its nanoseconds and the rest of the input.\<close>

definition duration_group :: "float_step \<Rightarrow> string \<Rightarrow> (nat \<times> string) option" where
  "duration_group fl s =
     (if \<not> (hd s = CHR ''.'' \<or> is_digit (hd s)) then None
      else case leading_int 0 s of
        None \<Rightarrow> None
      | Some (v, s1) \<Rightarrow>
          (let pre = length s1 \<noteq> length s;
               (f, k, s2) =
                 (if s1 \<noteq> [] \<and> hd s1 = CHR ''.'' then leading_fraction False 0 0 (tl s1) else (0, 0, s1));
               post = (s1 \<noteq> [] \<and> hd s1 = CHR ''.'' \<and> length s2 \<noteq> length (tl s1));
               u = takeWhile unit_char s2; s3 = dropWhile unit_char s2
           in if \<not> pre \<and> \<not> post then None
              else if u = [] then None
              else case unit_of u of
                None \<Rightarrow> None
              | Some n \<Rightarrow>
                  if 2 ^ 63 div n < v then None
                  else (let v1 = v * n; v2 = (if 0 < f then v1 + fl f k n else v1)
                        in if 0 < f \<and> 2 ^ 63 < v2 then None else Some (v2, s3))))"

lemma takeWhile_drop_shorter: "takeWhile P s \<noteq> [] \<Longrightarrow> length (dropWhile P s) < length s"
  using takeWhile_dropWhile_id [of P s] by (metis length_append length_greater_0_conv less_add_same_cancel2)

lemma duration_group_shorter:
  assumes "duration_group fl s = Some (v, t)"
  shows "length t < length s"
proof -
  obtain x s1 where i: "leading_int 0 s = Some (x, s1)"
    using assms by (auto simp: duration_group_def split: if_splits option.splits)
  define q where "q = (if s1 \<noteq> [] \<and> hd s1 = CHR ''.'' then leading_fraction False 0 0 (tl s1) else (0, 0, s1))"
  obtain f k s2 where q: "q = (f, k, s2)" by (metis prod_cases3)
  have "length s2 \<le> length s1"
  proof (cases "s1 \<noteq> [] \<and> hd s1 = CHR ''.''")
    case True
    then have "leading_fraction False 0 0 (tl s1) = (f, k, s2)" using q by (simp add: q_def)
    from leading_fraction_shorter [OF this] show ?thesis by simp
  next
    case False
    then show ?thesis using q by (auto simp: q_def)
  qed
  moreover have "t = dropWhile unit_char s2" "takeWhile unit_char s2 \<noteq> []"
    using assms i q
    by (auto simp: duration_group_def q_def [symmetric] Let_def split: if_splits option.splits)
  ultimately show ?thesis
    using takeWhile_drop_shorter [of unit_char s2] leading_int_shorter [OF i] by simp
qed

function duration_groups :: "float_step \<Rightarrow> nat \<Rightarrow> string \<Rightarrow> nat option" where
  "duration_groups fl d s =
     (if s = [] then Some d
      else case duration_group fl s of
        None \<Rightarrow> None
      | Some (v, t) \<Rightarrow> if 2 ^ 63 < d + v then None else duration_groups fl (d + v) t)"
  by pat_completeness auto
termination
  by (relation "measure (\<lambda>(fl, d, s). length s)") (auto dest: duration_group_shorter)

declare duration_groups.simps [simp del]

definition parse_duration :: "float_step \<Rightarrow> string \<Rightarrow> int option" where
  "parse_duration fl s0 =
     (let neg = (s0 \<noteq> [] \<and> hd s0 = CHR ''-'');
          s = (if s0 \<noteq> [] \<and> (hd s0 = CHR ''-'' \<or> hd s0 = CHR ''+'') then tl s0 else s0)
      in if s = ''0'' then Some 0
         else if s = [] then None
         else case duration_groups fl 0 s of
           None \<Rightarrow> None
         | Some d \<Rightarrow>
             if neg then Some (- int d)
             else if 2 ^ 63 - 1 < d then None else Some (int d))"

text \<open>A result is always a 64-bit duration.\<close>

lemma duration_groups_bound: "duration_groups fl d s = Some e \<Longrightarrow> d \<le> 2 ^ 63 \<Longrightarrow> e \<le> 2 ^ 63"
proof (induction fl d s rule: duration_groups.induct)
  case (1 fl d s)
  show ?case
  proof (cases "s = []")
    case True
    with 1(2,3) show ?thesis by (simp add: duration_groups.simps)
  next
    case False
    then obtain v t where g: "duration_group fl s = Some (v, t)" "\<not> 2 ^ 63 < d + v"
      using 1(2) by (subst (asm) duration_groups.simps) (auto split: option.splits if_splits)
    then have "duration_groups fl (d + v) t = Some e"
      using 1(2) False by (subst (asm) duration_groups.simps) simp
    from 1(1) [OF False g(1) refl g(2) this] g(2) show ?thesis by simp
  qed
qed

lemma parse_duration_range:
  assumes "parse_duration fl s = Some d"
  shows "- (2 ^ 63) \<le> d \<and> d < 2 ^ 63"
proof -
  consider "d = 0" | e neg where "duration_groups fl 0 (if neg then tl s else s) = Some e" "d = - int e"
    | e neg where "duration_groups fl 0 (if neg then tl s else s) = Some e" "d = int e" "e \<le> 2 ^ 63 - 1"
    using assms unfolding parse_duration_def Let_def
    by (auto split: if_splits option.splits) (metis not_le)+
  then show ?thesis
  proof cases
    case (2 e neg)
    from duration_groups_bound [OF this(1)] have "int e \<le> int (2 ^ 63)" by (simp only: of_nat_le_iff)
    with 2 show ?thesis by simp
  next
    case (3 e neg)
    then have "int e \<le> int (2 ^ 63 - 1)" by (simp only: of_nat_le_iff)
    with 3 show ?thesis by simp
  qed simp
qed

end
