(* ===== verification/Go_Net.thy ===== *)
theory Go_Net
  imports Go_Strings "HOL-Library.Word"
begin

unbundle bit_operations_syntax

text \<open>
  What the program uses of Go's package \<open>net\<close>: addresses of 4 and of 16 bytes with the
  IPv4-mapped convention, their textual forms (\<open>ParseIP\<close>, \<open>IP.String\<close>), networks
  (\<open>ParseCIDR\<close>, \<open>IPNet.Contains\<close>, \<open>IPNet.String\<close>) and \<open>JoinHostPort\<close> and
  \<open>SplitHostPort\<close>. A Go \<open>net.IP\<close> that may be nil is an \<open>ip option\<close>. Every mask of the
  program comes from \<open>CIDRMask\<close>, so a network keeps its prefix length.
\<close>

section \<open>Addresses\<close>

datatype ip = IP4 "32 word" | IP6 "128 word"

definition map_4in6 :: "32 word \<Rightarrow> 128 word" where
  "map_4in6 w = 0xFFFF00000000 OR ucast w"

lemma bit_mapped_prefix:
  "bit (0xFFFF00000000 :: 128 word) n \<longleftrightarrow> 32 \<le> n \<and> bit (0xFFFF :: 128 word) (n - 32)"
proof -
  have "0xFFFF00000000 = push_bit 32 (0xFFFF :: 128 word)" by simp
  then have "bit (0xFFFF00000000 :: 128 word) n \<longleftrightarrow> bit (push_bit 32 (0xFFFF :: 128 word)) n"
    by (rule arg_cong)
  also have "\<dots> \<longleftrightarrow> 32 \<le> n \<and> n < 128 \<and> bit (0xFFFF :: 128 word) (n - 32)"
    by (subst bit_push_bit_iff) (simp add: possible_bit_def)
  also have "bit (0xFFFF :: 128 word) (n - 32) \<Longrightarrow> n < 128"
  proof -
    assume "bit (0xFFFF :: 128 word) (n - 32)"
    moreover have "(0xFFFF :: 128 word) = mask 16" by (simp add: mask_eq_exp_minus_1)
    ultimately show ?thesis by (simp only: bit_mask_iff) linarith
  qed
  then have "(32 \<le> n \<and> n < 128 \<and> bit (0xFFFF :: 128 word) (n - 32)) =
      (32 \<le> n \<and> bit (0xFFFF :: 128 word) (n - 32))" by blast
  finally show ?thesis .
qed

fun to4 :: "ip \<Rightarrow> 32 word option" where
  "to4 (IP4 w) = Some w"
| "to4 (IP6 a) = (if drop_bit 32 a = 0xFFFF then Some (ucast a) else None)"

fun to16 :: "ip \<Rightarrow> 128 word" where
  "to16 (IP4 w) = map_4in6 w"
| "to16 (IP6 a) = a"

text \<open>The assignment \<open>if v4 := ip.To4(); v4 != nil { ip = v4 }\<close> of the code.\<close>

definition norm4 :: "ip \<Rightarrow> ip" where
  "norm4 a = (case to4 a of Some w \<Rightarrow> IP4 w | None \<Rightarrow> a)"

definition ip_equal :: "ip \<Rightarrow> ip \<Rightarrow> bool" where
  "ip_equal a b \<longleftrightarrow> to16 a = to16 b"

lemma bit_map_4in6:
  "bit (map_4in6 w) n \<longleftrightarrow> (32 \<le> n \<and> bit (0xFFFF :: 128 word) (n - 32)) \<or> bit w n"
proof -
  have "n < 128" if "bit w n" using bit_imp_le_length [OF that] by simp
  then show ?thesis
    by (simp only: map_4in6_def bit_or_iff bit_mapped_prefix) (auto simp: bit_ucast_iff)
qed

lemmas bit_mapped_simps = bit_map_4in6 bit_drop_bit_eq bit_ucast_iff

lemma to4_map_4in6 [simp]: "to4 (IP6 (map_4in6 w)) = Some w"
proof -
  have "drop_bit 32 (map_4in6 w) = 0xFFFF"
    by (rule bit_word_eqI) (auto simp: bit_mapped_simps dest: bit_imp_le_length)
  moreover have "ucast (map_4in6 w) = w"
    by (rule bit_word_eqI) (auto simp: bit_mapped_simps dest: bit_imp_le_length)
  ultimately show ?thesis by simp
qed

lemma map_4in6_of_to4: "drop_bit 32 a = 0xFFFF \<Longrightarrow> map_4in6 (ucast a) = (a :: 128 word)"
proof (rule bit_word_eqI)
  fix n assume h: "drop_bit 32 a = 0xFFFF" and n: "n < LENGTH(128)"
  show "bit (map_4in6 (ucast a)) n = bit a n"
  proof (cases "n < 32")
    case True
    then show ?thesis by (simp add: bit_mapped_simps)
  next
    case False
    then have "bit a n = bit (drop_bit 32 a) (n - 32)" by (simp add: bit_drop_bit_eq)
    with False n h show ?thesis
      by (auto simp: bit_mapped_simps)
  qed
qed

lemma to4_norm4 [simp]: "to4 (norm4 a) = to4 a"
  by (auto simp: norm4_def split: option.splits)

lemma norm4_idem [simp]: "norm4 (norm4 a) = norm4 a"
  by (auto simp: norm4_def split: option.splits)

lemma norm4_IP4 [simp]: "norm4 (IP4 w) = IP4 w"
  by (simp add: norm4_def)

lemma to16_norm4 [simp]: "to16 (norm4 a) = to16 a"
  by (cases a) (auto simp: norm4_def map_4in6_of_to4)

lemma ip_equal_norm4: "ip_equal a b \<longleftrightarrow> norm4 a = norm4 b"
proof
  assume "ip_equal a b"
  then have e: "to16 a = to16 b" by (simp add: ip_equal_def)
  have "norm4 c = norm4 (IP6 (to16 c))" for c
    by (cases c) (simp_all only: norm4_def to16.simps to4_map_4in6 to4.simps(1) option.case)
  with e show "norm4 a = norm4 b" by metis
next
  assume "norm4 a = norm4 b"
  then show "ip_equal a b" by (metis ip_equal_def to16_norm4)
qed

declare ip_equal_norm4 [code]

section \<open>Networks\<close>

datatype ipnet = Net4 "32 word" nat | Net6 "128 word" nat

definition cidr_mask :: "nat \<Rightarrow> 'a::len word" where
  "cidr_mask n = NOT (mask (LENGTH('a) - n))"

text \<open>
  \<open>networkNumberAndMask\<close>: an address of 16 bytes that is IPv4-mapped is read as four
  bytes, with the last four bytes of its mask.
\<close>

fun net_number :: "ipnet \<Rightarrow> ip \<times> nat" where
  "net_number (Net4 a n) = (IP4 a, n)"
| "net_number (Net6 a n) = (case to4 (IP6 a) of Some w \<Rightarrow> (IP4 w, n - 96) | None \<Rightarrow> (IP6 a, n))"

definition net_contains :: "ipnet \<Rightarrow> ip \<Rightarrow> bool" where
  "net_contains n x =
     (case (net_number n, norm4 x) of
        ((IP4 a, l), IP4 y) \<Rightarrow> a AND cidr_mask l = y AND cidr_mask l
      | ((IP6 a, l), IP6 y) \<Rightarrow> a AND cidr_mask l = y AND cidr_mask l
      | _ \<Rightarrow> False)"

definition host_net :: "ip \<Rightarrow> ipnet" where
  "host_net a = (case a of IP4 w \<Rightarrow> Net4 w 32 | IP6 w \<Rightarrow> Net6 w 128)"

lemma net_contains_norm4 [simp]: "net_contains n (norm4 x) = net_contains n x"
  by (simp add: net_contains_def)

lemma net_contains_cong: "ip_equal x y \<Longrightarrow> net_contains n x = net_contains n y"
  by (metis ip_equal_norm4 net_contains_norm4)

lemma and_cidr_mask_eq_iff:
  "a AND cidr_mask n = b AND cidr_mask n \<longleftrightarrow>
     drop_bit (LENGTH('a) - n) a = drop_bit (LENGTH('a) - n) (b :: 'a::len word)"
  (is "?l \<longleftrightarrow> ?r")
proof
  assume ?l
  then have l: "bit (a AND cidr_mask n) i = bit (b AND cidr_mask n) i" for i by simp
  show ?r
  proof (rule bit_word_eqI)
    fix i assume "i < LENGTH('a)"
    show "bit (drop_bit (LENGTH('a) - n) a) i = bit (drop_bit (LENGTH('a) - n) b) i"
      using l [of "LENGTH('a) - n + i"] bit_imp_le_length [of a "LENGTH('a) - n + i"]
        bit_imp_le_length [of b "LENGTH('a) - n + i"]
      by (auto simp: bit_drop_bit_eq bit_and_iff cidr_mask_def bit_not_iff bit_mask_iff)
  qed
next
  assume ?r
  then have r: "bit (drop_bit (LENGTH('a) - n) a) i = bit (drop_bit (LENGTH('a) - n) b) i" for i
    by simp
  show ?l
  proof (rule bit_word_eqI)
    fix i assume i: "i < LENGTH('a)"
    show "bit (a AND cidr_mask n) i = bit (b AND cidr_mask n) i"
      using r [of "i - (LENGTH('a) - n)"] i
      by (cases "i < LENGTH('a) - n")
        (auto simp: bit_drop_bit_eq bit_and_iff cidr_mask_def bit_not_iff bit_mask_iff)
  qed
qed

text \<open>The network of one address holds exactly the addresses equal to it.\<close>

lemma cidr_mask_full [simp]:
  "(cidr_mask 32 :: 32 word) = - 1" "(cidr_mask 128 :: 128 word) = - 1"
  by (simp_all add: cidr_mask_def)

lemma host_net_contains: "net_contains (host_net (norm4 a)) x \<longleftrightarrow> ip_equal a x"
proof (cases "to4 a")
  case None
  then obtain w where a: "a = IP6 w" "norm4 a = a" by (cases a) (auto simp: norm4_def)
  show ?thesis
    using None a by (cases "norm4 x") (auto simp: net_contains_def host_net_def ip_equal_norm4)
next
  case (Some v)
  then have a: "norm4 a = IP4 v" by (simp add: norm4_def)
  show ?thesis
    using a by (cases "norm4 x") (auto simp: net_contains_def host_net_def ip_equal_norm4)
qed

end
