(* ===== verification/Go_Net_Text.thy ===== *)
theory Go_Net_Text
  imports Go_Net
begin

text \<open>
  The textual side of Go's package \<open>net\<close>: dotted IPv4 and RFC 5952 IPv6 addresses,
  CIDR networks, and host:port pairs, parsed and printed as the standard library does.
\<close>

section \<open>Dotted IPv4\<close>

definition octets :: "32 word \<Rightarrow> nat list" where
  "octets w = [unat w div 256 ^ 3 mod 256, unat w div 256 ^ 2 mod 256, unat w div 256 mod 256,
               unat w mod 256]"

definition of_octets :: "nat \<Rightarrow> nat \<Rightarrow> nat \<Rightarrow> nat \<Rightarrow> 32 word" where
  "of_octets a b c d = word_of_nat (((a * 256 + b) * 256 + c) * 256 + d)"

definition parse_octet :: "string \<Rightarrow> nat option" where
  "parse_octet f =
     (case read_nat f of
        None \<Rightarrow> None
      | Some v \<Rightarrow> if v \<le> 255 \<and> (1 < length f \<longrightarrow> hd f \<noteq> CHR ''0'') then Some v else None)"

definition parse_ipv4 :: "string \<Rightarrow> (32 word) option" where
  "parse_ipv4 s =
     (case map parse_octet (split_on CHR ''.'' s) of
        [Some a, Some b, Some c, Some d] \<Rightarrow> Some (of_octets a b c d)
      | _ \<Rightarrow> None)"

definition show_ipv4 :: "32 word \<Rightarrow> string" where
  "show_ipv4 w = join ''.'' (map show_nat (octets w))"

lemma octets_less: "d \<in> set (octets w) \<Longrightarrow> d < 256"
  by (auto simp: octets_def)

lemma digit_step: "n div (k * b) * b + n div k mod b = (n div k :: nat)"
  by (simp add: div_mult2_eq)

lemma of_octets_octets:
  "of_octets (unat w div 256 ^ 3 mod 256) (unat w div 256 ^ 2 mod 256) (unat w div 256 mod 256)
     (unat w mod 256) = w"
proof -
  have "unat w < 256 ^ 4" using unsigned_less [of w] by simp
  then have 3: "unat w div 256 ^ 3 mod 256 = unat w div (256 ^ 2 * 256)"
    by (simp add: less_mult_imp_div_less)
  have 2: "unat w div (256 ^ 2 * 256) * 256 + unat w div 256 ^ 2 mod 256 = unat w div (256 * 256)"
    using digit_step [of "unat w" "256 ^ 2" 256] by (simp add: power2_eq_square)
  have 1: "unat w div (256 * 256) * 256 + unat w div 256 mod 256 = unat w div 256"
    by (rule digit_step)
  have 0: "unat w div 256 * 256 + unat w mod 256 = unat w" by simp
  show ?thesis
    unfolding of_octets_def 3 2 1 0 by simp
qed

lemma parse_octet_show_nat:
  assumes "n < 256" shows "parse_octet (show_nat n) = Some n"
proof -
  have "hd (show_nat n) \<noteq> CHR ''0''" if "1 < length (show_nat n)"
  proof
    assume "hd (show_nat n) = CHR ''0''"
    then have "n = 0" by (rule show_nat_hd_zero)
    with that show False by (simp add: show_nat.simps)
  qed
  with assms show ?thesis by (simp add: parse_octet_def)
qed

lemma not_digit_dot [simp]:
  "\<not> is_digit CHR ''.''" "\<not> is_digit CHR '':''" "\<not> is_digit CHR ''/''" "\<not> is_digit CHR ''%''"
  by (simp_all add: is_digit_def byte_def)

lemma show_nat_no_sep: "\<not> is_digit c \<Longrightarrow> c \<notin> set (show_nat n)"
  using show_nat_set by blast

theorem parse_show_ipv4 [simp]: "parse_ipv4 (show_ipv4 w) = Some w"
proof -
  have "split_on CHR ''.'' (show_ipv4 w) = map show_nat (octets w)"
    unfolding show_ipv4_def
    by (rule split_on_join) (auto simp: octets_def show_nat_no_sep)
  then have "map parse_octet (split_on CHR ''.'' (show_ipv4 w)) = map Some (octets w)"
    using octets_less [of _ w] by (simp add: parse_octet_show_nat)
  then show ?thesis
    by (simp add: parse_ipv4_def octets_def of_octets_octets [simplified])
qed

lemma unat_of_nat_32: "n < 4294967296 \<Longrightarrow> unat (word_of_nat n :: 32 word) = n"
  by (simp add: unsigned_of_nat take_bit_nat_eq_self)

lemma octets_of_octets:
  assumes "a < 256" "b < 256" "c < 256" "d < 256"
  shows "octets (of_octets a b c d) = [a, b, c, d]"
proof -
  let ?n = "((a * 256 + b) * 256 + c) * 256 + d"
  have "?n < 4294967296" using assms by simp
  then have n: "unat (of_octets a b c d) = ?n"
    unfolding of_octets_def by (rule unat_of_nat_32)
  have st: "(x * 256 + y) div 256 = x" "(x * 256 + y) mod 256 = y" if "y < 256" for x y :: nat
    using that by simp_all
  have 1: "?n div 256 = (a * 256 + b) * 256 + c" "?n mod 256 = d"
    using assms(4) by (rule st)+
  have 2: "((a * 256 + b) * 256 + c) div 256 = a * 256 + b" "((a * 256 + b) * 256 + c) mod 256 = c"
    using assms(3) by (rule st)+
  have 3: "(a * 256 + b) div 256 = a" "(a * 256 + b) mod 256 = b" using assms(2) by (rule st)+
  have "?n div 256 ^ 2 = a * 256 + b" "?n div 256 ^ 3 = a"
    by (simp_all only: power2_eq_square power3_eq_cube div_mult2_eq 1 2 3)
  then show ?thesis unfolding octets_def n using 1 2 3 assms(1) by simp
qed

lemma show_parse_octet: "parse_octet f = Some v \<Longrightarrow> show_nat v = f \<and> v < 256"
  by (auto simp: parse_octet_def read_nat_def show_nat_digits_val split: if_splits)

text \<open>Only the canonical text of an address is accepted.\<close>

theorem show_parse_ipv4:
  assumes "parse_ipv4 s = Some w"
  shows "show_ipv4 w = s"
proof -
  obtain a b c d where m: "map parse_octet (split_on CHR ''.'' s) = [Some a, Some b, Some c, Some d]"
    and w: "w = of_octets a b c d"
    using assms by (auto simp: parse_ipv4_def split: list.splits option.splits)
  from m obtain p q r t where sp: "split_on CHR ''.'' s = [p, q, r, t]" by auto
  with m have "show_nat a = p" "a < 256" "show_nat b = q" "b < 256" "show_nat c = r" "c < 256"
    "show_nat d = t" "d < 256" by (auto dest: show_parse_octet)
  then have "map show_nat (octets w) = split_on CHR ''.'' s" by (simp add: w octets_of_octets sp)
  then show ?thesis by (simp add: show_ipv4_def join_split_on)
qed

lemma show_ipv4_inject: "show_ipv4 v = show_ipv4 w \<longleftrightarrow> v = w"
  by (metis option.inject parse_show_ipv4)

lemma show_ipv4_set: "c \<in> set (show_ipv4 w) \<Longrightarrow> is_digit c \<or> c = CHR ''.''"
  by (auto simp: show_ipv4_def octets_def dest: show_nat_set)

lemma show_ipv4_dot: "CHR ''.'' \<in> set (show_ipv4 w)"
  by (simp add: show_ipv4_def octets_def)

section \<open>IPv6\<close>

definition groups :: "128 word \<Rightarrow> nat list" where
  "groups a = map (\<lambda>i. unat a div 65536 ^ i mod 65536) [7, 6, 5, 4, 3, 2, 1, 0]"

definition of_groups :: "nat list \<Rightarrow> 128 word" where
  "of_groups gs = word_of_nat (foldl (\<lambda>acc g. acc * 65536 + g) 0 gs)"

definition is_hex :: "char \<Rightarrow> bool" where
  "is_hex c \<longleftrightarrow> is_digit c \<or> (97 \<le> byte c \<and> byte c \<le> 102) \<or> (65 \<le> byte c \<and> byte c \<le> 70)"

definition hex_val :: "char \<Rightarrow> nat" where
  "hex_val c = (if is_digit c then byte c - 48 else if 97 \<le> byte c then byte c - 87 else byte c - 55)"

definition hex_char :: "nat \<Rightarrow> char" where
  "hex_char d = char_of (if d < 10 then 48 + d else 87 + d)"

definition hexs_val :: "string \<Rightarrow> nat" where
  "hexs_val s = foldl (\<lambda>a c. a * 16 + hex_val c) 0 s"

fun show_hex :: "nat \<Rightarrow> string" where
  "show_hex n = (if n < 16 then [hex_char n] else show_hex (n div 16) @ [hex_char (n mod 16)])"

declare show_hex.simps [simp del]

text \<open>
  The loop of \<open>netip.parseIPv6\<close> after the optional leading \<open>::\<close>: at most \<open>k\<close> groups are
  left, \<open>gs\<close> are the groups read, \<open>ell\<close> the position of the ellipsis.
\<close>

fun parse6_loop :: "nat \<Rightarrow> nat list \<Rightarrow> nat option \<Rightarrow> string \<Rightarrow> (nat list \<times> nat option \<times> string) option" where
  "parse6_loop 0 gs ell s = Some (gs, ell, s)"
| "parse6_loop (Suc k) gs ell s =
     (let h = takeWhile is_hex s; rest = dropWhile is_hex s in
      if h = [] \<or> 4 < length h then None
      else if has_prefix rest ''.'' then
        (if ell = None \<and> length gs \<noteq> 6 \<or> 6 < length gs then None
         else case parse_ipv4 s of
                None \<Rightarrow> None
              | Some w \<Rightarrow> Some (gs @ [unat w div 65536, unat w mod 65536], ell, []))
      else let gs' = gs @ [hexs_val h] in
        (case rest of
           [] \<Rightarrow> Some (gs', ell, [])
         | c # r \<Rightarrow>
             if c \<noteq> CHR '':'' \<or> r = [] then None
             else if has_prefix r '':'' then
               (if ell \<noteq> None then None
                else if tl r = [] then Some (gs', Some (length gs'), [])
                else parse6_loop k gs' (Some (length gs')) (tl r))
             else parse6_loop k gs' ell r))"

definition expand6 :: "nat list \<times> nat option \<times> string \<Rightarrow> (128 word) option" where
  "expand6 r = (case r of (gs, ell, s) \<Rightarrow>
     if s \<noteq> [] then None
     else if length gs < 8 then
       (case ell of None \<Rightarrow> None
        | Some e \<Rightarrow> Some (of_groups (take e gs @ replicate (8 - length gs) 0 @ drop e gs)))
     else if ell \<noteq> None then None
     else Some (of_groups gs))"

definition parse_ipv6 :: "string \<Rightarrow> (128 word) option" where
  "parse_ipv6 s =
     (if has_prefix s ''::'' then
        (if drop 2 s = [] then Some 0
         else Option.bind (parse6_loop 8 [] (Some 0) (drop 2 s)) expand6)
      else Option.bind (parse6_loop 8 [] None s) expand6)"

text \<open>Printing: the first longest run of at least two zero groups becomes \<open>::\<close>.\<close>

definition zero_run :: "nat list \<Rightarrow> nat \<Rightarrow> nat" where
  "zero_run gs i = length (takeWhile (\<lambda>g. g = 0) (drop i gs))"

definition best_run :: "nat list \<Rightarrow> nat \<times> nat" where
  "best_run gs = foldl (\<lambda>(st, len) i.
      let l = zero_run gs i in if 2 \<le> l \<and> len < l then (i, l) else (st, len))
      (0, 0) [0, 1, 2, 3, 4, 5, 6, 7]"

definition show_groups :: "nat list \<Rightarrow> string" where
  "show_groups gs = join '':'' (map show_hex gs)"

definition show_ipv6 :: "128 word \<Rightarrow> string" where
  "show_ipv6 a =
     (let gs = groups a; (st, len) = best_run gs in
      if len = 0 then show_groups gs
      else show_groups (take st gs) @ ''::'' @ show_groups (drop (st + len) gs))"

lemma hex_char_props:
  assumes "d < 16"
  shows "is_hex (hex_char d)" "hex_val (hex_char d) = d"
proof -
  have "byte (hex_char d) = (if d < 10 then 48 + d else 87 + d)"
    using assms by (simp add: hex_char_def byte_char_of)
  with assms show "is_hex (hex_char d)" "hex_val (hex_char d) = d"
    by (auto simp: is_hex_def hex_val_def is_digit_def)
qed

lemma not_hex_sep [simp]:
  "\<not> is_hex CHR '':''" "\<not> is_hex CHR ''.''" "\<not> is_hex CHR ''/''" "\<not> is_hex CHR ''%''"
  by (simp_all add: is_hex_def is_digit_def byte_def)

lemma show_hex_all: "list_all is_hex (show_hex n)"
  by (induction n rule: show_hex.induct) (subst show_hex.simps, auto simp: hex_char_props)

lemma show_hex_set: "c \<in> set (show_hex n) \<Longrightarrow> is_hex c"
  using show_hex_all [of n] by (auto simp: list_all_iff)

lemma show_hex_ne [simp]: "show_hex n \<noteq> []"
  by (subst show_hex.simps) simp

lemma hexs_val_show_hex [simp]: "hexs_val (show_hex n) = n"
proof (induction n rule: show_hex.induct)
  case (1 n)
  show ?case
  proof (cases "n < 16")
    case True
    then show ?thesis by (subst show_hex.simps) (simp add: hexs_val_def hex_char_props)
  next
    case False
    with "1" have "hexs_val (show_hex (n div 16)) = n div 16" by simp
    with False show ?thesis
      by (subst show_hex.simps) (simp add: hexs_val_def hex_char_props)
  qed
qed

lemma show_hex_length: "n < 65536 \<Longrightarrow> length (show_hex n) \<le> 4"
  by (simp add: show_hex.simps)

lemma span_hex_append:
  assumes "rest = [] \<or> \<not> is_hex (hd rest)"
  shows "takeWhile is_hex (show_hex n @ rest) = show_hex n"
    "dropWhile is_hex (show_hex n @ rest) = rest"
  using assms by (cases rest; auto simp: takeWhile_append dropWhile_append dest: show_hex_set)+

lemma span_hex:
  "takeWhile is_hex (show_hex n) = show_hex n" "dropWhile is_hex (show_hex n) = []"
  using span_hex_append [of "[]" n] by simp_all

lemma parse6_loop_last:
  "n < 65536 \<Longrightarrow> parse6_loop (Suc k) gs ell (show_hex n) = Some (gs @ [n], ell, [])"
  using show_hex_length [of n] by (simp add: has_prefix_def Let_def span_hex not_less)

lemma parse6_loop_colon:
  assumes "n < 65536" "r \<noteq> []" "hd r \<noteq> CHR '':''"
  shows "parse6_loop (Suc k) gs ell (show_hex n @ CHR '':'' # r) = parse6_loop k (gs @ [n]) ell r"
  using show_hex_length [OF assms(1)] assms(2,3)
  by (cases r) (simp_all add: has_prefix_def Let_def span_hex_append not_less)

lemma parse6_loop_ellipsis:
  assumes "n < 65536"
  shows "parse6_loop (Suc k) gs None (show_hex n @ CHR '':'' # CHR '':'' # r) =
    (if r = [] then Some (gs @ [n], Some (Suc (length gs)), [])
     else parse6_loop k (gs @ [n]) (Some (Suc (length gs))) r)"
  using show_hex_length [OF assms] by (simp add: has_prefix_def Let_def span_hex_append not_less)

lemma show_groups_Cons2:
  "show_groups (g # h # t) = show_hex g @ CHR '':'' # show_groups (h # t)"
  by (simp add: show_groups_def)

lemma show_groups_simps [simp]: "show_groups [] = []" "show_groups [g] = show_hex g"
  by (simp_all add: show_groups_def)

lemma show_groups_hd: "gs \<noteq> [] \<Longrightarrow> show_groups gs \<noteq> [] \<and> is_hex (hd (show_groups gs))"
proof (induction gs rule: induct_list012)
  case (2 g)
  then show ?case using show_hex_set [of "hd (show_hex g)" g] by simp
next
  case (3 g h t)
  then show ?case using show_hex_set [of "hd (show_hex g)" g] by (simp add: show_groups_Cons2)
qed simp

lemma show_groups_hd_colon: "gs \<noteq> [] \<Longrightarrow> hd (show_groups gs) \<noteq> CHR '':''"
  using show_groups_hd [of gs] not_hex_sep(1) by metis

lemma parse6_loop_groups:
  "gs \<noteq> [] \<Longrightarrow> (\<forall>g \<in> set gs. g < 65536) \<Longrightarrow> length gs \<le> k \<Longrightarrow>
     parse6_loop k acc ell (show_groups gs) = Some (acc @ gs, ell, [])"
proof (induction gs arbitrary: k acc rule: induct_list012)
  case (2 g)
  then show ?case by (cases k) (simp_all add: parse6_loop_last del: parse6_loop.simps)
next
  case (3 g h t)
  then obtain k' where "k = Suc k'" by (cases k) auto
  with 3 show ?case
    using show_groups_hd [of "h # t"] show_groups_hd_colon [of "h # t"]
    by (simp add: show_groups_Cons2 parse6_loop_colon del: parse6_loop.simps)
qed simp

lemma parse6_loop_two_parts:
  "gs \<noteq> [] \<Longrightarrow> (\<forall>g \<in> set (gs @ hs). g < 65536) \<Longrightarrow> length gs + length hs \<le> k \<Longrightarrow>
     parse6_loop k acc None (show_groups gs @ ''::'' @ show_groups hs) =
       Some (acc @ gs @ hs, Some (length acc + length gs), [])"
proof (induction gs arbitrary: k acc rule: induct_list012)
  case (2 g)
  then obtain k' where k: "k = Suc k'" by (cases k) auto
  show ?case
  proof (cases "hs = []")
    case True
    with 2 k show ?thesis by (simp add: parse6_loop_ellipsis del: parse6_loop.simps)
  next
    case False
    with 2 k show ?thesis
      using show_groups_hd [of hs]
      by (simp add: parse6_loop_ellipsis parse6_loop_groups del: parse6_loop.simps)
  qed
next
  case (3 g h t)
  then obtain k' where "k = Suc k'" by (cases k) auto
  with 3 show ?case
    using show_groups_hd [of "h # t"] show_groups_hd_colon [of "h # t"]
    by (simp add: show_groups_Cons2 parse6_loop_colon del: parse6_loop.simps)
qed simp

lemma groups_props: "length (groups a) = 8" "g \<in> set (groups a) \<Longrightarrow> g < 65536"
  by (auto simp: groups_def)

lemma foldl_digits:
  "foldl (\<lambda>acc g. acc * b + g) acc (map (\<lambda>i. n div b ^ i mod b) (rev [0..<k])) =
     acc * b ^ k + (n :: nat) mod b ^ k"
proof (induction k arbitrary: acc)
  case 0
  then show ?case by simp
next
  case (Suc k)
  have "n mod b ^ Suc k = b ^ k * (n div b ^ k mod b) + n mod b ^ k"
    using mod_mult2_eq [of n "b ^ k" b] by (simp add: mult.commute)
  moreover have "foldl (\<lambda>acc g. acc * b + g) acc (map (\<lambda>i. n div b ^ i mod b) (rev [0..<Suc k])) =
      (acc * b + n div b ^ k mod b) * b ^ k + n mod b ^ k"
    using Suc.IH [of "acc * b + n div b ^ k mod b"] by simp
  ultimately show ?case by (simp add: algebra_simps)
qed

lemma of_groups_groups [simp]: "of_groups (groups a) = a"
proof -
  have "unat a < 65536 ^ 8" using unsigned_less [of a] by simp
  moreover have "groups a = map (\<lambda>i. unat a div 65536 ^ i mod 65536) (rev [0..<8])"
    by (simp add: groups_def upt_rec)
  ultimately have "foldl (\<lambda>acc g. acc * 65536 + g) 0 (groups a) = unat a"
    by (simp only: foldl_digits) simp
  then show ?thesis by (simp add: of_groups_def)
qed

lemma of_groups_zeros: "of_groups (replicate n 0) = 0"
proof -
  have "foldl (\<lambda>acc g. acc * 65536 + g) 0 (replicate n (0 :: nat)) = 0" by (induction n) simp_all
  then show ?thesis by (simp only: of_groups_def) simp
qed

lemma zero_run_take:
  "take (zero_run gs i) (drop i gs) = replicate (zero_run gs i) 0"
proof -
  have "takeWhile (\<lambda>g. g = 0) xs = replicate (length (takeWhile (\<lambda>g. g = 0) xs)) 0" for xs :: "nat list"
    by (induction xs) auto
  then show ?thesis unfolding zero_run_def by (metis takeWhile_eq_take)
qed

lemma zero_run_le: "zero_run gs i \<le> length gs - i"
  unfolding zero_run_def by (metis length_drop length_takeWhile_le)

lemma best_run_cases:
  assumes "best_run gs = (st, len)"
  shows "len = 0 \<or> 2 \<le> len \<and> len = zero_run gs st"
proof -
  let ?f = "\<lambda>(st, len) i. let l = zero_run gs i in if 2 \<le> l \<and> len < l then (i, l) else (st, len)"
  let ?P = "\<lambda>(st, len). len = 0 \<or> 2 \<le> len \<and> len = zero_run gs st"
  have "?P (foldl ?f p xs)" if "?P p" for p and xs :: "nat list"
    using that
  proof (induction xs arbitrary: p)
    case (Cons i xs)
    have "?P (?f p i)" using Cons.prems by (cases p) (auto simp: Let_def)
    with Cons.IH show ?case by simp
  qed simp
  from this [of "(0, 0)" "[0, 1, 2, 3, 4, 5, 6, 7]"] assms show ?thesis
    by (simp add: best_run_def)
qed

text \<open>The groups around the chosen run, with the run written out again.\<close>

lemma best_run_split:
  assumes "best_run gs = (st, len)" "len \<noteq> 0"
  shows "take st gs @ replicate len 0 @ drop (st + len) gs = gs" "st + len \<le> length gs"
proof -
  have l: "len = zero_run gs st" using best_run_cases [OF assms(1)] assms(2) by simp
  then have "take len (drop st gs) = replicate len 0" using zero_run_take by simp
  then show "take st gs @ replicate len 0 @ drop (st + len) gs = gs"
    by (metis add.commute append_take_drop_id drop_drop)
  show "st + len \<le> length gs" using zero_run_le [of gs st] l assms(2) by simp
qed

lemma expand6_ellipsis:
  "length xs < 8 \<Longrightarrow>
     expand6 (xs, Some e, []) = Some (of_groups (take e xs @ replicate (8 - length xs) 0 @ drop e xs))"
  by (simp add: expand6_def)

theorem parse_show_ipv6 [simp]: "parse_ipv6 (show_ipv6 a) = Some a"
proof -
  let ?gs = "groups a"
  obtain st len where b: "best_run ?gs = (st, len)" by fastforce
  have lt: "\<forall>g \<in> set ?gs. g < 65536" using groups_props by blast
  have len8: "length ?gs = 8" by (rule groups_props)
  consider "len = 0" | "len \<noteq> 0" "st = 0" | "len \<noteq> 0" "st \<noteq> 0" by blast
  then show ?thesis
  proof cases
    case 1
    have ne: "?gs \<noteq> []" using len8 by auto
    then have "\<not> has_prefix (show_groups ?gs) ''::''"
      using show_groups_hd_colon [OF ne] by (cases "show_groups ?gs") (auto simp: has_prefix_def)
    with 1 b show ?thesis
      using parse6_loop_groups [OF ne lt, of 8 "[]" None] len8
      by (simp add: show_ipv6_def parse_ipv6_def expand6_def)
  next
    case 2
    note sp = best_run_split [OF b 2(1)]
    have s: "show_ipv6 a = ''::'' @ show_groups (drop len ?gs)"
      using b 2 by (simp add: show_ipv6_def)
    show ?thesis
    proof (cases "drop len ?gs = []")
      case True
      then have "len = 8" using sp(2) 2 len8 by simp
      then have "?gs = replicate 8 0" using sp(1) 2 len8 by simp
      then have "a = of_groups (replicate 8 0)" by (metis of_groups_groups)
      then have "a = 0" by (simp only: of_groups_zeros)
      with True s show ?thesis by (simp add: parse_ipv6_def has_prefix_def)
    next
      case False
      let ?hs = "drop len ?gs"
      have lt': "\<forall>g \<in> set ?hs. g < 65536" using lt by (meson in_set_dropD)
      have "parse6_loop 8 [] (Some 0) (show_groups ?hs) = Some (?hs, Some 0, [])"
        using parse6_loop_groups [OF False lt', of 8 "[]"] len8 by simp
      moreover have "replicate (8 - length ?hs) 0 @ ?hs = ?gs" "length ?hs < 8"
        using sp 2 len8 by simp_all
      ultimately show ?thesis
        using s False show_groups_hd [OF False] by (simp add: parse_ipv6_def has_prefix_def expand6_def)
    qed
  next
    case 3
    note sp = best_run_split [OF b 3(1)]
    let ?fs = "take st ?gs" and ?hs = "drop (st + len) ?gs"
    have s: "show_ipv6 a = show_groups ?fs @ ''::'' @ show_groups ?hs"
      using b 3 by (simp add: show_ipv6_def Let_def)
    have ne: "?fs \<noteq> []" using 3 len8 by auto
    have lt': "\<forall>g \<in> set (?fs @ ?hs). g < 65536"
      using lt by (auto dest: in_set_takeD in_set_dropD)
    have np: "\<not> has_prefix (show_ipv6 a) ''::''"
      using show_groups_hd_colon [OF ne] show_groups_hd [OF ne] s
      by (cases "show_groups ?fs") (auto simp: has_prefix_def)
    have ln: "length ?fs = st" "length ?hs = 8 - (st + len)" using sp(2) len8 by simp_all
    have "parse6_loop 8 [] None (show_ipv6 a) = Some (?fs @ ?hs, Some st, [])"
      using parse6_loop_two_parts [OF ne lt', of 8 "[]"] s ln sp(2) len8 by simp
    moreover have "expand6 (?fs @ ?hs, Some st, []) = Some (of_groups ?gs)"
    proof -
      have "take st (?fs @ ?hs) = ?fs" "drop st (?fs @ ?hs) = ?hs"
        using ln(1) by (simp_all del: length_take)
      moreover have "length (?fs @ ?hs) < 8" "8 - length (?fs @ ?hs) = len"
        using ln sp(2) len8 3(1) by simp_all
      ultimately show ?thesis using sp(1) by (simp only: expand6_ellipsis)
    qed
    ultimately show ?thesis using np by (simp add: parse_ipv6_def)
  qed
qed

lemma show_groups_set: "c \<in> set (show_groups gs) \<Longrightarrow> is_hex c \<or> c = CHR '':''"
  by (induction gs rule: induct_list012) (auto simp: show_groups_Cons2 dest: show_hex_set)

lemma show_ipv6_set: "c \<in> set (show_ipv6 a) \<Longrightarrow> is_hex c \<or> c = CHR '':''"
  by (auto simp: show_ipv6_def Let_def split: prod.splits if_splits dest: show_groups_set)

lemma show_ipv6_colon: "CHR '':'' \<in> set (show_ipv6 a)"
proof -
  have "CHR '':'' \<in> set (show_groups gs)" if "length gs = 8" for gs
    using that by (cases gs rule: remdups_adj.cases) (auto simp: show_groups_Cons2)
  then show ?thesis
    using groups_props(1) [of a]
    by (cases "best_run (groups a)") (auto simp: show_ipv6_def Let_def)
qed

section \<open>Addresses: netip.ParseAddr, net.ParseIP and IP.String\<close>

text \<open>
  The first of the bytes dot, colon and percent decides the family. A percent sign starts
  a zone, which \<open>net.ParseIP\<close> and \<open>net.ParseCIDR\<close> refuse, so any string with one is invalid.
\<close>

definition parse_addr :: "string \<Rightarrow> ip option" where
  "parse_addr s =
     (if CHR ''%'' \<in> set s then None
      else case find (\<lambda>c. c = CHR ''.'' \<or> c = CHR '':'') s of
             None \<Rightarrow> None
           | Some c \<Rightarrow> if c = CHR ''.'' then map_option IP4 (parse_ipv4 s)
                       else map_option IP6 (parse_ipv6 s))"

definition parse_ip :: "string \<Rightarrow> ip option" where
  "parse_ip s = map_option (\<lambda>a. IP6 (to16 a)) (parse_addr s)"

definition show_ip :: "ip \<Rightarrow> string" where
  "show_ip a = (case norm4 a of IP4 w \<Rightarrow> show_ipv4 w | IP6 b \<Rightarrow> show_ipv6 b)"

lemma find_Some_only:
  "x \<in> set xs \<Longrightarrow> P x \<Longrightarrow> (\<And>y. y \<in> set xs \<Longrightarrow> P y \<Longrightarrow> y = x) \<Longrightarrow> find P xs = Some x"
  by (metis find_None_iff find_Some_in option.exhaust)

lemma parse_addr_show_ipv4 [simp]: "parse_addr (show_ipv4 w) = Some (IP4 w)"
proof -
  have "find (\<lambda>c. c = CHR ''.'' \<or> c = CHR '':'') (show_ipv4 w) = Some CHR ''.''"
    by (rule find_Some_only) (use show_ipv4_dot show_ipv4_set in \<open>force+\<close>)
  moreover have "CHR ''%'' \<notin> set (show_ipv4 w)" using show_ipv4_set by force
  ultimately show ?thesis by (simp add: parse_addr_def)
qed

lemma parse_addr_show_ipv6 [simp]: "parse_addr (show_ipv6 a) = Some (IP6 a)"
proof -
  have "find (\<lambda>c. c = CHR ''.'' \<or> c = CHR '':'') (show_ipv6 a) = Some CHR '':''"
    by (rule find_Some_only) (use show_ipv6_colon show_ipv6_set in \<open>force+\<close>)
  moreover have "CHR ''%'' \<notin> set (show_ipv6 a)" using show_ipv6_set by force
  ultimately show ?thesis by (simp add: parse_addr_def)
qed

text \<open>Reading a printed address gives the address back, in its shortest form.\<close>

theorem parse_addr_show_ip [simp]: "parse_addr (show_ip a) = Some (norm4 a)"
  by (simp add: show_ip_def split: ip.splits)

lemma parse_ip_show_ip [simp]: "parse_ip (show_ip a) = Some (IP6 (to16 a))"
  by (simp add: parse_ip_def)

lemma show_ip_norm4 [simp]: "show_ip (norm4 a) = show_ip a"
  by (simp add: show_ip_def)

lemma show_ip_inject: "show_ip a = show_ip b \<longleftrightarrow> ip_equal a b"
  by (metis ip_equal_norm4 option.inject parse_addr_show_ip show_ip_norm4)

lemma show_ip_set: "c \<in> set (show_ip a) \<Longrightarrow> is_hex c \<or> c = CHR '':'' \<or> c = CHR ''.''"
  by (auto simp: show_ip_def is_hex_def split: ip.splits dest!: show_ipv4_set show_ipv6_set)

lemma norm4_parse_ip: "parse_ip s = Some a \<Longrightarrow> \<exists>b. parse_addr s = Some b \<and> norm4 a = norm4 b"
proof -
  assume "parse_ip s = Some a"
  then obtain b where b: "parse_addr s = Some b" "a = IP6 (to16 b)" by (auto simp: parse_ip_def)
  have "ip_equal a b" by (simp add: ip_equal_def b)
  with b show ?thesis by (auto simp: ip_equal_norm4)
qed

text \<open>A printed address is lower case and does not end in a dot.\<close>

lemma show_hex_not_upper: "c \<in> set (show_hex n) \<Longrightarrow> \<not> is_upper c"
proof (induction n rule: show_hex.induct)
  case (1 n)
  have "\<not> is_upper (hex_char d)" if "d < 16" for d
    using that by (simp add: hex_char_def is_upper_def byte_char_of)
  with 1 show ?case by (subst (asm) show_hex.simps) (auto split: if_splits)
qed

lemma show_groups_not_upper: "c \<in> set (show_groups gs) \<Longrightarrow> \<not> is_upper c"
proof (induction gs rule: induct_list012)
  case (3 g h t)
  then show ?case
    by (auto simp: show_groups_Cons2 is_upper_def byte_def dest!: show_hex_not_upper)
qed (auto dest: show_hex_not_upper)

lemma show_ip_not_upper: "c \<in> set (show_ip a) \<Longrightarrow> \<not> is_upper c"
proof -
  have "\<not> is_upper c" if "c \<in> set (show_ipv6 b)" for b
    using that by (auto simp: show_ipv6_def Let_def is_upper_def byte_def
        split: prod.splits if_splits dest!: show_groups_not_upper)
  moreover have "\<not> is_upper c" if "c \<in> set (show_ipv4 w)" for w
    using show_ipv4_set [OF that] by (auto simp: is_upper_def is_digit_def byte_def)
  ultimately show "c \<in> set (show_ip a) \<Longrightarrow> \<not> is_upper c"
    by (auto simp: show_ip_def split: ip.splits)
qed

lemma show_ip_no_dot_end: "\<not> has_suffix (show_ip a) ''.''"
proof (cases "norm4 a")
  case (IP4 w)
  define n where "n = unat w mod 256"
  obtain u where u: "show_ipv4 w = u @ show_nat n"
    by (auto simp: show_ipv4_def octets_def n_def)
  have "last (show_ipv4 w) \<in> set (show_nat n)" using last_in_set [of "show_nat n"] by (simp add: u)
  then have "is_digit (last (show_ipv4 w))" by (rule show_nat_set)
  with IP4 show ?thesis by (auto simp: show_ip_def has_suffix_iff)
next
  case (IP6 b)
  have "CHR ''.'' \<notin> set (show_ipv6 b)" using show_ipv6_set [of "CHR ''.''" b] by auto
  with IP6 show ?thesis by (auto simp: show_ip_def has_suffix_iff)
qed

section \<open>Networks: net.ParseCIDR and IPNet.String\<close>

text \<open>\<open>net.ParseCIDR\<close> returns the address as written and the network it lies in.\<close>

definition parse_cidr :: "string \<Rightarrow> (ip \<times> ipnet) option" where
  "parse_cidr s =
     (case cut s CHR ''/'' of
        None \<Rightarrow> None
      | Some (addr, msk) \<Rightarrow>
          (case (parse_addr addr, read_nat msk) of
             (Some (IP4 w), Some n) \<Rightarrow>
               if n \<le> 32 then Some (IP6 (map_4in6 w), Net4 (w AND cidr_mask n) n) else None
           | (Some (IP6 a), Some n) \<Rightarrow>
               if n \<le> 128 then Some (IP6 a, Net6 (a AND cidr_mask n) n) else None
           | _ \<Rightarrow> None))"

definition show_net :: "ipnet \<Rightarrow> string" where
  "show_net n = (case net_number n of (a, l) \<Rightarrow> show_ip a @ ''/'' @ show_nat l)"

text \<open>Networks as \<open>ParseCIDR\<close> and the code's literals build them: no host bit is set.\<close>

fun net_wf :: "ipnet \<Rightarrow> bool" where
  "net_wf (Net4 a n) \<longleftrightarrow> n \<le> 32 \<and> a AND cidr_mask n = a"
| "net_wf (Net6 a n) \<longleftrightarrow> n \<le> 128 \<and> a AND cidr_mask n = a"

lemma parse_cidr_wf: "parse_cidr s = Some (a, n) \<Longrightarrow> net_wf n"
  by (auto simp: parse_cidr_def and.assoc split: option.splits ip.splits if_splits)

lemma host_net_wf [simp]: "net_wf (host_net a)"
  by (cases a) (simp_all add: host_net_def)

lemma no_slash_show_ip: "CHR ''/'' \<notin> set (show_ip a)"
  using show_ip_set [of "CHR ''/''" a] by force

text \<open>
  A mapped network is printed as the IPv4 network of the same addresses; every other
  network is read back as it was.
\<close>

definition net_canon :: "ipnet \<Rightarrow> ipnet" where
  "net_canon n = (case net_number n of (IP4 a, l) \<Rightarrow> Net4 a l | (IP6 a, l) \<Rightarrow> Net6 a l)"

lemma net_number_canon [simp]: "net_number (net_canon n) = net_number n"
  by (cases n) (auto simp: net_canon_def split: option.splits)

lemma net_contains_canon [simp]: "net_contains (net_canon n) x = net_contains n x"
  by (simp add: net_contains_def)

lemma show_net_canon [simp]: "show_net (net_canon n) = show_net n"
  by (simp add: show_net_def)

lemma net_canon_Net4 [simp]: "net_canon (Net4 a n) = Net4 a n"
  by (simp add: net_canon_def)

lemma net_number_norm4: "net_number n = (a, l) \<Longrightarrow> norm4 a = a"
  by (cases n) (auto simp: norm4_def split: option.splits if_splits)

lemma bit_cidr_mask: "bit (cidr_mask n :: 'a::len word) i \<longleftrightarrow> i < LENGTH('a) \<and> LENGTH('a) - n \<le> i"
  by (auto simp: cidr_mask_def bit_not_iff bit_mask_iff)

lemma and_cidr_mask_self_iff:
  "a AND cidr_mask n = (a :: 'a::len word) \<longleftrightarrow> (\<forall>i. bit a i \<longrightarrow> LENGTH('a) - n \<le> i)"
  by (auto simp: bit_eq_iff bit_and_iff bit_cidr_mask dest: bit_imp_le_length)

lemma net_wf_canon: "net_wf n \<Longrightarrow> net_wf (net_canon n)"
proof (cases n)
  case (Net6 a l)
  assume "net_wf n"
  with Net6 have w: "l \<le> 128" "\<And>i. bit a i \<Longrightarrow> 128 - l \<le> i"
    by (auto simp: and_cidr_mask_self_iff)
  show ?thesis
  proof (cases "to4 (IP6 a)")
    case None
    with Net6 \<open>net_wf n\<close> show ?thesis by (simp add: net_canon_def del: to4.simps)
  next
    case (Some v)
    then have v: "v = ucast a" by (simp split: if_splits)
    have "32 - (l - 96) \<le> i" if "bit v i" for i
      using that w(2) [of i] by (auto simp: v bit_ucast_iff)
    with w(1) Net6 Some show ?thesis by (simp add: net_canon_def and_cidr_mask_self_iff del: to4.simps)
  qed
qed simp

theorem parse_cidr_show_net:
  assumes "net_wf n"
  shows "\<exists>a. parse_cidr (show_net n) = Some (a, net_canon n)"
proof -
  obtain a l where nn: "net_number n = (a, l)" by fastforce
  have cut: "cut (show_net n) CHR ''/'' = Some (show_ip a, show_nat l)"
    using nn no_slash_show_ip [of a] by (simp add: show_net_def cut_hit)
  have addr: "parse_addr (show_ip a) = Some a" using net_number_norm4 [OF nn] by simp
  have wf: "net_wf (net_canon n)" by (rule net_wf_canon [OF assms])
  show ?thesis
    using cut addr wf nn by (cases a) (auto simp: parse_cidr_def net_canon_def)
qed

lemma show_net_inject:
  "net_wf m \<Longrightarrow> net_wf n \<Longrightarrow> show_net m = show_net n \<longleftrightarrow> net_canon m = net_canon n"
  by (metis option.inject parse_cidr_show_net prod.inject show_net_canon)

lemma show_net_set: "c \<in> set (show_net n) \<Longrightarrow> is_hex c \<or> c \<in> {CHR '':'', CHR ''.'', CHR ''/''}"
  by (auto simp: show_net_def is_hex_def split: prod.splits dest!: show_ip_set show_nat_set)

lemma show_net_slash: "CHR ''/'' \<in> set (show_net n)"
  by (cases "net_number n") (simp add: show_net_def)

section \<open>host:port pairs\<close>

definition join_host_port :: "string \<Rightarrow> string \<Rightarrow> string" where
  "join_host_port h p =
     (if CHR '':'' \<in> set h then ''['' @ h @ '']:'' @ p else h @ '':'' @ p)"

datatype addr_error = MissingPort | TooManyColons | BadBracket

definition split_host_port :: "string \<Rightarrow> addr_error + string \<times> string" where
  "split_host_port s =
     (case last_index_byte s CHR '':'' of
        None \<Rightarrow> Inl MissingPort
      | Some i \<Rightarrow>
          let rest = (\<lambda>h j k.
                if CHR ''['' \<in> set (drop j s) \<or> CHR '']'' \<in> set (drop k s) then Inl BadBracket
                else Inr (h, drop (Suc i) s))
          in if has_prefix s ''['' then
               (case index_byte s CHR '']'' of
                  None \<Rightarrow> Inl BadBracket
                | Some e \<Rightarrow>
                    if Suc e = length s then Inl MissingPort
                    else if Suc e = i then rest (drop 1 (take e s)) 1 (Suc e)
                    else if s ! Suc e = CHR '':'' then Inl TooManyColons
                    else Inl MissingPort)
             else let h = take i s in
               if CHR '':'' \<in> set h then Inl TooManyColons else rest h 0 0)"

text \<open>\<open>SplitHostPort\<close> undoes \<open>JoinHostPort\<close> for hosts and ports without brackets.\<close>

theorem split_join_host_port:
  assumes "CHR ''['' \<notin> set h" "CHR '']'' \<notin> set h"
    and "CHR ''['' \<notin> set p" "CHR '']'' \<notin> set p" "CHR '':'' \<notin> set p"
  shows "split_host_port (join_host_port h p) = Inr (h, p)"
proof (cases "CHR '':'' \<in> set h")
  case True
  let ?s = "CHR ''['' # h @ CHR '']'' # CHR '':'' # p"
  have s: "join_host_port h p = ?s" using True by (simp add: join_host_port_def)
  have i: "last_index_byte ?s CHR '':'' = Some (Suc (Suc (length h)))"
    using last_index_byte_hit [OF assms(5), of "CHR ''['' # h @ '']''"] by simp
  have e: "index_byte ?s CHR '']'' = Some (Suc (length h))"
    using index_byte_hit [of "CHR '']''" "CHR ''['' # h" "CHR '':'' # p"] assms(2) by simp
  show ?thesis
    unfolding s split_host_port_def i e using assms by (simp add: has_prefix_def)
next
  case False
  have s: "join_host_port h p = h @ CHR '':'' # p" using False by (simp add: join_host_port_def)
  have i: "last_index_byte (h @ CHR '':'' # p) CHR '':'' = Some (length h)"
    using last_index_byte_hit [OF assms(5), of h] by simp
  have np: "\<not> has_prefix (h @ CHR '':'' # p) ''[''"
    using assms(1) by (cases h) (auto simp: has_prefix_def)
  show ?thesis
    unfolding s split_host_port_def i using np assms False by simp
qed

end
