(* ===== verification/Gate_Config.thy ===== *)
theory Gate_Config
  imports Config_Key Go_Time Go_Net_Text
begin

text \<open>
  \<open>internal/config/config.go\<close>: the configuration, its defaults, loading from the environment
  and the list files, and Validate. The string types of the code (\<open>RoutingMode\<close>,
  \<open>DirectPolicy\<close>, \<open>DNSMode\<close>) stay strings, durations are nanoseconds.
\<close>

section \<open>Data\<close>

definition ModeExclude :: string where "ModeExclude = ''exclude''"
definition ModeInclude :: string where "ModeInclude = ''include''"
definition DirectAllow :: string where "DirectAllow = ''direct''"
definition DirectDrop :: string where "DirectDrop = ''drop''"
definition DefaultUIToken :: string where "DefaultUIToken = ''Passw0rd''"

record config =
  cf_key :: string
  cf_mode :: string
  cf_bypass :: "ipnet list"
  cf_tunnel :: "ipnet list"
  cf_policy :: string
  cf_lan :: string
  cf_gateway :: bool
  cf_gateway_output :: bool
  cf_socks_listen :: string
  cf_health_listen :: string
  cf_log_level :: string
  cf_log_format :: string
  cf_reconnect_base :: int
  cf_reconnect_max :: int
  cf_dns_mode :: string
  cf_dns_servers :: "string list"
  cf_dns_listen :: "string list"
  cf_doh_url :: string
  cf_doh_addr :: string
  cf_trans_listen :: string
  cf_trans_port :: int
  cf_ui :: bool
  cf_ui_token :: string
  cf_bypass_file :: string
  cf_block_file :: string
  cf_bypass_refresh :: int
  cf_key_file :: string
  cf_socks_allow :: "ipnet list"
  cf_metrics :: bool
  cf_ssconf_refresh :: int
  cf_probe_addr :: string
  cf_probe_interval :: int
  cf_probe_timeout :: int
  cf_probe_fails :: int
  cf_backend :: string
  cf_backend_file :: string
  cf_awg_file :: string
  cf_vpn_uri :: string
  cf_vpn_uri_file :: string
  cf_awg_iface :: string
  cf_awg_bin :: string

definition seconds :: "int \<Rightarrow> int" where
  "seconds n = n * 1000000000"

definition default_config :: config where
  "default_config =
     \<lparr>cf_key = [], cf_mode = ModeExclude, cf_bypass = [], cf_tunnel = [], cf_policy = DirectAllow,
      cf_lan = [], cf_gateway = False, cf_gateway_output = False,
      cf_socks_listen = ''0.0.0.0:1080'', cf_health_listen = ''0.0.0.0:8080'',
      cf_log_level = ''info'', cf_log_format = ''text'',
      cf_reconnect_base = seconds 1, cf_reconnect_max = seconds 60,
      cf_dns_mode = ''system'', cf_dns_servers = [], cf_dns_listen = [], cf_doh_url = [], cf_doh_addr = [],
      cf_trans_listen = ''127.0.0.1:12345'', cf_trans_port = 12345,
      cf_ui = False, cf_ui_token = [],
      cf_bypass_file = ''/config/bypass.rules.txt'', cf_block_file = ''/config/block.rules.txt'',
      cf_bypass_refresh = seconds 60, cf_key_file = ''/config/outline_key.runtime.txt'',
      cf_socks_allow = [], cf_metrics = False, cf_ssconf_refresh = seconds 120,
      cf_probe_addr = ''1.1.1.1:443'', cf_probe_interval = seconds 30, cf_probe_timeout = seconds 8,
      cf_probe_fails = 2, cf_backend = ''outline'', cf_backend_file = ''/config/tunnel_backend.txt'',
      cf_awg_file = ''/config/amnezia.awg.conf'', cf_vpn_uri = [],
      cf_vpn_uri_file = ''/config/amnezia.vpnuri.txt'', cf_awg_iface = ''og-awg0'', cf_awg_bin = []\<rparr>"

section \<open>Lists\<close>

definition split_csv :: "string \<Rightarrow> string list" where
  "split_csv v = filter (\<lambda>p. p \<noteq> []) (map trim_space (split_on CHR '','' v))"

definition list_file_lines :: "string \<Rightarrow> string list" where
  "list_file_lines content =
     filter (\<lambda>l. l \<noteq> [] \<and> \<not> has_prefix l ''#'') (map trim_space (split_on CHR 0x0A content))"

definition read_list_file :: "fs \<Rightarrow> string \<Rightarrow> string list option" where
  "read_list_file fs path = map_option (\<lambda>f. list_file_lines (file_data f)) (fs path)"

datatype cidr_error = CidrEmpty | CidrInvalid | IPInvalid

definition parse_cidr_or_ip :: "string \<Rightarrow> cidr_error + ipnet" where
  "parse_cidr_or_ip s0 =
     (let s = trim_space s0 in
      if s = [] then Inl CidrEmpty
      else if contains s ''/'' then
        (case parse_cidr s of None \<Rightarrow> Inl CidrInvalid | Some (_, n) \<Rightarrow> Inr n)
      else case parse_ip s of
        None \<Rightarrow> Inl IPInvalid
      | Some a \<Rightarrow> (case to4 a of Some v4 \<Rightarrow> Inr (Net4 v4 32) | None \<Rightarrow> Inr (host_net a)))"

definition parse_cidrs :: "string list \<Rightarrow> cidr_error + ipnet list" where
  "parse_cidrs xs = map_result parse_cidr_or_ip xs"

definition default_bypass :: "string list" where
  "default_bypass = [''0.0.0.0/8'', ''10.0.0.0/8'', ''127.0.0.0/8'', ''169.254.0.0/16'', ''172.16.0.0/12'',
     ''192.168.0.0/16'', ''224.0.0.0/4'', ''240.0.0.0/4'', ''100.64.0.0/10'']"

text \<open>The code panics when its own list does not parse; that never happens (below).\<close>

definition default_bypass_cidrs :: "ipnet list" where
  "default_bypass_cidrs = (case parse_cidrs default_bypass of Inl e \<Rightarrow> [] | Inr ns \<Rightarrow> ns)"

definition merge_nets :: "ipnet list \<Rightarrow> ipnet list \<Rightarrow> ipnet list" where
  "merge_nets a b = dedup_by show_net {} (a @ b)"

datatype list_error = ListFile | ListItem cidr_error

definition parse_list :: "string list \<Rightarrow> list_error + ipnet list" where
  "parse_list xs = (case parse_cidrs xs of Inl e \<Rightarrow> Inl (ListItem e) | Inr ns \<Rightarrow> Inr ns)"

definition load_cidrs :: "getenv \<Rightarrow> fs \<Rightarrow> string \<Rightarrow> string \<Rightarrow> list_error + ipnet list" where
  "load_cidrs getenv fs envk filek =
     (let v = trim_space (getenv envk); path = trim_space (getenv filek);
          first = (if v = [] then [] else split_csv v)
      in if path = [] then parse_list first
         else case read_list_file fs path of
           None \<Rightarrow> Inl ListFile
         | Some ls \<Rightarrow> parse_list (first @ ls))"

definition parse_probe_addr :: "unicode \<Rightarrow> string \<Rightarrow> string" where
  "parse_probe_addr U v0 =
     (let v = trim_space v0 in
      if to_lower U v \<in> {'''', ''off'', ''none'', ''-'', ''false'', ''disable'', ''disabled''} then [] else v)"

section \<open>Validate\<close>

datatype config_check =
    NeedKey | BadMode | BadPolicy | BadDNSMode | BadDNSListen | BadDoHAddr | BadLogLevel | NeedTunnel
  | BadBase | BadMax | BadSocks | BadHealth | NeedToken | BadTunnelBackend | BadBypassRefresh
  | BadSSConf | BadProbeAddr | BadProbeInterval | BadProbeTimeout | BadProbeFails

definition dns_enabled :: "config \<Rightarrow> bool" where
  "dns_enabled c \<longleftrightarrow> cf_dns_mode c = ''doh'' \<or> cf_dns_mode c = ''tunnel''"

definition addr_ok :: "string \<Rightarrow> bool" where
  "addr_ok a \<longleftrightarrow> is_ok (split_host_port a)"

definition dns_defaults :: "config \<Rightarrow> config" where
  "dns_defaults c =
     (let c1 = (if trim_space (cf_doh_url c) = []
                then c\<lparr>cf_doh_url := ''https://cloudflare-dns.com/dns-query''\<rparr> else c)
      in if cf_dns_listen c1 = [] then c1\<lparr>cf_dns_listen := [''127.0.0.1:53'']\<rparr> else c1)"

definition dns_part :: "config \<Rightarrow> config" where
  "dns_part c = (if dns_enabled c then dns_defaults c else c)"

definition norm_backend :: "unicode \<Rightarrow> string \<Rightarrow> string option" where
  "norm_backend U b0 =
     (let b = to_lower U (trim_space b0) in
      if b \<in> {'''', ''outline'', ''ss''} then Some ''outline''
      else if b \<in> {''amnezia'', ''awg'', ''amneziawg''} then Some ''amnezia''
      else None)"

text \<open>The checks before the DNS defaults, between them and the backend, and after it.\<close>

definition validate_first :: "config \<Rightarrow> config_check option" where
  "validate_first c =
     (if cf_key c = [] then Some NeedKey
      else if cf_mode c \<noteq> ModeExclude \<and> cf_mode c \<noteq> ModeInclude then Some BadMode
      else if cf_policy c \<noteq> DirectAllow \<and> cf_policy c \<noteq> DirectDrop then Some BadPolicy
      else if cf_dns_mode c \<notin> {''system'', ''tunnel'', ''static'', ''doh''} then Some BadDNSMode
      else None)"

definition validate_mid :: "config \<Rightarrow> config_check option" where
  "validate_mid c =
     (if dns_enabled c \<and> \<not> list_all addr_ok (cf_dns_listen c) then Some BadDNSListen
      else if dns_enabled c \<and> cf_doh_addr c \<noteq> [] \<and> \<not> addr_ok (cf_doh_addr c) then Some BadDoHAddr
      else if cf_log_level c \<notin> {''debug'', ''info'', ''warn'', ''error''} then Some BadLogLevel
      else if cf_mode c = ModeInclude \<and> cf_tunnel c = [] then Some NeedTunnel
      else if cf_reconnect_base c \<le> 0 then Some BadBase
      else if cf_reconnect_max c < cf_reconnect_base c then Some BadMax
      else if \<not> addr_ok (cf_socks_listen c) then Some BadSocks
      else if \<not> addr_ok (cf_health_listen c) then Some BadHealth
      else if cf_ui c \<and> trim_space (cf_ui_token c) = [] then Some NeedToken
      else None)"

definition validate_tail :: "config \<Rightarrow> config_check option" where
  "validate_tail c =
     (if cf_bypass_refresh c \<le> 0 then Some BadBypassRefresh
      else if cf_ssconf_refresh c < 0 then Some BadSSConf
      else if cf_probe_addr c \<noteq> [] \<and> \<not> addr_ok (cf_probe_addr c) then Some BadProbeAddr
      else if cf_probe_addr c \<noteq> [] \<and> cf_probe_interval c \<le> 0 then Some BadProbeInterval
      else if cf_probe_addr c \<noteq> [] \<and> cf_probe_timeout c \<le> 0 then Some BadProbeTimeout
      else if cf_probe_fails c < 1 then Some BadProbeFails
      else None)"

definition set_iface :: "config \<Rightarrow> config" where
  "set_iface c = (if trim_space (cf_awg_iface c) = [] then c\<lparr>cf_awg_iface := ''og-awg0''\<rparr> else c)"

text \<open>Validate changes the configuration it checks, also on the error paths.\<close>

definition validate :: "unicode \<Rightarrow> config \<Rightarrow> config_check option \<times> config" where
  "validate U c0 =
     (case validate_first c0 of
        Some e \<Rightarrow> (Some e, c0)
      | None \<Rightarrow>
          (let c = dns_part c0 in
           case validate_mid c of
             Some e \<Rightarrow> (Some e, c)
           | None \<Rightarrow>
               (case norm_backend U (cf_backend c) of
                  None \<Rightarrow> (Some BadTunnelBackend, c)
                | Some b \<Rightarrow>
                    (let c2 = set_iface (c\<lparr>cf_backend := b\<rparr>) in (validate_tail c2, c2)))))"

section \<open>LoadFromEnv\<close>

datatype config_error =
    KeyErr load_key_error | EnvErr string | ListErr string list_error | TransAddr | TransPort
  | Invalid config_check

type_synonym setting = "config \<Rightarrow> config_error + config"

definition env_text :: "getenv \<Rightarrow> string \<Rightarrow> (string \<Rightarrow> config \<Rightarrow> config) \<Rightarrow> setting" where
  "env_text getenv name f c =
     (let v = trim_space (getenv name) in if v = [] then Inr c else Inr (f v c))"

definition env_parse ::
  "(string \<Rightarrow> 'a option) \<Rightarrow> getenv \<Rightarrow> string \<Rightarrow> ('a \<Rightarrow> config \<Rightarrow> config) \<Rightarrow> setting" where
  "env_parse p getenv name f c =
     (let v = trim_space (getenv name) in
      if v = [] then Inr c
      else case p v of None \<Rightarrow> Inl (EnvErr name) | Some x \<Rightarrow> Inr (f x c))"

fun apply_settings :: "setting list \<Rightarrow> setting" where
  "apply_settings [] c = Inr c"
| "apply_settings (s # ss) c = (case s c of Inl e \<Rightarrow> Inl e | Inr c' \<Rightarrow> apply_settings ss c')"

text \<open>The environment variables, in the order in which the code reads them.\<close>

definition env_settings :: "unicode \<Rightarrow> float_step \<Rightarrow> getenv \<Rightarrow> setting list" where
  "env_settings U fl g =
     [env_text g ''ROUTING_MODE'' (\<lambda>v c. c\<lparr>cf_mode := to_lower U v\<rparr>),
      env_text g ''DIRECT_POLICY'' (\<lambda>v c. c\<lparr>cf_policy := to_lower U v\<rparr>),
      env_text g ''LAN_INTERFACE'' (\<lambda>v c. c\<lparr>cf_lan := v\<rparr>),
      env_parse parse_bool g ''GATEWAY_ENABLE'' (\<lambda>b c. c\<lparr>cf_gateway := b\<rparr>),
      env_parse parse_bool g ''GATEWAY_OUTPUT_ENABLE'' (\<lambda>b c. c\<lparr>cf_gateway_output := b\<rparr>),
      env_text g ''SOCKS_LISTEN'' (\<lambda>v c. c\<lparr>cf_socks_listen := v\<rparr>),
      env_text g ''HEALTH_LISTEN'' (\<lambda>v c. c\<lparr>cf_health_listen := v\<rparr>),
      env_text g ''TRANSPROXY_LISTEN'' (\<lambda>v c. c\<lparr>cf_trans_listen := v\<rparr>),
      env_text g ''LOG_LEVEL'' (\<lambda>v c. c\<lparr>cf_log_level := to_lower U v\<rparr>),
      env_text g ''LOG_FORMAT'' (\<lambda>v c. c\<lparr>cf_log_format := to_lower U v\<rparr>),
      env_text g ''DNS_MODE'' (\<lambda>v c. c\<lparr>cf_dns_mode := to_lower U v\<rparr>),
      env_text g ''DNS_SERVERS'' (\<lambda>v c. c\<lparr>cf_dns_servers := split_csv v\<rparr>),
      env_text g ''DNS_LISTEN'' (\<lambda>v c. c\<lparr>cf_dns_listen := split_csv v\<rparr>),
      env_text g ''DNS_DOH_URL'' (\<lambda>v c. c\<lparr>cf_doh_url := v\<rparr>),
      env_text g ''DNS_DOH_ADDR'' (\<lambda>v c. c\<lparr>cf_doh_addr := v\<rparr>),
      env_parse (parse_duration fl) g ''RECONNECT_BASE_DELAY'' (\<lambda>d c. c\<lparr>cf_reconnect_base := d\<rparr>),
      env_parse (parse_duration fl) g ''RECONNECT_MAX_DELAY'' (\<lambda>d c. c\<lparr>cf_reconnect_max := d\<rparr>),
      env_parse parse_bool g ''UI_ENABLE'' (\<lambda>b c. c\<lparr>cf_ui := b\<rparr>),
      env_text g ''UI_TOKEN'' (\<lambda>v c. c\<lparr>cf_ui_token := v\<rparr>),
      env_text g ''BYPASS_RULES_FILE'' (\<lambda>v c. c\<lparr>cf_bypass_file := v\<rparr>),
      env_text g ''BLOCK_RULES_FILE'' (\<lambda>v c. c\<lparr>cf_block_file := v\<rparr>),
      env_parse (parse_duration fl) g ''BYPASS_DNS_REFRESH'' (\<lambda>d c. c\<lparr>cf_bypass_refresh := d\<rparr>),
      env_text g ''OUTLINE_KEY_PERSIST_FILE'' (\<lambda>v c. c\<lparr>cf_key_file := v\<rparr>),
      env_parse parse_bool g ''METRICS_ENABLE'' (\<lambda>b c. c\<lparr>cf_metrics := b\<rparr>),
      env_parse (parse_duration fl) g ''SSCONF_REFRESH_INTERVAL'' (\<lambda>d c. c\<lparr>cf_ssconf_refresh := d\<rparr>),
      env_text g ''TUNNEL_PROBE_ADDR'' (\<lambda>v c. c\<lparr>cf_probe_addr := parse_probe_addr U v\<rparr>),
      env_parse (parse_duration fl) g ''TUNNEL_PROBE_INTERVAL'' (\<lambda>d c. c\<lparr>cf_probe_interval := d\<rparr>),
      env_parse (parse_duration fl) g ''TUNNEL_PROBE_TIMEOUT'' (\<lambda>d c. c\<lparr>cf_probe_timeout := d\<rparr>),
      env_parse atoi g ''TUNNEL_PROBE_FAILS'' (\<lambda>n c. c\<lparr>cf_probe_fails := n\<rparr>),
      env_text g ''TUNNEL_BACKEND_PERSIST_FILE'' (\<lambda>v c. c\<lparr>cf_backend_file := v\<rparr>),
      env_text g ''AMNEZIA_CONFIG_FILE'' (\<lambda>v c. c\<lparr>cf_awg_file := v\<rparr>),
      env_text g ''AMNEZIA_VPN_URI'' (\<lambda>v c. c\<lparr>cf_vpn_uri := v\<rparr>),
      env_text g ''AMNEZIA_VPN_URI_FILE'' (\<lambda>v c. c\<lparr>cf_vpn_uri_file := v\<rparr>),
      env_text g ''AMNEZIA_IFACE'' (\<lambda>v c. c\<lparr>cf_awg_iface := v\<rparr>),
      env_text g ''AMNEZIA_WG_BIN'' (\<lambda>v c. c\<lparr>cf_awg_bin := v\<rparr>)]"

definition set_vpn_uri :: "fs \<Rightarrow> setting" where
  "set_vpn_uri fs c =
     (if cf_vpn_uri c = [] \<and> cf_vpn_uri_file c \<noteq> [] then
        (case fs (cf_vpn_uri_file c) of
           None \<Rightarrow> Inr c
         | Some f \<Rightarrow> Inr (c\<lparr>cf_vpn_uri := first_non_comment_line (file_data f)\<rparr>))
      else Inr c)"

definition set_backend :: "unicode \<Rightarrow> getenv \<Rightarrow> fs \<Rightarrow> setting" where
  "set_backend U g fs c =
     (let env = to_lower U (trim_space (g ''TUNNEL_BACKEND''));
          p = trim_space (cf_backend_file c);
          stored = (if p = [] then [] else to_lower U (read_persisted_key fs p));
          backend = (if stored = [] then env else stored)
      in if backend = [] then Inr c else Inr (c\<lparr>cf_backend := backend\<rparr>))"

definition set_nets :: "getenv \<Rightarrow> fs \<Rightarrow> string \<Rightarrow> string \<Rightarrow> (ipnet list \<Rightarrow> config \<Rightarrow> config) \<Rightarrow> setting" where
  "set_nets g fs env_name file_name f c =
     (case load_cidrs g fs env_name file_name of
        Inl e \<Rightarrow> Inl (ListErr env_name e)
      | Inr ns \<Rightarrow> Inr (f ns c))"

definition set_trans_port :: setting where
  "set_trans_port c =
     (case split_host_port (cf_trans_listen c) of
        Inl e \<Rightarrow> Inl TransAddr
      | Inr (host, port) \<Rightarrow>
          (case atoi port of None \<Rightarrow> Inl TransPort | Some p \<Rightarrow> Inr (c\<lparr>cf_trans_port := p\<rparr>)))"

definition set_token :: setting where
  "set_token c =
     (if cf_ui c \<and> trim_space (cf_ui_token c) = [] then Inr (c\<lparr>cf_ui_token := DefaultUIToken\<rparr>) else Inr c)"

definition check_config :: "unicode \<Rightarrow> setting" where
  "check_config U c = (case validate U c of (Some e, _) \<Rightarrow> Inl (Invalid e) | (None, c') \<Rightarrow> Inr c')"

text \<open>What follows the variables: files, lists, the derived port, the token, Validate.\<close>

definition late_settings :: "unicode \<Rightarrow> getenv \<Rightarrow> fs \<Rightarrow> setting list" where
  "late_settings U g fs =
     [set_vpn_uri fs, set_backend U g fs,
      set_nets g fs ''BYPASS_CIDRS'' ''BYPASS_CIDRS_FILE''
        (\<lambda>ns c. c\<lparr>cf_bypass := merge_nets default_bypass_cidrs ns\<rparr>),
      set_nets g fs ''TUNNEL_CIDRS'' ''TUNNEL_CIDRS_FILE'' (\<lambda>ns c. c\<lparr>cf_tunnel := ns\<rparr>),
      set_nets g fs ''SOCKS_ALLOW_CIDRS'' ''SOCKS_ALLOW_CIDRS_FILE'' (\<lambda>ns c. c\<lparr>cf_socks_allow := ns\<rparr>),
      set_trans_port, set_token, check_config U]"

definition load_settings :: "unicode \<Rightarrow> float_step \<Rightarrow> getenv \<Rightarrow> fs \<Rightarrow> setting list" where
  "load_settings U fl g fs = env_settings U fl g @ late_settings U g fs"

definition load_from_env ::
  "unicode \<Rightarrow> float_step \<Rightarrow> faults \<Rightarrow> getenv \<Rightarrow> fs \<Rightarrow> (config_error + config) \<times> fs" where
  "load_from_env U fl F g fs =
     (case load_access_key U F g fs of
        (Inl e, fs') \<Rightarrow> (Inl (KeyErr e), fs')
      | (Inr key, fs') \<Rightarrow>
          (apply_settings (load_settings U fl g fs') (default_config\<lparr>cf_key := key\<rparr>), fs'))"

section \<open>Default networks\<close>

lemma default_bypass_nets:
  "parse_cidrs default_bypass = Inr
     [Net4 0 8, Net4 0x0A000000 8, Net4 0x7F000000 8, Net4 0xA9FE0000 16, Net4 0xAC100000 12,
      Net4 0xC0A80000 16, Net4 0xE0000000 4, Net4 0xF0000000 4, Net4 0x64400000 10]"
  by code_simp

lemma parse_cidr_or_ip_wf: "parse_cidr_or_ip s = Inr n \<Longrightarrow> net_wf n"
  by (auto simp: parse_cidr_or_ip_def Let_def split: if_splits option.splits dest: parse_cidr_wf)

lemma parse_cidrs_wf: "parse_cidrs xs = Inr ns \<Longrightarrow> n \<in> set ns \<Longrightarrow> net_wf n"
  unfolding parse_cidrs_def using map_result_set [of parse_cidr_or_ip xs ns n] parse_cidr_or_ip_wf by auto

lemma load_cidrs_wf:
  assumes "load_cidrs g fs a b = Inr ns" "n \<in> set ns"
  shows "net_wf n"
proof -
  have "\<exists>xs. parse_list xs = Inr ns"
    using assms(1) unfolding load_cidrs_def Let_def by (cases "trim_space (g b) = []") (auto split: option.splits)
  then have "\<exists>xs. parse_cidrs xs = Inr ns" by (force simp: parse_list_def split: sum.splits)
  with assms(2) show ?thesis using parse_cidrs_wf by blast
qed

lemma default_bypass_wf: "n \<in> set default_bypass_cidrs \<Longrightarrow> net_wf n"
  using parse_cidrs_wf [OF default_bypass_nets] by (simp add: default_bypass_cidrs_def default_bypass_nets)

lemma net_same_text:
  "net_wf m \<Longrightarrow> net_wf n \<Longrightarrow> show_net m = show_net n \<Longrightarrow> net_contains m x = net_contains n x"
  by (metis show_net_inject net_contains_canon)

lemma merge_nets_covers:
  assumes "\<And>n. n \<in> set (a @ b) \<Longrightarrow> net_wf n" "n \<in> set (a @ b)" "net_contains n x"
  shows "\<exists>m \<in> set (merge_nets a b). net_contains m x"
proof -
  obtain k where k: "k \<in> set (merge_nets a b)" "show_net k = show_net n"
    using dedup_by_ex_key [OF assms(2), of show_net "{}"] by (auto simp: merge_nets_def)
  have "k \<in> set (a @ b)" using k(1) dedup_by_subset [of show_net "{}" "a @ b"] by (auto simp: merge_nets_def)
  then have "net_contains k x" using net_same_text [of k n x] assms k(2) by simp
  with k(1) show ?thesis by blast
qed

lemma merge_nets_wf:
  "(\<And>n. n \<in> set (a @ b) \<Longrightarrow> net_wf n) \<Longrightarrow> n \<in> set (merge_nets a b) \<Longrightarrow> net_wf n"
  using dedup_by_subset [of show_net "{}" "a @ b"] by (auto simp: merge_nets_def)

section \<open>What Validate guarantees\<close>

definition config_ok :: "config \<Rightarrow> bool" where
  "config_ok c \<longleftrightarrow>
     cf_key c \<noteq> [] \<and> cf_mode c \<in> {ModeExclude, ModeInclude} \<and> cf_policy c \<in> {DirectAllow, DirectDrop} \<and>
     (cf_mode c = ModeInclude \<longrightarrow> cf_tunnel c \<noteq> []) \<and>
     0 < cf_reconnect_base c \<and> cf_reconnect_base c \<le> cf_reconnect_max c \<and>
     addr_ok (cf_socks_listen c) \<and> addr_ok (cf_health_listen c) \<and>
     (cf_ui c \<longrightarrow> trim_space (cf_ui_token c) \<noteq> []) \<and>
     cf_backend c \<in> {''outline'', ''amnezia''} \<and> trim_space (cf_awg_iface c) \<noteq> [] \<and>
     (dns_enabled c \<longrightarrow> trim_space (cf_doh_url c) \<noteq> [] \<and> cf_dns_listen c \<noteq> [] \<and>
        list_all addr_ok (cf_dns_listen c) \<and> (cf_doh_addr c \<noteq> [] \<longrightarrow> addr_ok (cf_doh_addr c))) \<and>
     0 < cf_bypass_refresh c \<and> 0 \<le> cf_ssconf_refresh c \<and> 1 \<le> cf_probe_fails c \<and>
     (cf_probe_addr c \<noteq> [] \<longrightarrow>
        addr_ok (cf_probe_addr c) \<and> 0 < cf_probe_interval c \<and> 0 < cf_probe_timeout c)"

text \<open>The fixed point of Validate: a configuration it accepts and does not change.\<close>

definition settled :: "unicode \<Rightarrow> config \<Rightarrow> bool" where
  "settled U c \<longleftrightarrow> config_ok c \<and> validate U c = (None, c)"

lemma dns_defaults_fields [simp]:
  "cf_key (dns_defaults c) = cf_key c" "cf_mode (dns_defaults c) = cf_mode c"
  "cf_policy (dns_defaults c) = cf_policy c" "cf_dns_mode (dns_defaults c) = cf_dns_mode c"
  "cf_tunnel (dns_defaults c) = cf_tunnel c" "cf_bypass (dns_defaults c) = cf_bypass c"
  "cf_socks_allow (dns_defaults c) = cf_socks_allow c"
  "cf_awg_iface (dns_defaults c) = cf_awg_iface c" "cf_backend (dns_defaults c) = cf_backend c"
  "cf_doh_addr (dns_defaults c) = cf_doh_addr c"
  "dns_enabled (dns_defaults c) = dns_enabled c"
  by (simp_all add: dns_defaults_def Let_def dns_enabled_def)

lemma doh_url_nonblank: "trim_space ''https://cloudflare-dns.com/dns-query'' \<noteq> []"
  by code_simp

lemma iface_nonblank: "trim_space ''og-awg0'' \<noteq> []"
  by code_simp

lemma dns_defaults_set:
  "trim_space (cf_doh_url (dns_defaults c)) \<noteq> []" "cf_dns_listen (dns_defaults c) \<noteq> []"
  using doh_url_nonblank by (auto simp: dns_defaults_def Let_def)

lemma dns_defaults_id:
  "trim_space (cf_doh_url c) \<noteq> [] \<Longrightarrow> cf_dns_listen c \<noteq> [] \<Longrightarrow> dns_defaults c = c"
  by (simp add: dns_defaults_def)

lemma norm_backend_range: "norm_backend U b = Some x \<Longrightarrow> x \<in> {''outline'', ''amnezia''}"
  by (auto simp: norm_backend_def Let_def split: if_splits)

lemma norm_backend_fixed: "x \<in> {''outline'', ''amnezia''} \<Longrightarrow> norm_backend U x = Some x"
proof -
  have "norm_backend U ''outline'' = Some ''outline''" "norm_backend U ''amnezia'' = Some ''amnezia''"
    by code_simp+
  then show "x \<in> {''outline'', ''amnezia''} \<Longrightarrow> norm_backend U x = Some x" by auto
qed

lemma validate_stages:
  "validate_first c = None \<longleftrightarrow>
     cf_key c \<noteq> [] \<and> cf_mode c \<in> {ModeExclude, ModeInclude} \<and> cf_policy c \<in> {DirectAllow, DirectDrop} \<and>
     cf_dns_mode c \<in> {''system'', ''tunnel'', ''static'', ''doh''}"
  "validate_mid c = None \<longleftrightarrow>
     (dns_enabled c \<longrightarrow> list_all addr_ok (cf_dns_listen c) \<and>
        (cf_doh_addr c \<noteq> [] \<longrightarrow> addr_ok (cf_doh_addr c))) \<and>
     cf_log_level c \<in> {''debug'', ''info'', ''warn'', ''error''} \<and>
     (cf_mode c = ModeInclude \<longrightarrow> cf_tunnel c \<noteq> []) \<and>
     0 < cf_reconnect_base c \<and> cf_reconnect_base c \<le> cf_reconnect_max c \<and>
     addr_ok (cf_socks_listen c) \<and> addr_ok (cf_health_listen c) \<and>
     (cf_ui c \<longrightarrow> trim_space (cf_ui_token c) \<noteq> [])"
  "validate_tail c = None \<longleftrightarrow>
     0 < cf_bypass_refresh c \<and> 0 \<le> cf_ssconf_refresh c \<and> 1 \<le> cf_probe_fails c \<and>
     (cf_probe_addr c \<noteq> [] \<longrightarrow>
        addr_ok (cf_probe_addr c) \<and> 0 < cf_probe_interval c \<and> 0 < cf_probe_timeout c)"
  subgoal by (simp add: validate_first_def)
  subgoal by (auto simp: validate_mid_def not_le not_less)
  subgoal by (auto simp: validate_tail_def)
  done

lemma validate_alt:
  "validate U c0 = (None, c) \<longleftrightarrow>
     validate_first c0 = None \<and> validate_mid (dns_part c0) = None \<and>
     (\<exists>b. norm_backend U (cf_backend (dns_part c0)) = Some b \<and>
        c = set_iface ((dns_part c0)\<lparr>cf_backend := b\<rparr>) \<and> validate_tail c = None)"
  by (auto simp: validate_def Let_def split: option.splits)

lemma set_iface_set: "trim_space (cf_awg_iface (set_iface c)) \<noteq> []"
proof (cases "trim_space (cf_awg_iface c) = []")
  case True
  then have "cf_awg_iface (set_iface c) = ''og-awg0''" by (simp add: set_iface_def)
  with iface_nonblank show ?thesis by simp
qed (simp add: set_iface_def)

lemma set_iface_fields [simp]:
  "cf_backend (set_iface c) = cf_backend c"
  "cf_key (set_iface c) = cf_key c" "cf_mode (set_iface c) = cf_mode c" "cf_policy (set_iface c) = cf_policy c"
  "cf_dns_mode (set_iface c) = cf_dns_mode c" "cf_bypass (set_iface c) = cf_bypass c"
  "cf_tunnel (set_iface c) = cf_tunnel c" "cf_socks_allow (set_iface c) = cf_socks_allow c"
  "dns_enabled (set_iface c) = dns_enabled c" "cf_doh_url (set_iface c) = cf_doh_url c"
  "cf_dns_listen (set_iface c) = cf_dns_listen c" "cf_doh_addr (set_iface c) = cf_doh_addr c"
  by (simp_all add: set_iface_def dns_enabled_def)

lemma set_iface_stages [simp]:
  "validate_first (set_iface c) = validate_first c" "validate_mid (set_iface c) = validate_mid c"
proof -
  have "validate_mid (c\<lparr>cf_awg_iface := x\<rparr>) = validate_mid c" for x
    by (simp add: validate_mid_def dns_enabled_def cong: if_cong split del: if_split)
  then show "validate_mid (set_iface c) = validate_mid c" by (simp add: set_iface_def)
qed (simp add: validate_first_def cong: if_cong split del: if_split)

lemma set_iface_id: "trim_space (cf_awg_iface c) \<noteq> [] \<Longrightarrow> set_iface c = c"
  by (simp add: set_iface_def)

lemma backend_update_stages [simp]:
  "validate_first (c\<lparr>cf_backend := b\<rparr>) = validate_first c" "validate_mid (c\<lparr>cf_backend := b\<rparr>) = validate_mid c"
  "dns_enabled (c\<lparr>cf_backend := b\<rparr>) = dns_enabled c"
  by (simp_all add: validate_first_def validate_mid_def dns_enabled_def)

lemma dns_part_fields [simp]:
  "cf_bypass (dns_part c) = cf_bypass c" "cf_tunnel (dns_part c) = cf_tunnel c"
  "cf_socks_allow (dns_part c) = cf_socks_allow c" "dns_enabled (dns_part c) = dns_enabled c"
  "validate_first (dns_part c) = validate_first c"
  by (simp_all add: dns_part_def validate_first_def)

lemma dns_part_set:
  "dns_enabled c \<Longrightarrow> trim_space (cf_doh_url (dns_part c)) \<noteq> []"
  "dns_enabled c \<Longrightarrow> cf_dns_listen (dns_part c) \<noteq> []"
  by (simp_all add: dns_part_def dns_defaults_set)

lemma validate_keeps_nets:
  "validate U c = (None, c') \<Longrightarrow>
     cf_bypass c' = cf_bypass c \<and> cf_tunnel c' = cf_tunnel c \<and> cf_socks_allow c' = cf_socks_allow c"
  by (auto simp: validate_alt)

lemma validate_ok:
  assumes "validate U c0 = (None, c)"
  shows "config_ok c \<and> validate U c = (None, c)"
proof -
  let ?d = "dns_part c0"
  obtain b where 1: "validate_first c0 = None" and 2: "validate_mid ?d = None"
    and b: "norm_backend U (cf_backend ?d) = Some b" and c: "c = set_iface (?d\<lparr>cf_backend := b\<rparr>)"
    and 3: "validate_tail c = None" using assms by (auto simp: validate_alt)
  have f: "validate_first c = None" "validate_mid c = None" "cf_backend c = b"
    "trim_space (cf_awg_iface c) \<noteq> []" using 1 2 set_iface_set by (simp_all add: c)
  have d: "dns_enabled c \<Longrightarrow> trim_space (cf_doh_url c) \<noteq> []" "dns_enabled c \<Longrightarrow> cf_dns_listen c \<noteq> []"
    using dns_part_set [of c0] by (simp_all add: c)
  have b': "norm_backend U b = Some b" "b \<in> {''outline'', ''amnezia''}"
    using norm_backend_range [OF b] norm_backend_fixed by blast+
  have ok: "config_ok c" using f 3 d b'(2) unfolding validate_stages config_ok_def by simp
  have p: "dns_part c = c" using d by (simp add: dns_part_def dns_defaults_id)
  have u: "c\<lparr>cf_backend := b\<rparr> = c" using f(3) by simp
  have "validate U c = (None, c)"
    unfolding validate_alt p f(3) using f(1,2) 3 b'(1) u set_iface_id [OF f(4)] by auto
  with ok show ?thesis ..
qed

section \<open>What a loaded configuration satisfies\<close>

lemma apply_settings_append:
  "apply_settings (xs @ ys) c = (case apply_settings xs c of Inl e \<Rightarrow> Inl e | Inr c' \<Rightarrow> apply_settings ys c')"
  by (induction xs c rule: apply_settings.induct) (auto split: sum.split)

definition nets_loaded :: "config \<Rightarrow> bool" where
  "nets_loaded c \<longleftrightarrow>
     list_all net_wf (cf_bypass c) \<and> list_all net_wf (cf_tunnel c) \<and> list_all net_wf (cf_socks_allow c) \<and>
     (\<forall>n \<in> set default_bypass_cidrs. \<forall>x. net_contains n x \<longrightarrow> (\<exists>m \<in> set (cf_bypass c). net_contains m x))"

lemma set_nets_Inr:
  "set_nets g fs a b f c = Inr c' \<longleftrightarrow> (\<exists>ns. load_cidrs g fs a b = Inr ns \<and> c' = f ns c)"
  by (auto simp: set_nets_def split: sum.splits)

lemma keeps_nets:
  "set_trans_port c = Inr c' \<Longrightarrow> nets_loaded c' = nets_loaded c"
  "set_token c = Inr c' \<Longrightarrow> nets_loaded c' = nets_loaded c"
  by (auto simp: set_trans_port_def set_token_def nets_loaded_def split: sum.splits option.splits if_splits)

lemma apply_Cons_Inr:
  "apply_settings (s # ss) c = Inr d \<longleftrightarrow> (\<exists>c'. s c = Inr c' \<and> apply_settings ss c' = Inr d)"
  by (auto split: sum.splits)

lemma loaded_config:
  assumes "load_from_env U fl F g fs = (Inr c, fs')"
  shows "config_ok c \<and> nets_loaded c \<and> validate U c = (None, c)"
proof -
  obtain key gs where k: "load_access_key U F g fs = (Inr key, gs)"
    and a: "apply_settings (load_settings U fl g gs) (default_config\<lparr>cf_key := key\<rparr>) = Inr c"
    using assms by (auto simp: load_from_env_def split: prod.splits sum.splits)
  obtain c0 where "apply_settings (late_settings U g gs) c0 = Inr c"
    using a by (auto simp: load_settings_def apply_settings_append split: sum.splits
        simp del: apply_settings.simps)
  then obtain c2 bs ts ss c6 c7 where
    bs: "load_cidrs g gs ''BYPASS_CIDRS'' ''BYPASS_CIDRS_FILE'' = Inr bs"
    and ts: "load_cidrs g gs ''TUNNEL_CIDRS'' ''TUNNEL_CIDRS_FILE'' = Inr ts"
    and ss: "load_cidrs g gs ''SOCKS_ALLOW_CIDRS'' ''SOCKS_ALLOW_CIDRS_FILE'' = Inr ss"
    and 6: "set_trans_port (c2\<lparr>cf_bypass := merge_nets default_bypass_cidrs bs, cf_tunnel := ts,
        cf_socks_allow := ss\<rparr>) = Inr c6"
    and 7: "set_token c6 = Inr c7" and 8: "check_config U c7 = Inr c"
    unfolding late_settings_def apply_Cons_Inr set_nets_Inr by auto
  have v: "validate U c7 = (None, c)"
    using 8 by (auto simp: check_config_def split: prod.splits option.splits)
  have m: "net_wf n" if "n \<in> set (default_bypass_cidrs @ bs)" for n
    using that default_bypass_wf load_cidrs_wf [OF bs] by auto
  have "nets_loaded (c2\<lparr>cf_bypass := merge_nets default_bypass_cidrs bs, cf_tunnel := ts, cf_socks_allow := ss\<rparr>)"
    using merge_nets_wf [of default_bypass_cidrs bs, OF m]
      merge_nets_covers [of default_bypass_cidrs bs, OF m] load_cidrs_wf [OF ts] load_cidrs_wf [OF ss]
    by (auto simp: nets_loaded_def list_all_iff)
  then have "nets_loaded c7" using keeps_nets(1) [OF 6] keeps_nets(2) [OF 7] by simp
  then have "nets_loaded c" using validate_keeps_nets [OF v] by (simp add: nets_loaded_def)
  with validate_ok [OF v] show ?thesis by blast
qed

section \<open>Properties of the configuration\<close>

text \<open>
  C36: a configuration that LoadFromEnv returns, whatever the environment and the files,
  satisfies what the rest of the program assumes of it: known mode and policy, tunnel
  networks in include mode, 0 < base <= max for the reconnect delay, listen and probe
  addresses that split into host and port, a UI token when the UI is on, a canonical backend
  name, an interface name, positive refresh intervals; and Validate accepts it again without
  changing it.
\<close>

theorem loaded_config_is_valid:
  assumes "load_from_env U fl F g fs = (Inr c, fs')"
  shows "config_ok c \<and> validate U c = (None, c)"
  using loaded_config [OF assms] by blast

definition plain_env :: getenv where
  "plain_env = sample_env [(''OUTLINE_ACCESS_KEY'', ''ss://u@h:1''), (''ROUTING_MODE'', ''Include''),
     (''TUNNEL_CIDRS'', ''8.8.8.8, 1.1.1.0/24''), (''BYPASS_CIDRS'', ''10.9.0.0/16,203.0.113.7''),
     (''RECONNECT_MAX_DELAY'', ''1m30s''), (''UI_ENABLE'', ''true''), (''TUNNEL_BACKEND'', ''AWG''),
     (''DNS_MODE'', ''doh'')]"

definition no_float :: float_step where
  "no_float f k u = 0"

abbreviation plain_load :: "config_error + config" where
  "plain_load \<equiv> fst (load_from_env ascii_tables no_float no_faults plain_env Map.empty)"

text \<open>The evaluation goes in two steps: the plain variables, then lists, token and Validate.\<close>

definition plain_mid :: "string \<Rightarrow> config" where
  "plain_mid key = default_config\<lparr>cf_key := key, cf_mode := ''include'', cf_dns_mode := ''doh'',
     cf_reconnect_max := 90000000000, cf_ui := True\<rparr>"

lemma plain_values:
  "trim_space ''Include'' = ''Include''" "trim_space ''1m30s'' = ''1m30s''" "trim_space ''true'' = ''true''"
  "trim_space ''doh'' = ''doh''" "to_lower ascii_tables ''Include'' = ''include''"
  "to_lower ascii_tables ''doh'' = ''doh''" "parse_bool ''true'' = Some True"
  "parse_duration no_float ''1m30s'' = Some 90000000000"
  by code_simp+

lemma plain_env_values:
  "plain_env ''ROUTING_MODE'' = ''Include''"
  "plain_env ''DIRECT_POLICY'' = []"
  "plain_env ''LAN_INTERFACE'' = []"
  "plain_env ''GATEWAY_ENABLE'' = []"
  "plain_env ''GATEWAY_OUTPUT_ENABLE'' = []"
  "plain_env ''SOCKS_LISTEN'' = []"
  "plain_env ''HEALTH_LISTEN'' = []"
  "plain_env ''TRANSPROXY_LISTEN'' = []"
  "plain_env ''LOG_LEVEL'' = []"
  "plain_env ''LOG_FORMAT'' = []"
  "plain_env ''DNS_MODE'' = ''doh''"
  "plain_env ''DNS_SERVERS'' = []"
  "plain_env ''DNS_LISTEN'' = []"
  "plain_env ''DNS_DOH_URL'' = []"
  "plain_env ''DNS_DOH_ADDR'' = []"
  "plain_env ''RECONNECT_BASE_DELAY'' = []"
  "plain_env ''RECONNECT_MAX_DELAY'' = ''1m30s''"
  "plain_env ''UI_ENABLE'' = ''true''"
  "plain_env ''UI_TOKEN'' = []"
  "plain_env ''BYPASS_RULES_FILE'' = []"
  "plain_env ''BLOCK_RULES_FILE'' = []"
  "plain_env ''BYPASS_DNS_REFRESH'' = []"
  "plain_env ''OUTLINE_KEY_PERSIST_FILE'' = []"
  "plain_env ''METRICS_ENABLE'' = []"
  "plain_env ''SSCONF_REFRESH_INTERVAL'' = []"
  "plain_env ''TUNNEL_PROBE_ADDR'' = []"
  "plain_env ''TUNNEL_PROBE_INTERVAL'' = []"
  "plain_env ''TUNNEL_PROBE_TIMEOUT'' = []"
  "plain_env ''TUNNEL_PROBE_FAILS'' = []"
  "plain_env ''TUNNEL_BACKEND_PERSIST_FILE'' = []"
  "plain_env ''AMNEZIA_CONFIG_FILE'' = []"
  "plain_env ''AMNEZIA_VPN_URI'' = []"
  "plain_env ''AMNEZIA_VPN_URI_FILE'' = []"
  "plain_env ''AMNEZIA_IFACE'' = []"
  "plain_env ''AMNEZIA_WG_BIN'' = []"
  by code_simp+

lemma env_unset:
  "getenv name = [] \<Longrightarrow> env_text getenv name f c = Inr c"
  "getenv name = [] \<Longrightarrow> env_parse p getenv name h c = Inr c"
  by (simp_all add: env_text_def env_parse_def)

lemma env_set:
  "getenv name = v \<Longrightarrow> trim_space v = v \<Longrightarrow> v \<noteq> [] \<Longrightarrow> env_text getenv name f c = Inr (f v c)"
  "getenv name = v \<Longrightarrow> trim_space v = v \<Longrightarrow> v \<noteq> [] \<Longrightarrow> p v = Some x \<Longrightarrow>
     env_parse p getenv name h c = Inr (h x c)"
  by (simp_all add: env_text_def env_parse_def)

lemmas plain_env_steps =
  env_unset [of plain_env] plain_env_values sum.case
  env_set(1) [of plain_env, OF plain_env_values(1) plain_values(1)] env_set(1) [of plain_env, OF plain_env_values(11) plain_values(4)]
  env_set(2) [of plain_env, OF plain_env_values(17) plain_values(2)] env_set(2) [of plain_env, OF plain_env_values(18) plain_values(3)]

lemma plain_env_part:
  "apply_settings (env_settings ascii_tables no_float plain_env) (default_config\<lparr>cf_key := key\<rparr>) =
     Inr (plain_mid key)"
  unfolding env_settings_def plain_mid_def
  by (simp only: apply_settings.simps plain_env_steps plain_values list.distinct simp_thms)

lemma plain_key: "load_access_key ascii_tables no_faults plain_env Map.empty = (Inr ''ss://u@h:1'', Map.empty)"
  by (simp add: load_access_key_def env_key_def plain_env_def sample_env_def Let_def) code_simp

lemma plain_lists:
  "load_cidrs plain_env Map.empty ''BYPASS_CIDRS'' ''BYPASS_CIDRS_FILE'' =
     Inr [Net4 0x0A090000 16, Net4 0xCB007107 32]"
  "load_cidrs plain_env Map.empty ''TUNNEL_CIDRS'' ''TUNNEL_CIDRS_FILE'' =
     Inr [Net4 0x08080808 32, Net4 0x01010100 24]"
  "load_cidrs plain_env Map.empty ''SOCKS_ALLOW_CIDRS'' ''SOCKS_ALLOW_CIDRS_FILE'' = Inr []"
  by code_simp+

lemma plain_backend:
  "to_lower ascii_tables (trim_space (plain_env ''TUNNEL_BACKEND'')) = ''awg''"
  "to_lower ascii_tables (read_persisted_key Map.empty p) = []"
proof -
  show "to_lower ascii_tables (trim_space (plain_env ''TUNNEL_BACKEND'')) = ''awg''" by code_simp
qed (simp add: read_persisted_key_def to_lower_def Let_def)

lemma plain_port: "split_host_port ''127.0.0.1:12345'' = Inr (''127.0.0.1'', ''12345'')" "atoi ''12345'' = Some 12345"
  by code_simp+

definition plain_final :: "ipnet list \<Rightarrow> config" where
  "plain_final b = (plain_mid ''ss://u@h:1'')\<lparr>cf_backend := ''awg'', cf_bypass := b,
     cf_tunnel := [Net4 0x08080808 32, Net4 0x01010100 24], cf_socks_allow := [], cf_trans_port := 12345,
     cf_ui_token := DefaultUIToken\<rparr>"

lemma plain_final_valid: "fst (validate ascii_tables (plain_final b)) = None"
  by code_simp

lemma plain_mid_fields [simp]:
  "cf_vpn_uri (plain_mid k) = []" "cf_trans_listen (plain_mid k) = ''127.0.0.1:12345''"
  "cf_trans_port (plain_mid k) = 12345" "cf_ui (plain_mid k)" "cf_ui_token (plain_mid k) = []"
  "cf_socks_allow (plain_mid k) = []"
  by (simp_all add: plain_mid_def default_config_def)

lemma plain_late:
  "apply_settings (late_settings ascii_tables plain_env Map.empty) (plain_mid ''ss://u@h:1'') =
     check_config ascii_tables (plain_final (merge_nets default_bypass_cidrs
       [Net4 0x0A090000 16, Net4 0xCB007107 32]))"
proof -
  let ?c = "plain_mid ''ss://u@h:1''"
  have 1: "set_vpn_uri Map.empty ?c = Inr ?c" by (simp add: set_vpn_uri_def)
  have 2: "set_backend ascii_tables plain_env Map.empty ?c = Inr (?c\<lparr>cf_backend := ''awg''\<rparr>)"
    unfolding set_backend_def Let_def plain_backend by simp
  show ?thesis
    unfolding late_settings_def
    by (simp add: 1 2 set_nets_def plain_lists set_trans_port_def plain_port set_token_def plain_final_def
        split: sum.split)
qed

lemma plain_load_ok: "is_ok plain_load"
proof -
  have "is_ok (check_config ascii_tables (plain_final b))" for b
    using plain_final_valid [of b] by (cases "validate ascii_tables (plain_final b)")
      (simp add: check_config_def is_ok_conv)
  then show ?thesis
    by (simp add: load_from_env_def plain_key load_settings_def apply_settings_append plain_env_part plain_late
        del: apply_settings.simps)
qed

theorem loaded_config_is_valid_witness:
  "is_ok plain_load \<and> config_ok (projr plain_load)"
proof -
  obtain c where c: "plain_load = Inr c" using plain_load_ok by (auto simp: is_ok_conv)
  then have "load_from_env ascii_tables no_float no_faults plain_env Map.empty =
      (Inr c, snd (load_from_env ascii_tables no_float no_faults plain_env Map.empty))" by (metis prod.collapse)
  from loaded_config_is_valid [OF this] c show ?thesis by simp
qed

text \<open>
  Private and reserved addresses never enter the tunnel by configuration: after any
  successful load, every address of the default ranges (RFC 1918, loopback, link-local,
  multicast, CGNAT and the rest) lies in a network of the bypass list, and all networks of
  the configuration are well formed.
\<close>

theorem private_addresses_always_bypassed:
  assumes "load_from_env U fl F g fs = (Inr c, fs')"
    and "n \<in> set default_bypass_cidrs" "net_contains n x"
  shows "(\<exists>m \<in> set (cf_bypass c). net_contains m x) \<and>
    list_all net_wf (cf_bypass c) \<and> list_all net_wf (cf_tunnel c) \<and> list_all net_wf (cf_socks_allow c)"
  using loaded_config [OF assms(1)] assms(2,3) by (auto simp: nets_loaded_def)

theorem private_addresses_always_bypassed_witness:
  "\<exists>m \<in> set (cf_bypass (projr plain_load)). net_contains m (IP4 0x64480101)"
proof -
  obtain c where c: "plain_load = Inr c" using plain_load_ok by (auto simp: is_ok_conv)
  then have l: "load_from_env ascii_tables no_float no_faults plain_env Map.empty =
      (Inr c, snd (load_from_env ascii_tables no_float no_faults plain_env Map.empty))" by (metis prod.collapse)
  have "Net4 0x64400000 10 \<in> set default_bypass_cidrs"
    by (simp add: default_bypass_cidrs_def default_bypass_nets)
  moreover have "net_contains (Net4 0x64400000 10) (IP4 0x64480101)" by code_simp
  ultimately show ?thesis using private_addresses_always_bypassed [OF l] c by simp
qed

end
