(* ===== verification/Routing_Engine.thy ===== *)
theory Routing_Engine
  imports Gate_Config
begin

text \<open>
  \<open>internal/routing/routing.go\<close>: the split-tunnel decision. Unknown modes are possible in the
  string type of the code and fall into its default branch. A nil address is \<open>None\<close>.
\<close>

section \<open>Data and operations\<close>

datatype path = PathDirect | PathTunnel | PathDrop

fun path_string :: "path \<Rightarrow> string" where
  "path_string PathDirect = ''direct''"
| "path_string PathTunnel = ''tunnel''"
| "path_string PathDrop = ''drop''"

record engine =
  en_mode :: string
  en_policy :: string
  en_bypass :: "ipnet list"
  en_tunnel :: "ipnet list"
  en_servers :: "ip option list"

definition new_engine :: "config \<Rightarrow> ip option list \<Rightarrow> engine" where
  "new_engine c servers =
     \<lparr>en_mode = cf_mode c, en_policy = cf_policy c, en_bypass = cf_bypass c, en_tunnel = cf_tunnel c,
      en_servers = servers\<rparr>"

definition new_engine_with_bypass :: "config \<Rightarrow> ipnet list \<Rightarrow> ip option list \<Rightarrow> engine" where
  "new_engine_with_bypass c bypass servers =
     \<lparr>en_mode = cf_mode c, en_policy = cf_policy c, en_bypass = bypass, en_tunnel = cf_tunnel c,
      en_servers = servers\<rparr>"

definition with_bypass :: "engine option \<Rightarrow> ipnet list \<Rightarrow> engine option" where
  "with_bypass e bypass = map_option (\<lambda>x. x\<lparr>en_bypass := bypass\<rparr>) e"

definition with_server_ips :: "engine option \<Rightarrow> ip option list \<Rightarrow> engine option" where
  "with_server_ips e servers = map_option (\<lambda>x. x\<lparr>en_servers := servers\<rparr>) e"

fun is_server_loop :: "ip option list \<Rightarrow> ip \<Rightarrow> bool" where
  "is_server_loop [] dst = False"
| "is_server_loop (None # xs) dst = is_server_loop xs dst"
| "is_server_loop (Some a # xs) dst = (if ip_equal (norm4 a) dst then True else is_server_loop xs dst)"

definition is_server :: "engine \<Rightarrow> ip \<Rightarrow> bool" where
  "is_server e dst = is_server_loop (en_servers e) dst"

fun contains_ip :: "ipnet list \<Rightarrow> ip \<Rightarrow> bool" where
  "contains_ip [] a = False"
| "contains_ip (n # ns) a = (if net_contains n a then True else contains_ip ns a)"

definition decide :: "engine \<Rightarrow> ip option \<Rightarrow> path" where
  "decide e dst0 =
     (case dst0 of
        None \<Rightarrow> PathDrop
      | Some a \<Rightarrow>
          (let dst = norm4 a in
           if is_server e dst \<or> contains_ip (en_bypass e) dst then PathDirect
           else if en_mode e = ModeExclude then PathTunnel
           else if en_mode e = ModeInclude then
             (if contains_ip (en_tunnel e) dst then PathTunnel
              else if en_policy e = DirectDrop then PathDrop
              else PathDirect)
           else PathDrop))"

definition should_tunnel :: "engine \<Rightarrow> ip option \<Rightarrow> bool" where
  "should_tunnel e dst \<longleftrightarrow> decide e dst = PathTunnel"

text \<open>\<open>IsServerIP\<close> does not normalise: \<open>net.IP.Equal\<close> already identifies the two forms.\<close>

definition is_server_ip :: "engine option \<Rightarrow> ip \<Rightarrow> bool" where
  "is_server_ip e dst = (case e of None \<Rightarrow> False | Some x \<Rightarrow> is_server x dst)"

fun server_nets :: "ip option list \<Rightarrow> ipnet list" where
  "server_nets [] = []"
| "server_nets (None # xs) = server_nets xs"
| "server_nets (Some a # xs) =
     (case to4 a of Some v4 \<Rightarrow> Net4 v4 32 # server_nets xs | None \<Rightarrow> server_nets xs)"

definition bypass_nets :: "engine \<Rightarrow> ipnet list" where
  "bypass_nets e = en_bypass e @ server_nets (en_servers e)"

definition tunnel_nets :: "engine \<Rightarrow> ipnet list" where
  "tunnel_nets e = en_tunnel e"

section \<open>Lemmas\<close>

lemma contains_ip_iff: "contains_ip ns a \<longleftrightarrow> (\<exists>n \<in> set ns. net_contains n a)"
  by (induction ns) auto

lemma is_server_loop_iff: "is_server_loop xs dst \<longleftrightarrow> (\<exists>a. Some a \<in> set xs \<and> ip_equal a dst)"
  by (induction xs dst rule: is_server_loop.induct) (auto simp: ip_equal_norm4)

lemma is_server_iff: "is_server e dst \<longleftrightarrow> (\<exists>a. Some a \<in> set (en_servers e) \<and> ip_equal a dst)"
  unfolding is_server_def by (rule is_server_loop_iff)

lemma ip_equal_norm4_right [simp]: "ip_equal a (norm4 b) = ip_equal a b"
  by (simp add: ip_equal_norm4)

definition excluded :: "engine \<Rightarrow> ip \<Rightarrow> bool" where
  "excluded e a \<longleftrightarrow>
     (\<exists>s. Some s \<in> set (en_servers e) \<and> ip_equal s a) \<or> (\<exists>n \<in> set (en_bypass e). net_contains n a)"

lemma decide_cases:
  "decide e (Some a) =
     (if excluded e a then PathDirect
      else if en_mode e = ModeExclude then PathTunnel
      else if en_mode e = ModeInclude then
        (if \<exists>n \<in> set (en_tunnel e). net_contains n a then PathTunnel
         else if en_policy e = DirectDrop then PathDrop else PathDirect)
      else PathDrop)"
  by (simp add: decide_def Let_def is_server_iff contains_ip_iff excluded_def)

lemma server_nets_contains:
  "(\<exists>n \<in> set (server_nets xs). net_contains n dst) \<longleftrightarrow>
     (\<exists>a. Some a \<in> set xs \<and> to4 a \<noteq> None \<and> ip_equal a dst)"
proof (induction xs rule: server_nets.induct)
  case (3 a xs)
  show ?case
  proof (cases "to4 a")
    case (Some w)
    then have "Net4 w 32 = host_net (norm4 a)" by (simp add: norm4_def host_net_def)
    then have "net_contains (Net4 w 32) dst \<longleftrightarrow> ip_equal a dst" by (simp add: host_net_contains)
    with Some 3 show ?thesis by auto
  qed (use 3 in auto)
qed auto

lemma ip_equal_to4: "ip_equal a b \<Longrightarrow> (to4 a = None) = (to4 b = None)"
  unfolding ip_equal_norm4
  by (cases a; cases b) (auto simp: norm4_def split: option.splits if_splits)

lemma bypass_nets_excluded:
  assumes "to4 a \<noteq> None"
  shows "(\<exists>n \<in> set (bypass_nets e). net_contains n a) \<longleftrightarrow> excluded e a"
proof -
  have "to4 s \<noteq> None" if "ip_equal s a" for s using ip_equal_to4 [OF that] assms by simp
  then show ?thesis
    using server_nets_contains [of "en_servers e" a] by (auto simp: bypass_nets_def excluded_def)
qed

lemma excluded_iff: "excluded e a \<longleftrightarrow> is_server e a \<or> contains_ip (en_bypass e) a"
  by (simp add: excluded_def is_server_iff contains_ip_iff)

section \<open>Properties of the engine\<close>

text \<open>
  The packet filter and the engine exclude the same IPv4 destinations: an address is
  exempt from the tunnel (server or bypass) exactly when it lies in one of the networks that
  BypassNets gives to nftables, in either form of the address.
\<close>

theorem engine_matches_packet_filter:
  assumes "to4 a \<noteq> None"
  shows "((\<exists>n \<in> set (bypass_nets e). net_contains n a) \<longleftrightarrow> is_server e a \<or> contains_ip (en_bypass e) a) \<and>
    (is_server e a \<or> contains_ip (en_bypass e) a \<longrightarrow> decide e (Some a) = PathDirect)"
  using bypass_nets_excluded [OF assms, of e] by (simp add: excluded_iff [symmetric] decide_cases)

definition sample_engine :: engine where
  "sample_engine =
     \<lparr>en_mode = ModeInclude, en_policy = DirectDrop, en_bypass = [Net4 0x0A000000 8],
      en_tunnel = [Net4 0x08080000 16], en_servers = [None, Some (IP4 0x08080101)]\<rparr>"

theorem engine_matches_packet_filter_witness:
  "decide sample_engine (Some (IP4 0x08080101)) = PathDirect \<and>
   decide sample_engine (Some (IP4 0x08080102)) = PathTunnel"
proof -
  have 4: "to4 (IP4 0x08080101) \<noteq> None" by simp
  have "is_server sample_engine (IP4 0x08080101)" by code_simp
  then have "decide sample_engine (Some (IP4 0x08080101)) = PathDirect"
    using engine_matches_packet_filter [OF 4, of sample_engine] by blast
  moreover have "decide sample_engine (Some (IP4 0x08080102)) = PathTunnel" by code_simp
  ultimately show ?thesis ..
qed

text \<open>
  Private destinations stay direct end to end: with any configuration that loads, any
  server addresses and any further bypass networks, the engine sends every address of the
  default private and reserved ranges directly, and never drops or tunnels it.
\<close>

theorem private_destinations_stay_direct:
  assumes "load_from_env U fl F g fs = (Inr c, fs')"
    and "n \<in> set default_bypass_cidrs" "net_contains n a" "set (cf_bypass c) \<subseteq> set bypass"
  shows "decide (new_engine c servers) (Some a) = PathDirect \<and>
    decide (new_engine_with_bypass c bypass servers) (Some a) = PathDirect"
proof -
  obtain m where "m \<in> set (cf_bypass c)" "net_contains m a"
    using loaded_config [OF assms(1)] assms(2,3) by (auto simp: nets_loaded_def)
  then show ?thesis
    using assms(4) by (auto simp: decide_cases excluded_def new_engine_def new_engine_with_bypass_def)
qed

theorem private_destinations_stay_direct_witness:
  "decide (new_engine (projr plain_load) [Some (IP4 0x01020304)]) (Some (IP4 0xC0A80117)) = PathDirect"
proof -
  obtain c where c: "plain_load = Inr c" using plain_load_ok by (auto simp: is_ok_conv)
  then have l: "load_from_env ascii_tables no_float no_faults plain_env Map.empty =
      (Inr c, snd (load_from_env ascii_tables no_float no_faults plain_env Map.empty))" by (metis prod.collapse)
  have n: "Net4 0xC0A80000 16 \<in> set default_bypass_cidrs"
    by (simp add: default_bypass_cidrs_def default_bypass_nets)
  have "net_contains (Net4 0xC0A80000 16) (IP4 0xC0A80117)" by code_simp
  from private_destinations_stay_direct [OF l n this order_refl, of "[Some (IP4 0x01020304)]"]
  show ?thesis by (simp add: c)
qed

text \<open>
  Changing the exclusions moves no traffic into the tunnel by surprise: if an engine gets
  more bypass networks and more server addresses, every destination that was not tunnelled is
  still not tunnelled, and the two forms of an IPv4 address always take the same path.
\<close>

theorem more_exclusions_tunnel_less:
  assumes "set (en_bypass e) \<subseteq> set bypass" "set (en_servers e) \<subseteq> set servers"
    and "with_bypass (with_server_ips (Some e) servers) bypass = Some e'"
  shows "(should_tunnel e' (Some a) \<longrightarrow> should_tunnel e (Some a)) \<and>
    decide e' (Some (norm4 a)) = decide e' (Some a)"
proof -
  have e': "e' = e\<lparr>en_servers := servers, en_bypass := bypass\<rparr>"
    using assms(3) by (simp add: with_bypass_def with_server_ips_def)
  have "excluded e a \<Longrightarrow> excluded e' a" using assms(1,2) by (auto simp: excluded_def e')
  then have "should_tunnel e' (Some a) \<longrightarrow> should_tunnel e (Some a)"
    by (auto simp: should_tunnel_def decide_cases e' split: if_splits)
  moreover have "decide e' (Some (norm4 a)) = decide e' (Some a)"
    by (simp add: decide_cases excluded_def)
  ultimately show ?thesis ..
qed

theorem more_exclusions_tunnel_less_witness:
  "should_tunnel sample_engine (Some (IP4 0x08080301)) \<and>
   decide (sample_engine\<lparr>en_bypass := [Net4 0x08080300 24, Net4 0x0A000000 8]\<rparr>) (Some (IP6 0xFFFF08080301)) = PathDirect"
proof -
  let ?e' = "sample_engine\<lparr>en_bypass := [Net4 0x08080300 24, Net4 0x0A000000 8]\<rparr>"
  have "with_bypass (with_server_ips (Some sample_engine) (en_servers sample_engine))
      [Net4 0x08080300 24, Net4 0x0A000000 8] = Some ?e'"
    by (simp add: with_bypass_def with_server_ips_def)
  then have "decide ?e' (Some (norm4 (IP6 0xFFFF08080301))) = decide ?e' (Some (IP6 0xFFFF08080301))"
    using more_exclusions_tunnel_less [of sample_engine "[Net4 0x08080300 24, Net4 0x0A000000 8]"
        "en_servers sample_engine" ?e' "IP6 0xFFFF08080301"]
    by (simp add: sample_engine_def)
  moreover have "decide ?e' (Some (norm4 (IP6 0xFFFF08080301))) = PathDirect" by code_simp
  moreover have "should_tunnel sample_engine (Some (IP4 0x08080301))" by code_simp
  ultimately show ?thesis by simp
qed

end
