(* ===== verification/Bypass_Rule.thy ===== *)
theory Bypass_Rule
  imports Go_Net_Text
begin

text \<open>
  \<open>internal/bypass/rule.go\<close>: one user rule (IP, CIDR, domain or \<open>*.\<close> suffix), its parser
  and the host normalisation used for matching. The lemmas describe the four shapes of an
  accepted rule and show that the canonical form \<open>Raw\<close> is a fixed point of the parser.
\<close>

section \<open>Data\<close>

datatype kind = KindIP | KindCIDR | KindDomain | KindSuffix

fun kind_string :: "kind \<Rightarrow> string" where
  "kind_string KindIP = ''ip''"
| "kind_string KindCIDR = ''cidr''"
| "kind_string KindDomain = ''domain''"
| "kind_string KindSuffix = ''suffix''"

record rule =
  rule_raw :: string
  rule_kind :: kind
  rule_net :: "ipnet option"
  rule_host :: string

datatype host_error =
    HostEmpty | HostTooLong | HostForm | HostLabel string | HostHyphen string | HostChar string

datatype rule_error =
    RuleEmpty | RuleSpace | RuleCIDR | RuleSuffix host_error | RuleDomain host_error

section \<open>validateHostname\<close>

text \<open>The loop over the labels of a hostname; \<open>None\<close> is the nil error.\<close>

fun check_labels :: "unicode \<Rightarrow> string list \<Rightarrow> host_error option" where
  "check_labels U [] = None"
| "check_labels U (l # ls) =
     (if l = [] \<or> 63 < length l then Some (HostLabel l)
      else if hd l = CHR ''-'' \<or> last l = CHR ''-'' then Some (HostHyphen l)
      else if \<not> label_chars_ok U l then Some (HostChar l)
      else check_labels U ls)"

definition validate_hostname :: "unicode \<Rightarrow> string \<Rightarrow> host_error option" where
  "validate_hostname U host =
     (if host = [] then Some HostEmpty
      else if 253 < length host then Some HostTooLong
      else if has_prefix host ''.'' \<or> has_suffix host ''.'' \<or> contains host ''..'' then Some HostForm
      else check_labels U (split_on CHR ''.'' host))"

section \<open>ParseRule and NormalizeHost\<close>

definition parse_rule :: "unicode \<Rightarrow> string \<Rightarrow> rule_error + rule" where
  "parse_rule U s0 =
     (let s = trim_space s0 in
      if s = [] then Inl RuleEmpty
      else if contains_any s [CHR '' '', CHR 0x09] then Inl RuleSpace
      else if contains s ''/'' then
        (case parse_cidr s of
           None \<Rightarrow> Inl RuleCIDR
         | Some (_, n) \<Rightarrow>
             Inr \<lparr>rule_raw = show_net n, rule_kind = KindCIDR, rule_net = Some n, rule_host = []\<rparr>)
      else case parse_ip s of
        Some a \<Rightarrow>
          (case to4 a of
             Some v4 \<Rightarrow>
               Inr \<lparr>rule_raw = show_ip (IP4 v4), rule_kind = KindIP, rule_net = Some (host_net (IP4 v4)),
                    rule_host = []\<rparr>
           | None \<Rightarrow>
               Inr \<lparr>rule_raw = show_ip a, rule_kind = KindIP, rule_net = Some (host_net a),
                    rule_host = []\<rparr>)
      | None \<Rightarrow>
          (let lower = to_lower U s in
           if has_prefix lower ''*.'' then
             (let apex = trim_suffix (trim_prefix lower ''*.'') ''.'' in
              case validate_hostname U apex of
                Some e \<Rightarrow> Inl (RuleSuffix e)
              | None \<Rightarrow>
                  Inr \<lparr>rule_raw = ''*.'' @ apex, rule_kind = KindSuffix, rule_net = None,
                       rule_host = apex\<rparr>)
           else
             (let host = to_lower U (trim_suffix lower ''.'') in
              case validate_hostname U host of
                Some e \<Rightarrow> Inl (RuleDomain e)
              | None \<Rightarrow>
                  Inr \<lparr>rule_raw = host, rule_kind = KindDomain, rule_net = None, rule_host = host\<rparr>)))"

definition normalize_host :: "unicode \<Rightarrow> string \<Rightarrow> string" where
  "normalize_host U host = to_lower U (trim_suffix (trim_space host) ''.'')"

section \<open>Valid hostnames\<close>

definition hostname_ok :: "unicode \<Rightarrow> string \<Rightarrow> bool" where
  "hostname_ok U host \<longleftrightarrow> validate_hostname U host = None"

lemma check_labels_None_iff:
  "check_labels U ls = None \<longleftrightarrow>
     (\<forall>l \<in> set ls. l \<noteq> [] \<and> length l \<le> 63 \<and> hd l \<noteq> CHR ''-'' \<and> last l \<noteq> CHR ''-'' \<and> label_chars_ok U l)"
  by (induction ls) auto

lemma hostname_okD:
  assumes "hostname_ok U h"
  shows "h \<noteq> []" "length h \<le> 253" "\<not> has_prefix h ''.''" "\<not> has_suffix h ''.''"
    "\<not> contains h ''..''"
    "\<And>l. l \<in> set (split_on CHR ''.'' h) \<Longrightarrow>
       l \<noteq> [] \<and> length l \<le> 63 \<and> hd l \<noteq> CHR ''-'' \<and> last l \<noteq> CHR ''-'' \<and> label_chars_ok U l"
  using assms
  by (auto simp: hostname_ok_def validate_hostname_def check_labels_None_iff split: if_splits)

text \<open>An accepted ASCII hostname is made of letters, digits, hyphens and dots only.\<close>

definition host_char :: "char \<Rightarrow> bool" where
  "host_char c \<longleftrightarrow> is_alpha c \<or> is_digit c \<or> c = CHR ''-'' \<or> c = CHR ''.''"

lemma set_split_on: "set s \<subseteq> insert c (\<Union> (set ` set (split_on c s)))"
proof (induction s)
  case (Cons d s)
  obtain q qs where q: "split_on c s = q # qs" by (cases "split_on c s") auto
  with Cons show ?case by auto
qed simp

lemma hostname_ok_chars:
  assumes "hostname_ok U h" "is_ascii h" "c \<in> set h"
  shows "host_char c"
proof (cases "c = CHR ''.''")
  case False
  then obtain l where l: "l \<in> set (split_on CHR ''.'' h)" "c \<in> set l"
    using set_split_on [of h "CHR ''.''"] assms(3) by auto
  then have "is_ascii l" using split_on_parts [OF l(1)] assms(2) is_ascii_subset by blast
  with hostname_okD(6) [OF assms(1) l(1)] l(2) show ?thesis
    by (auto simp: label_chars_ok_def host_char_def list_all_iff)
qed (simp add: host_char_def)

lemma host_char_graph: "host_char c \<Longrightarrow> is_graph c"
  by (auto simp: host_char_def is_alpha_def is_digit_def is_upper_def is_graph_def byte_def)

lemma not_host_char [simp]:
  "\<not> host_char CHR '' ''" "\<not> host_char CHR 0x09" "\<not> host_char CHR 0x0A" "\<not> host_char CHR ''/''"
  "\<not> host_char CHR '':''" "\<not> host_char CHR ''*''" "\<not> host_char CHR ''#''" "\<not> host_char CHR ''%''"
  by (simp_all add: host_char_def is_alpha_def is_digit_def is_upper_def byte_def)

section \<open>The four shapes of an accepted rule\<close>

definition net_rule :: "ipnet \<Rightarrow> ipnet \<Rightarrow> rule" where
  "net_rule m n = \<lparr>rule_raw = show_net m, rule_kind = KindCIDR, rule_net = Some n, rule_host = []\<rparr>"

definition ip_rule :: "ip \<Rightarrow> rule" where
  "ip_rule a = \<lparr>rule_raw = show_ip a, rule_kind = KindIP, rule_net = Some (host_net (norm4 a)),
                rule_host = []\<rparr>"

definition suffix_rule :: "string \<Rightarrow> rule" where
  "suffix_rule apex = \<lparr>rule_raw = ''*.'' @ apex, rule_kind = KindSuffix, rule_net = None,
                       rule_host = apex\<rparr>"

definition domain_rule :: "string \<Rightarrow> rule" where
  "domain_rule h = \<lparr>rule_raw = h, rule_kind = KindDomain, rule_net = None, rule_host = h\<rparr>"

lemmas rule_shapes = net_rule_def ip_rule_def suffix_rule_def domain_rule_def

lemma parse_rule_cases:
  assumes "parse_rule U s = Inr r"
  obtains (cidr) a n where "parse_cidr (trim_space s) = Some (a, n)" "r = net_rule n n"
  | (ip) a where "parse_ip (trim_space s) = Some a" "r = ip_rule a"
  | (suffix) apex where "hostname_ok U apex" "r = suffix_rule apex"
      "apex = trim_suffix (trim_prefix (to_lower U (trim_space s)) ''*.'') ''.''"
  | (domain) h where "hostname_ok U h" "r = domain_rule h" "parse_ip (trim_space s) = None"
      "h = to_lower U (trim_suffix (to_lower U (trim_space s)) ''.'')"
proof -
  let ?t = "trim_space s" and ?l = "to_lower U (trim_space s)"
  have ne: "?t \<noteq> []" "\<not> contains_any ?t [CHR '' '', CHR 0x09]"
    using assms by (auto simp: parse_rule_def Let_def split: if_splits)
  show ?thesis
  proof (cases "contains ?t ''/''")
    case True
    with assms ne show ?thesis
      by (auto simp: parse_rule_def Let_def net_rule_def split: option.splits intro: cidr)
  next
    case nosl: False
    show ?thesis
    proof (cases "parse_ip ?t")
      case (Some a)
      with assms ne nosl have "r = ip_rule a"
        by (cases "to4 a") (auto simp: parse_rule_def Let_def ip_rule_def norm4_def show_ip_def)
      with Some show ?thesis by (rule ip)
    next
      case None
      show ?thesis
      proof (cases "has_prefix ?l ''*.''")
        case True
        with assms ne nosl None show ?thesis
          by (intro suffix [OF _ _ refl])
            (auto simp: parse_rule_def Let_def suffix_rule_def hostname_ok_def split: option.splits)
      next
        case False
        with assms ne nosl None show ?thesis
          by (intro domain [OF _ _ None refl])
            (auto simp: parse_rule_def Let_def domain_rule_def hostname_ok_def split: option.splits)
      qed
    qed
  qed
qed

section \<open>Parsing a canonical rule again\<close>

lemma all_graph_line:
  assumes "s \<noteq> []" "\<And>c. c \<in> set s \<Longrightarrow> is_graph c"
  shows "trim_space s = s" "\<not> contains_any s [CHR '' '', CHR 0x09]"
proof -
  show "trim_space s = s" using assms by (intro trim_space_graph) auto
  show "\<not> contains_any s [CHR '' '', CHR 0x09]"
    using assms(2) by (force simp: contains_any_iff is_graph_def byte_def)
qed

lemma is_hex_graph: "is_hex c \<Longrightarrow> is_graph c"
  by (auto simp: is_hex_def is_digit_def is_graph_def)

lemma sep_graph: "is_graph CHR '':''" "is_graph CHR ''.''" "is_graph CHR ''/''" "is_graph CHR ''*''"
  by (simp_all add: is_graph_def byte_def)

lemma show_net_line:
  "trim_space (show_net n) = show_net n" "\<not> contains_any (show_net n) [CHR '' '', CHR 0x09]"
  by (rule all_graph_line; use show_net_slash [of n] in \<open>force dest: show_net_set simp: is_hex_graph sep_graph\<close>)+

lemma show_net_ne [simp]: "show_net n \<noteq> []"
  by (cases "net_number n") (simp add: show_net_def)

lemma show_ip_ne [simp]: "show_ip a \<noteq> []"
  using parse_addr_show_ip [of a] by (auto simp: parse_addr_def)

lemma show_ip_line:
  "trim_space (show_ip a) = show_ip a" "\<not> contains_any (show_ip a) [CHR '' '', CHR 0x09]"
  by (rule all_graph_line; force dest: show_ip_set simp: is_hex_graph sep_graph)+

lemma parse_rule_show_net:
  "net_wf n \<Longrightarrow> parse_rule U (show_net n) = Inr (net_rule n (net_canon n))"
  using show_net_slash [of n] parse_cidr_show_net [of n]
  by (auto simp: parse_rule_def Let_def show_net_line net_rule_def)

lemma norm4_IP6_to16: "norm4 (IP6 (to16 a)) = norm4 a"
  using ip_equal_norm4 [of "IP6 (to16 a)" a] by (simp add: ip_equal_def)

lemma parse_rule_show_ip: "parse_rule U (show_ip a) = Inr (ip_rule a)"
proof -
  let ?b = "IP6 (to16 a)"
  have s: "show_ip ?b = show_ip a" by (metis norm4_IP6_to16 show_ip_norm4)
  have "parse_rule U (show_ip a) = Inr (ip_rule ?b)"
    using no_slash_show_ip [of a]
    by (cases "to4 ?b")
      (auto simp: parse_rule_def Let_def show_ip_line ip_rule_def norm4_def show_ip_def [of ?b]
            show_ip_def [of "IP4 _"] simp del: to4.simps(2))
  then show ?thesis by (simp only: ip_rule_def s norm4_IP6_to16)
qed

lemma parse_ip_ipv4_text:
  assumes "CHR '':'' \<notin> set s" "parse_ip s = Some a"
  shows "\<exists>w. parse_ipv4 s = Some w \<and> show_ip a = s \<and> norm4 a = IP4 w"
proof -
  obtain b where b: "parse_addr s = Some b" "norm4 a = norm4 b" using norm4_parse_ip [OF assms(2)] by blast
  then obtain c where c: "find (\<lambda>c. c = CHR ''.'' \<or> c = CHR '':'') s = Some c" "CHR ''%'' \<notin> set s"
    by (auto simp: parse_addr_def split: if_splits option.splits)
  then have "c = CHR ''.''" using find_Some_in [OF c(1)] assms(1) by auto
  with b(1) c obtain w where w: "parse_ipv4 s = Some w" "b = IP4 w" by (auto simp: parse_addr_def)
  with b(2) show_parse_ipv4 [OF w(1)] show ?thesis by (auto simp: show_ip_def)
qed

lemma hostname_line:
  assumes "hostname_ok U h" "is_ascii h"
  shows "trim_space h = h" "\<not> contains_any h [CHR '' '', CHR 0x09]" "CHR ''/'' \<notin> set h"
    "CHR '':'' \<notin> set h" "CHR 0x0A \<notin> set h" "\<not> has_prefix h ''*.''" "hd h \<noteq> CHR ''#''"
proof -
  have ch: "host_char c" if "c \<in> set h" for c using hostname_ok_chars [OF assms that] .
  note ne = hostname_okD(1) [OF assms(1)]
  show "trim_space h = h" "\<not> contains_any h [CHR '' '', CHR 0x09]"
    by (rule all_graph_line [OF ne]; blast intro: host_char_graph ch)+
  show "CHR ''/'' \<notin> set h" "CHR '':'' \<notin> set h" "CHR 0x0A \<notin> set h" using ch not_host_char by blast+
  show "\<not> has_prefix h ''*.''" using ch [of "CHR ''*''"] by (auto simp: has_prefix_iff)
  show "hd h \<noteq> CHR ''#''" using ch [of "CHR ''#''"] ne hd_in_set [of h] by fastforce
qed

lemma parse_rule_hostname:
  assumes "hostname_ok U h" "is_ascii h" "to_lower U h = h"
  shows "parse_rule U h = Inr (case parse_ip h of Some a \<Rightarrow> ip_rule a | None \<Rightarrow> domain_rule h)"
proof -
  note ln = hostname_line [OF assms(1,2)]
  have sfx: "trim_suffix h ''.'' = h" using hostname_okD(4) [OF assms(1)] by (rule trim_suffix_no)
  have v: "validate_hostname U h = None" using assms(1) by (simp add: hostname_ok_def)
  show ?thesis
  proof (cases "parse_ip h")
    case None
    then show ?thesis
      using ln sfx v assms(3) hostname_okD(1) [OF assms(1)]
      by (simp add: parse_rule_def Let_def domain_rule_def)
  next
    case (Some a)
    then show ?thesis
      using ln hostname_okD(1) [OF assms(1)]
      by (cases "to4 a") (auto simp: parse_rule_def Let_def ip_rule_def norm4_def show_ip_def)
  qed
qed

lemma parse_rule_star:
  assumes "hostname_ok U h" "is_ascii h" "to_lower U h = h"
  shows "parse_rule U (''*.'' @ h) = Inr (suffix_rule h)"
proof -
  note ln = hostname_line [OF assms(1,2)]
  let ?s = "''*.'' @ h"
  have gr: "is_graph c" if "c \<in> set ?s" for c
    using that hostname_ok_chars [OF assms(1,2), of c] by (auto simp: sep_graph host_char_graph)
  have ts: "trim_space ?s = ?s" "\<not> contains_any ?s [CHR '' '', CHR 0x09]"
    by (rule all_graph_line; use gr in simp)+
  have ip: "parse_ip ?s = None"
  proof (rule ccontr)
    assume "parse_ip ?s \<noteq> None"
    then obtain a where "parse_ip ?s = Some a" by blast
    then obtain w where "parse_ipv4 ?s = Some w" using ln(4) parse_ip_ipv4_text [of ?s a] by auto
    then have "show_ipv4 w = ?s" by (rule show_parse_ipv4)
    then have "CHR ''*'' \<in> set (show_ipv4 w)" by simp
    then show False using show_ipv4_set [of "CHR ''*''" w] by (simp add: is_digit_def byte_def)
  qed
  have lower: "to_lower U ?s = ?s"
    using assms(2,3) by (simp add: to_lower_ascii lower_char_def is_upper_def byte_def)
  have sfx: "trim_suffix h ''.'' = h" using hostname_okD(4) [OF assms(1)] by (rule trim_suffix_no)
  have tp: "trim_prefix ?s ''*.'' = h" "has_prefix ?s ''*.''" 
    using trim_prefix_append [of "''*.''" h] has_prefix_append [of "''*.''" h] by simp_all
  show ?thesis
    using ts ip lower sfx tp assms(1) ln(3)
    unfolding parse_rule_def Let_def by (simp add: suffix_rule_def hostname_ok_def)
qed

section \<open>What ParseRule guarantees\<close>

text \<open>Well-formed rules: the shape of the kind, over a valid network or hostname.\<close>

definition rule_wf :: "unicode \<Rightarrow> rule \<Rightarrow> bool" where
  "rule_wf U r \<longleftrightarrow>
     (case rule_kind r of
        KindIP \<Rightarrow> \<exists>a. r = ip_rule a
      | KindCIDR \<Rightarrow> \<exists>m n. net_wf m \<and> net_wf n \<and> net_canon m = net_canon n \<and> r = net_rule m n
      | KindSuffix \<Rightarrow> hostname_ok U (rule_host r) \<and> is_ascii (rule_host r) \<and>
          to_lower U (rule_host r) = rule_host r \<and> r = suffix_rule (rule_host r)
      | KindDomain \<Rightarrow> hostname_ok U (rule_host r) \<and> is_ascii (rule_host r) \<and>
          to_lower U (rule_host r) = rule_host r \<and> r = domain_rule (rule_host r))"

lemma is_ascii_trim:
  "is_ascii s \<Longrightarrow> is_ascii (trim_suffix s p)" "is_ascii s \<Longrightarrow> is_ascii (trim_prefix s p)"
  using set_trim_suffix [of s p] set_trim_prefix [of s p] is_ascii_subset by blast+

lemma lower_of_part:
  assumes "is_ascii s" "set h \<subseteq> set (to_lower U s)"
  shows "to_lower U h = h"
proof (rule to_lower_no_upper)
  show "\<forall>c \<in> set h. \<not> is_upper c" using assms by (auto simp: to_lower_ascii)
  show "is_ascii h" using is_ascii_subset [OF assms(2)] is_ascii_to_lower [OF assms(1)] by blast
qed

lemma parse_rule_wf:
  assumes "is_ascii s" "parse_rule U s = Inr r"
  shows "rule_wf U r"
  using assms(2)
proof (cases rule: parse_rule_cases)
  case (cidr a n)
  then show ?thesis using parse_cidr_wf by (auto simp: rule_wf_def net_rule_def)
next
  case (ip a)
  then show ?thesis by (auto simp: rule_wf_def ip_rule_def)
next
  case (suffix apex)
  let ?l = "to_lower U (trim_space s)"
  have sub: "set apex \<subseteq> set ?l"
    using suffix(3) set_trim_suffix set_trim_prefix by (metis subset_trans)
  have a: "is_ascii (trim_space s)" using assms(1) by simp
  have "is_ascii apex" using sub is_ascii_to_lower [OF a] is_ascii_subset by blast
  then show ?thesis
    using suffix lower_of_part [OF a sub] by (auto simp: rule_wf_def suffix_rule_def)
next
  case (domain h)
  let ?l = "to_lower U (trim_space s)"
  have a: "is_ascii (trim_suffix ?l ''.'')"
    using is_ascii_to_lower [of "trim_space s" U] assms(1) is_ascii_trim by simp
  then have "to_lower U h = h" "is_ascii h"
    using domain(4) to_lower_idem is_ascii_to_lower by simp_all
  then show ?thesis using domain by (auto simp: rule_wf_def domain_rule_def)
qed

lemma net_canon_idem [simp]: "net_canon (net_canon n) = net_canon n"
  by (simp only: net_canon_def [of "net_canon n"] net_number_canon) (simp only: net_canon_def)

text \<open>
  Parsing the canonical form of a well-formed rule: it succeeds, gives the same canonical
  form back, and a rule that matches the same destinations, except that a domain rule
  whose name is an IPv4 literal comes back as an IP rule.
\<close>

definition reparsed :: "rule \<Rightarrow> rule" where
  "reparsed r = (case rule_kind r of
      KindDomain \<Rightarrow> (case parse_ip (rule_host r) of Some a \<Rightarrow> ip_rule a | None \<Rightarrow> r)
    | _ \<Rightarrow> r\<lparr>rule_net := map_option net_canon (rule_net r)\<rparr>)"

lemma net_canon_host_net [simp]: "net_canon (host_net (norm4 a)) = host_net (norm4 a)"
proof (cases "norm4 a")
  case (IP6 b)
  then have "to4 (IP6 b) = None"
    by (cases a) (auto simp: norm4_def split: option.splits if_splits)
  with IP6 show ?thesis by (simp add: host_net_def net_canon_def del: to4.simps)
qed (simp add: host_net_def)

lemma parse_rule_raw:
  assumes "rule_wf U r"
  shows "parse_rule U (rule_raw r) = Inr (reparsed r)"
proof (cases "rule_kind r")
  case KindIP
  with assms obtain a where "r = ip_rule a" by (auto simp: rule_wf_def)
  then show ?thesis
    using parse_rule_show_ip [of U a] by (simp add: reparsed_def ip_rule_def)
next
  case KindCIDR
  with assms obtain m n where "net_wf m" "net_canon m = net_canon n" "r = net_rule m n"
    by (auto simp: rule_wf_def)
  then show ?thesis
    using parse_rule_show_net [of m U] by (simp add: reparsed_def net_rule_def)
next
  case KindDomain
  with assms have "hostname_ok U (rule_host r)" "is_ascii (rule_host r)"
    "to_lower U (rule_host r) = rule_host r" and r: "r = domain_rule (rule_host r)"
    by (simp_all add: rule_wf_def)
  then have "parse_rule U (rule_host r) = Inr (reparsed r)"
    using parse_rule_hostname [of U "rule_host r"] KindDomain
    by (simp add: reparsed_def split: option.splits)
  then show ?thesis by (metis r domain_rule_def rule.select_convs(1,4))
next
  case KindSuffix
  with assms have w: "hostname_ok U (rule_host r)" "is_ascii (rule_host r)"
    "to_lower U (rule_host r) = rule_host r" and r: "r = suffix_rule (rule_host r)"
    by (simp_all add: rule_wf_def)
  have "rule_raw r = ''*.'' @ rule_host r" "rule_net r = None"
    using arg_cong [OF r, of rule_raw] arg_cong [OF r, of rule_net] by (simp_all add: suffix_rule_def)
  then show ?thesis using parse_rule_star [OF w] r KindSuffix by (simp add: reparsed_def)
qed

lemma reparsed_raw:
  assumes "rule_wf U r"
  shows "rule_raw (reparsed r) = rule_raw r"
proof (cases "rule_kind r = KindDomain \<and> (\<exists>a. parse_ip (rule_host r) = Some a)")
  case True
  with assms have h: "hostname_ok U (rule_host r)" "is_ascii (rule_host r)"
    and r: "r = domain_rule (rule_host r)" by (simp_all add: rule_wf_def)
  from True obtain a where a: "parse_ip (rule_host r) = Some a" by blast
  then have "show_ip a = rule_host r" using parse_ip_ipv4_text hostname_line(4) [OF h] by blast
  with True a show ?thesis
    using arg_cong [OF r, of rule_raw] by (simp add: reparsed_def ip_rule_def domain_rule_def)
next
  case False
  then show ?thesis by (cases "rule_kind r") (auto simp: reparsed_def split: option.splits)
qed

text \<open>The canonical form is a single visible line: it survives a rules file.\<close>

lemma rule_raw_line:
  assumes "rule_wf U r"
  shows "rule_raw r \<noteq> []" "\<And>c. c \<in> set (rule_raw r) \<Longrightarrow> is_graph c"
    "trim_space (rule_raw r) = rule_raw r" "CHR 0x0A \<notin> set (rule_raw r)"
    "\<not> has_prefix (rule_raw r) ''#''" "is_ascii (rule_raw r)"
proof -
  have g: "rule_raw r \<noteq> [] \<and> (\<forall>c \<in> set (rule_raw r). is_graph c \<and> c \<noteq> CHR ''#'')"
  proof (cases "rule_kind r")
    case KindIP
    with assms obtain a where "rule_raw r = show_ip a" by (auto simp: rule_wf_def ip_rule_def)
    then show ?thesis using not_hex_sep
      by (auto dest!: show_ip_set simp: is_hex_graph sep_graph is_hex_def is_digit_def byte_def)
  next
    case KindCIDR
    with assms obtain m where "rule_raw r = show_net m" by (auto simp: rule_wf_def net_rule_def)
    then show ?thesis using show_net_slash [of m]
      by (auto dest!: show_net_set simp: is_hex_graph sep_graph is_hex_def is_digit_def byte_def)
  next
    case KindDomain
    with assms have h: "hostname_ok U (rule_host r)" "is_ascii (rule_host r)"
      and r: "r = domain_rule (rule_host r)" by (simp_all add: rule_wf_def)
    have "rule_raw r = rule_host r" using arg_cong [OF r, of rule_raw] by (simp add: domain_rule_def)
    then show ?thesis
      using hostname_ok_chars [OF h] hostname_okD(1) [OF h(1)] host_char_graph not_host_char by metis
  next
    case KindSuffix
    with assms have h: "hostname_ok U (rule_host r)" "is_ascii (rule_host r)"
      and r: "r = suffix_rule (rule_host r)" by (simp_all add: rule_wf_def)
    have raw: "rule_raw r = ''*.'' @ rule_host r"
      using arg_cong [OF r, of rule_raw] by (simp add: suffix_rule_def)
    have "is_graph c \<and> c \<noteq> CHR ''#''" if "c \<in> set (rule_host r)" for c
      using hostname_ok_chars [OF h that] host_char_graph not_host_char by metis
    then show ?thesis unfolding raw by (auto simp: sep_graph)
  qed
  then show "rule_raw r \<noteq> []" and gr: "\<And>c. c \<in> set (rule_raw r) \<Longrightarrow> is_graph c" by blast+
  show "trim_space (rule_raw r) = rule_raw r" using g by (intro all_graph_line(1)) auto
  have "\<not> is_graph CHR 0x0A" by (simp add: is_graph_def byte_def)
  then show "CHR 0x0A \<notin> set (rule_raw r)" using gr by blast
  have "hd (rule_raw r) \<noteq> CHR ''#''" using g hd_in_set [of "rule_raw r"] by blast
  then show "\<not> has_prefix (rule_raw r) ''#''" by (metis has_prefix_iff append_Cons list.sel(1))
  have "byte c < 128" if "is_graph c" for c using that by (simp add: is_graph_def)
  then show "is_ascii (rule_raw r)" using gr by (simp add: is_ascii_iff)
qed

section \<open>Properties of the parser\<close>

text \<open>
  C13: every rule that ParseRule accepts from an ASCII line is well formed for its kind, its
  canonical form Raw is a visible single line, and parsing Raw succeeds and returns a rule
  with the same Raw. The rule that comes back has the same network up to its
  representation, and the same host, unless the name of a domain rule is an address.
\<close>

theorem parse_rule_canonical:
  assumes "is_ascii s" "parse_rule U s = Inr r"
  shows "rule_wf U r \<and> trim_space (rule_raw r) = rule_raw r \<and> CHR 0x0A \<notin> set (rule_raw r) \<and>
    parse_rule U (rule_raw r) = Inr (reparsed r) \<and> rule_raw (reparsed r) = rule_raw r"
proof -
  have w: "rule_wf U r" using assms by (rule parse_rule_wf)
  then show ?thesis by (simp add: rule_raw_line parse_rule_raw reparsed_raw)
qed

theorem parse_rule_canonical_witness:
  "parse_rule ascii_tables ''192.168.7.9/16'' = Inr (net_rule (Net4 0xC0A80000 16) (Net4 0xC0A80000 16)) \<and>
   rule_wf ascii_tables (net_rule (Net4 0xC0A80000 16) (Net4 0xC0A80000 16))"
proof -
  have p: "parse_rule ascii_tables ''192.168.7.9/16'' = Inr (net_rule (Net4 0xC0A80000 16) (Net4 0xC0A80000 16))"
    by code_simp
  have "is_ascii ''192.168.7.9/16''" by code_simp
  from parse_rule_canonical [OF this p] p show ?thesis by blast
qed

text \<open>
  An IPv4 literal with a trailing dot is accepted as a domain rule (the dot is trimmed
  only after the address test), so its Raw is an address literal while the rule itself has no
  network; the same Raw, read back from the rules file, is an IP rule.
\<close>

theorem trailing_dot_address_changes_kind:
  "parse_rule U ''192.0.2.7.'' = Inr (domain_rule ''192.0.2.7'') \<and>
   parse_rule U (rule_raw (domain_rule ''192.0.2.7'')) = Inr (ip_rule (IP4 0xC0000207)) \<and>
   rule_net (domain_rule ''192.0.2.7'') = None"
  by (intro conjI; code_simp)

end
