(* ===== verification/Bypass_Matcher.thy ===== *)
theory Bypass_Matcher
  imports Bypass_Rule
begin

text \<open>
  \<open>internal/bypass/matcher.go\<close>: matching a host name or an address against a rule list, and
  the networks and host names a list contributes. A \<open>*Matcher\<close> is its rule list, the nil
  pointer is \<open>None\<close>. The interface \<open>bypass_matcher\<close> states what the proxies rely on.
\<close>

section \<open>The operations\<close>

type_synonym matcher = "rule list option"

fun match_name :: "rule list \<Rightarrow> string \<Rightarrow> bool \<times> string" where
  "match_name [] host = (False, [])"
| "match_name (r # rs) host =
     (case rule_kind r of
        KindDomain \<Rightarrow> if host = rule_host r then (True, rule_raw r) else match_name rs host
      | KindSuffix \<Rightarrow>
          if host = rule_host r \<or> has_suffix host (''.'' @ rule_host r) then (True, rule_raw r)
          else match_name rs host
      | _ \<Rightarrow> match_name rs host)"

fun match_nets :: "rule list \<Rightarrow> ip \<Rightarrow> bool \<times> string" where
  "match_nets [] a = (False, [])"
| "match_nets (r # rs) a =
     (case rule_net r of
        Some n \<Rightarrow> if net_contains n a then (True, rule_raw r) else match_nets rs a
      | None \<Rightarrow> match_nets rs a)"

definition matcher_ip_detail :: "matcher \<Rightarrow> ip option \<Rightarrow> bool \<times> string" where
  "matcher_ip_detail m a =
     (case (m, a) of (Some rs, Some x) \<Rightarrow> match_nets rs (norm4 x) | _ \<Rightarrow> (False, []))"

definition matcher_host_detail :: "unicode \<Rightarrow> matcher \<Rightarrow> string \<Rightarrow> bool \<times> string" where
  "matcher_host_detail U m host0 =
     (case m of
        None \<Rightarrow> (False, [])
      | Some rs \<Rightarrow>
          (let host = normalize_host U host0 in
           if host = [] then (False, [])
           else case parse_ip host of
                  Some a \<Rightarrow> matcher_ip_detail m (Some a)
                | None \<Rightarrow> match_name rs host))"

definition matcher_host :: "unicode \<Rightarrow> matcher \<Rightarrow> string \<Rightarrow> bool" where
  "matcher_host U m host = fst (matcher_host_detail U m host)"

definition matcher_ip :: "matcher \<Rightarrow> ip option \<Rightarrow> bool" where
  "matcher_ip m a = fst (matcher_ip_detail m a)"

definition matcher_rules :: "matcher \<Rightarrow> rule list option" where
  "matcher_rules m = m"

fun static_nets :: "rule list \<Rightarrow> ipnet list" where
  "static_nets [] = []"
| "static_nets (r # rs) =
     (case rule_net r of Some n \<Rightarrow> n # static_nets rs | None \<Rightarrow> static_nets rs)"

fun domains_loop :: "string set \<Rightarrow> rule list \<Rightarrow> string list" where
  "domains_loop seen [] = []"
| "domains_loop seen (r # rs) =
     (if rule_kind r \<in> {KindDomain, KindSuffix} then
        (let h = rule_host r in
         if h = [] \<or> h \<in> seen then domains_loop seen rs
         else h # domains_loop (insert h seen) rs)
      else domains_loop seen rs)"

definition domains_to_resolve :: "rule list \<Rightarrow> string list" where
  "domains_to_resolve rs = domains_loop {} rs"

section \<open>What a rule covers\<close>

text \<open>
  The abstract meaning of a name rule: a domain rule covers its own name, a suffix rule
  every name that ends with the labels of its apex.
\<close>

definition labels :: "string \<Rightarrow> string list" where
  "labels h = split_on CHR ''.'' h"

fun covers_name :: "rule \<Rightarrow> string \<Rightarrow> bool" where
  "covers_name r h \<longleftrightarrow>
     (rule_kind r = KindDomain \<and> labels h = labels (rule_host r)) \<or>
     (rule_kind r = KindSuffix \<and> suffix (labels (rule_host r)) (labels h))"

definition covers_ip :: "rule \<Rightarrow> ip \<Rightarrow> bool" where
  "covers_ip r a \<longleftrightarrow> (case rule_net r of Some n \<Rightarrow> net_contains n a | None \<Rightarrow> False)"

lemma join_single_append:
  "us \<noteq> [] \<Longrightarrow> vs \<noteq> [] \<Longrightarrow> join [c] (us @ vs) = join [c] us @ c # join [c] vs"
proof (induction us rule: induct_list012)
  case (2 x)
  then show ?case by (cases vs) auto
next
  case (3 x y zs)
  then show ?case by simp
qed simp

lemma labels_inject: "labels s = labels t \<longleftrightarrow> s = t"
  unfolding labels_def by (metis join_split_on)

lemma suffix_labels_iff:
  "suffix (labels apex) (labels h) \<longleftrightarrow> h = apex \<or> has_suffix h (''.'' @ apex)"
proof
  assume "suffix (labels apex) (labels h)"
  then obtain us where us: "labels h = us @ labels apex" by (auto simp: suffix_def)
  show "h = apex \<or> has_suffix h (''.'' @ apex)"
  proof (cases "us = []")
    case True
    with us show ?thesis by (simp add: labels_inject)
  next
    case False
    have "h = join ''.'' (us @ labels apex)" by (metis us labels_def join_split_on)
    also have "\<dots> = join ''.'' us @ CHR ''.'' # apex"
      using False by (simp add: join_single_append labels_def join_split_on)
    finally show ?thesis by (auto simp: has_suffix_iff)
  qed
next
  assume "h = apex \<or> has_suffix h (''.'' @ apex)"
  then show "suffix (labels apex) (labels h)"
    by (auto simp: has_suffix_iff labels_def split_on_append_sep suffix_def)
qed

lemma match_name_eq:
  "match_name rs h = (case find (\<lambda>r. covers_name r h) rs of
      None \<Rightarrow> (False, []) | Some r \<Rightarrow> (True, rule_raw r))"
  by (induction rs) (auto simp: labels_inject suffix_labels_iff split: kind.splits)

lemma match_nets_eq:
  "match_nets rs a = (case find (\<lambda>r. covers_ip r a) rs of
      None \<Rightarrow> (False, []) | Some r \<Rightarrow> (True, rule_raw r))"
  by (induction rs) (auto simp: covers_ip_def split: option.splits)

section \<open>The interface the proxies use\<close>

text \<open>
  A bypass matcher as its clients see it: a decision on a host string with the rule that
  made it, and the decision on an address it is built over. The laws: the answer depends
  only on the normalised host; a literal is decided as its address; the two forms of one
  address (IPv4 and IPv4-mapped) are decided alike; a miss carries no rule.
\<close>

locale bypass_matcher =
  fixes norm :: "string \<Rightarrow> string"
    and by_host :: "string \<Rightarrow> bool \<times> string"
    and by_ip :: "ip \<Rightarrow> bool \<times> string"
  assumes host_cong: "norm h = norm k \<Longrightarrow> by_host h = by_host k"
    and literal: "by_host (show_ip a) = by_ip a"
    and same_ip: "ip_equal a b \<Longrightarrow> by_ip a = by_ip b"
    and miss: "\<not> fst (by_host h) \<Longrightarrow> by_host h = (False, [])"
begin

lemma literal_of: "norm h = norm (show_ip a) \<Longrightarrow> by_host h = by_ip a"
  using host_cong literal by metis

lemma miss_ip: "\<not> fst (by_ip a) \<Longrightarrow> by_ip a = (False, [])"
  using miss [of "show_ip a"] by (simp add: literal)

lemma no_match_bypass_iff: "by_host h = (False, []) \<longleftrightarrow> \<not> fst (by_host h)"
  using miss [of h] by auto

lemma ip4_form: "by_ip (norm4 a) = by_ip a"
  by (rule same_ip) (simp add: ip_equal_norm4)

end

lemma normalize_show_ip: "normalize_host U (show_ip a) = show_ip a"
proof -
  have "is_ascii (show_ip a)"
    using show_ip_set [of _ a] by (fastforce simp: is_ascii_iff is_hex_def is_digit_def byte_def)
  then show ?thesis
    by (simp add: normalize_host_def show_ip_line trim_suffix_no [OF show_ip_no_dot_end]
        to_lower_no_upper show_ip_not_upper)
qed

lemma match_nets_miss: "\<not> fst (match_nets rs a) \<Longrightarrow> match_nets rs a = (False, [])"
  by (simp add: match_nets_eq split: option.splits)

lemma match_name_miss: "\<not> fst (match_name rs h) \<Longrightarrow> match_name rs h = (False, [])"
  by (simp add: match_name_eq split: option.splits)

lemma matcher_ip_detail_cong:
  "norm4 a = norm4 b \<Longrightarrow> matcher_ip_detail m (Some a) = matcher_ip_detail m (Some b)"
  by (simp add: matcher_ip_detail_def split: option.splits)

lemma matcher_ip_detail_miss:
  "\<not> fst (matcher_ip_detail m a) \<Longrightarrow> matcher_ip_detail m a = (False, [])"
  by (auto simp: matcher_ip_detail_def match_nets_miss split: option.splits)

lemma matcher_host_detail_miss:
  "\<not> fst (matcher_host_detail U m h) \<Longrightarrow> matcher_host_detail U m h = (False, [])"
  by (auto simp: matcher_host_detail_def Let_def matcher_ip_detail_miss match_name_miss
      split: option.splits if_splits)

lemma matcher_host_detail_literal:
  "matcher_host_detail U m (show_ip a) = matcher_ip_detail m (Some a)"
proof -
  have "matcher_ip_detail m (Some (IP6 (to16 a))) = matcher_ip_detail m (Some a)"
    by (rule matcher_ip_detail_cong) (rule norm4_IP6_to16)
  then show ?thesis
    by (auto simp: matcher_host_detail_def Let_def normalize_show_ip matcher_ip_detail_def
        split: option.splits)
qed

interpretation user_rules: bypass_matcher
    "normalize_host U" "matcher_host_detail U m" "\<lambda>a. matcher_ip_detail m (Some a)" for U m
proof (unfold_locales, goal_cases)
  case (1 h k)
  then show ?case by (simp add: matcher_host_detail_def Let_def cong: option.case_cong)
next
  case (3 a b)
  then show ?case by (intro matcher_ip_detail_cong) (simp add: ip_equal_norm4)
qed (simp_all add: matcher_host_detail_literal matcher_host_detail_miss)

section \<open>What the matcher decides\<close>

definition covers_host :: "unicode \<Rightarrow> rule \<Rightarrow> string \<Rightarrow> bool" where
  "covers_host U r h =
     (let host = normalize_host U h in
      case parse_ip host of Some a \<Rightarrow> covers_ip r a | None \<Rightarrow> covers_name r host)"

definition first_cover :: "(rule \<Rightarrow> bool) \<Rightarrow> rule list \<Rightarrow> bool \<times> string" where
  "first_cover P rs = (case find P rs of None \<Rightarrow> (False, []) | Some r \<Rightarrow> (True, rule_raw r))"

lemma parse_ip_Nil [simp]: "parse_ip [] = None"
  by (simp add: parse_ip_def parse_addr_def)

lemma covers_name_Nil:
  assumes "rule_wf U r"
  shows "\<not> covers_name r []"
proof
  assume c: "covers_name r []"
  then have "rule_host r = []"
    using suffix_labels_iff [of "rule_host r" "[]"] by (auto simp: labels_inject has_suffix_iff)
  moreover from c assms have "hostname_ok U (rule_host r)" by (auto simp: rule_wf_def)
  ultimately show False using hostname_okD(1) by metis
qed

lemma covers_ip_norm4 [simp]: "covers_ip r (norm4 a) = covers_ip r a"
  by (simp add: covers_ip_def split: option.split)

lemma find_False: "(\<And>x. x \<in> set xs \<Longrightarrow> \<not> P x) \<Longrightarrow> find P xs = None"
  by (simp add: find_None_iff)

text \<open>
  C19: on the rules the parser accepts, MatchHostDetail answers with the first rule of the
  list that covers the normalised host - an IP or CIDR rule that contains it when it is an
  address literal, a domain or suffix rule that names it (label by label) otherwise - and
  reports no match exactly when no rule covers it.
\<close>

theorem matcher_host_first_cover:
  assumes "\<forall>r \<in> set rs. rule_wf U r"
  shows "matcher_host_detail U (Some rs) h = first_cover (\<lambda>r. covers_host U r h) rs"
proof (cases "normalize_host U h = []")
  case True
  then have "find (\<lambda>r. covers_host U r h) rs = None"
    using assms covers_name_Nil by (intro find_False) (auto simp: covers_host_def)
  with True show ?thesis by (simp add: matcher_host_detail_def first_cover_def)
next
  case False
  then show ?thesis
    by (auto simp: matcher_host_detail_def Let_def covers_host_def first_cover_def
        matcher_ip_detail_def match_nets_eq match_name_eq split: option.split)
qed

theorem matcher_host_first_cover_witness:
  "matcher_host_detail ascii_tables (Some [suffix_rule ''corp.example'']) ''VPN.Corp.Example.'' =
     (True, ''*.corp.example'')"
proof -
  have "parse_rule ascii_tables ''*.Corp.Example.'' = Inr (suffix_rule ''corp.example'')" by code_simp
  then have "\<forall>r \<in> set [suffix_rule ''corp.example'']. rule_wf ascii_tables r"
    using parse_rule_wf [of "''*.Corp.Example.''"] by (simp add: byte_def)
  then have "matcher_host_detail ascii_tables (Some [suffix_rule ''corp.example'']) ''VPN.Corp.Example.'' =
     first_cover (\<lambda>r. covers_host ascii_tables r ''VPN.Corp.Example.'') [suffix_rule ''corp.example'']"
    by (rule matcher_host_first_cover)
  also have "\<dots> = (True, ''*.corp.example'')" by code_simp
  finally show ?thesis .
qed


section \<open>Networks and names of a rule list\<close>

lemma static_nets_eq: "static_nets rs = List.map_filter rule_net rs"
  by (induction rs) (auto simp: List.map_filter_def split: option.splits)

lemma static_nets_contains:
  "(\<exists>n \<in> set (static_nets rs). net_contains n a) \<longleftrightarrow> (\<exists>r \<in> set rs. covers_ip r a)"
  by (induction rs) (auto simp: covers_ip_def split: option.splits)

definition names_hosts :: "rule \<Rightarrow> bool" where
  "names_hosts r \<longleftrightarrow> rule_kind r \<in> {KindDomain, KindSuffix} \<and> rule_host r \<noteq> []"

lemma domains_loop_eq:
  "domains_loop seen rs = dedup_by id seen (map rule_host (filter names_hosts rs))"
  by (induction rs arbitrary: seen) (auto simp: Let_def names_hosts_def)

lemma domains_to_resolve_set:
  "set (domains_to_resolve rs) = rule_host ` {r \<in> set rs. names_hosts r}"
  using dedup_by_keys [of id "{}" "map rule_host (filter names_hosts rs)"]
  by (auto simp: domains_to_resolve_def domains_loop_eq)

lemma domains_to_resolve_distinct: "distinct (domains_to_resolve rs)"
  using dedup_by_distinct [of id "{}" "map rule_host (filter names_hosts rs)"]
  by (simp add: domains_to_resolve_def domains_loop_eq)

text \<open>
  DomainsToResolve lists the host of every domain and suffix rule, and nothing else,
  each name once and in the order of the rules.
\<close>

theorem domains_to_resolve_exact:
  "set (domains_to_resolve rs) = rule_host ` {r \<in> set rs. names_hosts r} \<and>
   distinct (domains_to_resolve rs) \<and>
   subseq (domains_to_resolve rs) (map rule_host (filter names_hosts rs))"
  unfolding domains_to_resolve_set
  using domains_to_resolve_distinct dedup_by_subseq
  by (auto simp: domains_to_resolve_def domains_loop_eq)

text \<open>
  A suffix rule never matches beyond a label boundary, whatever the bytes of the names.
\<close>

lemma covers_name_suffix:
  "covers_name (suffix_rule apex) h \<longleftrightarrow> (\<exists>ls. labels h = ls @ labels apex)"
  by (auto simp: suffix_rule_def suffix_def)

text \<open>
  A domain rule whose name is an IPv4 literal (accepted from a literal with a trailing
  dot) never matches the address it names: the matcher tests addresses against networks only.
\<close>

theorem address_domain_rule_never_matches:
  "matcher_host_detail U (Some [domain_rule (show_ip a)]) (show_ip a) = (False, []) \<and>
   matcher_ip_detail (Some [domain_rule (show_ip a)]) (Some a) = (False, []) \<and>
   matcher_ip_detail (Some [ip_rule a]) (Some a) = (True, show_ip a)"
  by (simp add: matcher_host_detail_literal matcher_ip_detail_def domain_rule_def ip_rule_def
      host_net_contains ip_equal_norm4)

end
