(* ===== verification/Bypass_Store.thy ===== *)
theory Bypass_Store
  imports Bypass_Rule Go_File
begin

text \<open>
  \<open>internal/bypass/store.go\<close>: the rules file and the store that keeps it in step with the
  rules in memory. Operations take the file system and the calls that fail, and return the
  store with the file-system states they go through. The lock makes each operation atomic.
  The interface \<open>rule_store\<close> is what the manager relies on.
\<close>

section \<open>The rules file\<close>

datatype persist_error = PMkdir | POpen | PWrite | PSync | PClose | PRename

datatype store_error =
    LineError nat rule_error | BadRule rule_error | ReadError | PersistError persist_error

fun parse_lines :: "unicode \<Rightarrow> nat \<Rightarrow> string set \<Rightarrow> string list \<Rightarrow> store_error + rule list" where
  "parse_lines U i seen [] = Inr []"
| "parse_lines U i seen (l # ls) =
     (let line = trim_space l in
      if line = [] \<or> has_prefix line ''#'' then parse_lines U (i + 1) seen ls
      else case parse_rule U line of
        Inl e \<Rightarrow> Inl (LineError (i + 1) e)
      | Inr r \<Rightarrow>
          if rule_raw r \<in> seen then parse_lines U (i + 1) seen ls
          else case parse_lines U (i + 1) (insert (rule_raw r) seen) ls of
            Inl e \<Rightarrow> Inl e
          | Inr rs \<Rightarrow> Inr (r # rs))"

definition parse_rules_file :: "unicode \<Rightarrow> string \<Rightarrow> store_error + rule list" where
  "parse_rules_file U content = parse_lines U 0 {} (split_on CHR 0x0A content)"

definition rules_header :: string where
  "rules_header = ''# outline-gate user rules (managed by UI/API)''"

definition render_rules :: "rule list \<Rightarrow> string" where
  "render_rules rs = rules_header @ [CHR 0x0A] @ concat (map (\<lambda>r. rule_raw r @ [CHR 0x0A]) rs)"

section \<open>The store\<close>

record store =
  st_path :: string
  st_rules :: "rule list"

definition new_store :: "string \<Rightarrow> store" where
  "new_store path = \<lparr>st_path = path, st_rules = []\<rparr>"

text \<open>What \<open>os.ReadFile\<close> returns: the bytes, "does not exist", or another error.\<close>

datatype read_result = ReadOk string | NotExist | ReadFailed

definition read_fs :: "fs \<Rightarrow> string \<Rightarrow> read_result" where
  "read_fs fs p = (case fs p of None \<Rightarrow> NotExist | Some f \<Rightarrow> ReadOk (file_data f))"

definition store_load :: "unicode \<Rightarrow> (string \<Rightarrow> read_result) \<Rightarrow> store \<Rightarrow> store_error option \<times> store" where
  "store_load U read s =
     (if st_path s = [] then (None, s\<lparr>st_rules := []\<rparr>)
      else case read (st_path s) of
        NotExist \<Rightarrow> (None, s\<lparr>st_rules := []\<rparr>)
      | ReadFailed \<Rightarrow> (Some ReadError, s)
      | ReadOk b \<Rightarrow>
          (case parse_rules_file U b of
             Inl e \<Rightarrow> (Some e, s)
           | Inr rs \<Rightarrow> (None, s\<lparr>st_rules := rs\<rparr>)))"

definition store_rules :: "store \<Rightarrow> rule list" where
  "store_rules s = st_rules s"

definition persist_script :: "string \<Rightarrow> string \<Rightarrow> persist_error script" where
  "persist_script = temp_script PMkdir POpen PWrite PSync PClose PRename"

text \<open>The states of the file system during the operation, and its error.\<close>

definition persist_locked :: "faults \<Rightarrow> store \<Rightarrow> rule list \<Rightarrow> fs \<Rightarrow> fs list \<times> persist_error option" where
  "persist_locked F s rs fs =
     (if st_path s = [] then ([], None)
      else run_script F (persist_script (st_path s) (render_rules rs)) fs)"

text \<open>The tail that the three mutators share: persist, and keep the new rules on success.\<close>

definition commit :: "faults \<Rightarrow> rule list \<Rightarrow> 'a \<Rightarrow> store \<Rightarrow> fs \<Rightarrow> (store_error + 'a) \<times> store \<times> fs list" where
  "commit F rs v s fs =
     (case persist_locked F s rs fs of
        (tr, Some e) \<Rightarrow> (Inl (PersistError e), s, tr)
      | (tr, None) \<Rightarrow> (Inr v, s\<lparr>st_rules := rs\<rparr>, tr))"

fun clean_rules :: "unicode \<Rightarrow> string set \<Rightarrow> rule list \<Rightarrow> rule_error + rule list" where
  "clean_rules U seen [] = Inr []"
| "clean_rules U seen (r # rs) =
     (case parse_rule U (rule_raw r) of
        Inl e \<Rightarrow> Inl e
      | Inr p \<Rightarrow>
          if rule_raw p \<in> seen then clean_rules U seen rs
          else case clean_rules U (insert (rule_raw p) seen) rs of
            Inl e \<Rightarrow> Inl e
          | Inr ps \<Rightarrow> Inr (p # ps))"

definition store_set ::
  "unicode \<Rightarrow> faults \<Rightarrow> rule list \<Rightarrow> store \<Rightarrow> fs \<Rightarrow> (store_error + unit) \<times> store \<times> fs list" where
  "store_set U F rs s fs =
     (case clean_rules U {} rs of
        Inl e \<Rightarrow> (Inl (BadRule e), s, [])
      | Inr clean \<Rightarrow> commit F clean () s fs)"

definition store_add ::
  "unicode \<Rightarrow> faults \<Rightarrow> string \<Rightarrow> store \<Rightarrow> fs \<Rightarrow> (store_error + rule) \<times> store \<times> fs list" where
  "store_add U F raw s fs =
     (case parse_rule U raw of
        Inl e \<Rightarrow> (Inl (BadRule e), s, [])
      | Inr r \<Rightarrow>
          (case find (\<lambda>x. rule_raw x = rule_raw r) (st_rules s) of
             Some old \<Rightarrow> (Inr old, s, [])
           | None \<Rightarrow> commit F (st_rules s @ [r]) r s fs))"

definition store_remove ::
  "unicode \<Rightarrow> faults \<Rightarrow> string \<Rightarrow> store \<Rightarrow> fs \<Rightarrow> (store_error + bool) \<times> store \<times> fs list" where
  "store_remove U F raw s fs =
     (case parse_rule U raw of
        Inl e \<Rightarrow> (Inl (BadRule e), s, [])
      | Inr r \<Rightarrow>
          (let rest = filter (\<lambda>x. rule_raw x \<noteq> rule_raw r) (st_rules s);
               found = (\<exists>x \<in> set (st_rules s). rule_raw x = rule_raw r)
           in if \<not> found then (Inr False, s, []) else commit F rest True s fs))"

section \<open>The parsing loops are a de-duplication\<close>

definition meaningful :: "string \<Rightarrow> bool" where
  "meaningful line \<longleftrightarrow> line \<noteq> [] \<and> \<not> has_prefix line ''#''"

definition rule_lines :: "string \<Rightarrow> string list" where
  "rule_lines content = filter meaningful (map trim_space (split_on CHR 0x0A content))"

lemma clean_rules_eq:
  "clean_rules U seen rs =
     (case map_result (\<lambda>r. parse_rule U (rule_raw r)) rs of
        Inl e \<Rightarrow> Inl e | Inr ps \<Rightarrow> Inr (dedup_by rule_raw seen ps))"
  by (induction rs arbitrary: seen) (auto split: sum.splits)

lemma parse_lines_Inr:
  "parse_lines U i seen ls = Inr rs \<longleftrightarrow>
     (\<exists>ps. map_result (parse_rule U) (filter meaningful (map trim_space ls)) = Inr ps \<and>
           rs = dedup_by rule_raw seen ps)"
proof (induction ls arbitrary: i seen rs)
  case (Cons l ls)
  show ?case
  proof (cases "meaningful (trim_space l)")
    case False
    then show ?thesis using Cons.IH by (auto simp: meaningful_def Let_def)
  next
    case m: True
    let ?l = "trim_space l" and ?ms = "filter meaningful (map trim_space ls)"
    have step: "parse_lines U i seen (l # ls) = (case parse_rule U ?l of Inl e \<Rightarrow> Inl (LineError (i + 1) e)
      | Inr r \<Rightarrow> if rule_raw r \<in> seen then parse_lines U (i + 1) seen ls
          else case parse_lines U (i + 1) (insert (rule_raw r) seen) ls of
            Inl e \<Rightarrow> Inl e | Inr rs \<Rightarrow> Inr (r # rs))"
      using m by (simp add: meaningful_def)
    show ?thesis
    proof (cases "parse_rule U ?l")
      case (Inl e)
      with m show ?thesis by (simp add: step del: parse_lines.simps)
    next
      case (Inr r)
      have IH: "parse_lines U (i + 1) S ls = Inr xs \<longleftrightarrow>
          (\<exists>ps. map_result (parse_rule U) ?ms = Inr ps \<and> xs = dedup_by rule_raw S ps)" for S xs
        by (rule Cons.IH)
      show ?thesis
      proof (cases "map_result (parse_rule U) ?ms")
        case E: (Inl e)
        then have "parse_lines U (i + 1) S ls \<noteq> Inr xs" for S xs using IH [of S xs] by simp
        then show ?thesis using m Inr E
          by (auto simp: step simp del: parse_lines.simps split: sum.split)
      next
        case ok: (Inr ps)
        have "parse_lines U (i + 1) S ls = Inr (dedup_by rule_raw S ps)" for S
          using IH [of S] ok by simp
        then show ?thesis using m Inr ok by (auto simp: step simp del: parse_lines.simps)
      qed
    qed
  qed
qed auto

lemma parse_rules_file_Inr:
  "parse_rules_file U content = Inr rs \<longleftrightarrow>
     (\<exists>ps. map_result (parse_rule U) (rule_lines content) = Inr ps \<and> rs = dedup_by rule_raw {} ps)"
  unfolding parse_rules_file_def rule_lines_def by (rule parse_lines_Inr)

section \<open>Writing the rules and reading them back\<close>

lemma meaningful_raw: "rule_wf U r \<Longrightarrow> meaningful (rule_raw r)"
  by (simp add: meaningful_def rule_raw_line)

lemma render_lines:
  assumes "\<forall>r \<in> set rs. CHR 0x0A \<notin> set (rule_raw r)"
  shows "split_on CHR 0x0A (render_rules rs) = rules_header # map rule_raw rs @ [[]]"
proof -
  have "split_on CHR 0x0A (concat (map (\<lambda>r. rule_raw r @ [CHR 0x0A]) rs)) = map rule_raw rs @ [[]]"
    using assms by (induction rs) (simp_all add: split_on_append)
  moreover have "CHR 0x0A \<notin> set rules_header" by (simp add: rules_header_def)
  ultimately show ?thesis by (simp add: render_rules_def split_on_append)
qed

lemma rule_lines_render:
  assumes "\<forall>r \<in> set rs. rule_wf U r"
  shows "rule_lines (render_rules rs) = map rule_raw rs"
proof -
  have h: "trim_space rules_header = rules_header" "\<not> meaningful rules_header" by code_simp+
  have "\<not> meaningful (trim_space [])" by code_simp
  moreover have "filter meaningful (map trim_space (map rule_raw rs)) = map rule_raw rs"
    using assms by (induction rs) (simp_all add: rule_raw_line [of U] meaningful_raw [of U])
  ultimately show ?thesis
    using assms h by (simp add: rule_lines_def render_lines rule_raw_line [of U])
qed

definition rules_ok :: "unicode \<Rightarrow> rule list \<Rightarrow> bool" where
  "rules_ok U rs \<longleftrightarrow> (\<forall>r \<in> set rs. rule_wf U r) \<and> distinct (map rule_raw rs)"

lemma map_reparsed:
  assumes "\<forall>r \<in> set rs. rule_wf U r"
  shows "map_result (\<lambda>r. parse_rule U (rule_raw r)) rs = Inr (map reparsed rs)"
    and "map rule_raw (map reparsed rs) = map rule_raw rs"
  using assms by (auto simp: parse_rule_raw intro!: map_result_all_ok reparsed_raw [of U])

lemma map_result_map: "map_result f (map g xs) = map_result (\<lambda>x. f (g x)) xs"
  by (induction xs) (simp_all split: sum.split)

lemma parse_render_rules:
  assumes "rules_ok U rs"
  shows "parse_rules_file U (render_rules rs) = Inr (map reparsed rs)"
proof -
  have wf: "\<forall>r \<in> set rs. rule_wf U r" and d: "distinct (map rule_raw (map reparsed rs))"
    using assms map_reparsed(2) by (auto simp: rules_ok_def simp del: map_map)
  have "dedup_by rule_raw {} (map reparsed rs) = map reparsed rs"
    by (rule dedup_by_id) (use d in auto)
  then show ?thesis
    using map_reparsed(1) [OF wf] by (simp add: parse_rules_file_Inr rule_lines_render [OF wf] map_result_map)
qed

lemma is_ascii_split: "is_ascii s \<Longrightarrow> p \<in> set (split_on c s) \<Longrightarrow> is_ascii p"
  using split_on_parts is_ascii_subset by blast

lemma parse_rules_file_ok:
  assumes "is_ascii content" "parse_rules_file U content = Inr rs"
  shows "rules_ok U rs"
proof -
  obtain ps where ps: "map_result (parse_rule U) (rule_lines content) = Inr ps"
    and rs: "rs = dedup_by rule_raw {} ps"
    using assms(2) by (auto simp: parse_rules_file_Inr)
  have "is_ascii l" if "l \<in> set (rule_lines content)" for l
    using that is_ascii_split [OF assms(1)] by (auto simp: rule_lines_def)
  then have "rule_wf U r" if "r \<in> set ps" for r
    using map_result_set [OF ps that] parse_rule_wf by blast
  then show ?thesis using dedup_by_subset [of rule_raw "{}" ps] by (auto simp: rules_ok_def rs)
qed

section \<open>Memory, disk and crashes\<close>

interpretation rules_file: durable_save persist_script
  by unfold_locales (simp add: persist_script_def temp_script_safe)

abbreviation raws :: "store \<Rightarrow> string list" where
  "raws s \<equiv> map rule_raw (st_rules s)"

definition st_ok :: "unicode \<Rightarrow> store \<Rightarrow> bool" where
  "st_ok U s \<longleftrightarrow> rules_ok U (st_rules s)"

text \<open>The canonical forms a later Load finds in the bytes of the rules file.\<close>

definition reload :: "unicode \<Rightarrow> string option \<Rightarrow> string list option" where
  "reload U b =
     (case b of None \<Rightarrow> Some []
      | Some t \<Rightarrow> (case parse_rules_file U t of Inl e \<Rightarrow> None | Inr rs \<Rightarrow> Some (map rule_raw rs)))"

definition crash_finds :: "unicode \<Rightarrow> fs \<Rightarrow> string \<Rightarrow> string list option set" where
  "crash_finds U fs p = reload U ` crash_reads fs p"

definition on_disk :: "unicode \<Rightarrow> fs \<Rightarrow> store \<Rightarrow> bool" where
  "on_disk U fs s \<longleftrightarrow>
     st_path s = [] \<or>
     (crash_finds U fs (st_path s) = {Some (raws s)} \<and>
      (\<forall>f. fs (st_path s) = Some f \<longrightarrow> is_ascii (file_data f)))"

definition one_save :: "unicode \<Rightarrow> store \<Rightarrow> fs \<Rightarrow> store \<Rightarrow> fs list \<Rightarrow> bool" where
  "one_save U s fs s' tr \<longleftrightarrow>
     st_path s' = st_path s \<and> st_ok U s' \<and> on_disk U (final_fs fs tr) s' \<and>
     (st_path s \<noteq> [] \<longrightarrow>
        (\<forall>g \<in> set tr. crash_finds U g (st_path s) \<subseteq> {Some (raws s), Some (raws s')}))"

lemma one_save_refl: "st_ok U s \<Longrightarrow> on_disk U fs s \<Longrightarrow> one_save U s fs s []"
  by (simp add: one_save_def final_fs_def)

lemma render_ascii: "\<forall>r \<in> set rs. rule_wf U r \<Longrightarrow> is_ascii (render_rules rs)"
proof -
  assume "\<forall>r \<in> set rs. rule_wf U r"
  then have "is_ascii (concat (map (\<lambda>r. rule_raw r @ [CHR 0x0A]) rs))"
    by (induction rs) (auto simp: rule_raw_line(6) [of U] byte_def)
  moreover have "is_ascii (rules_header @ [CHR 0x0A])" by code_simp
  ultimately show ?thesis by (simp add: render_rules_def)
qed

lemma crash_finds_rendered:
  assumes "rules_ok U rs" "fs p = Some (durable_file (render_rules rs))"
  shows "crash_finds U fs p = {Some (map rule_raw rs)}"
proof -
  have "map rule_raw (map reparsed rs) = map rule_raw rs"
    using assms(1) map_reparsed(2) rules_ok_def by blast
  then show ?thesis
    using assms by (simp add: crash_finds_def crash_reads_def durable_file_def reload_def
        parse_render_rules [OF assms(1)] del: map_map)
qed

lemma crash_finds_cong: "fs p = g p \<Longrightarrow> crash_finds U fs p = crash_finds U g p"
  by (simp add: crash_finds_def crash_reads_def)

lemma commit_one_save:
  assumes "commit F rs v s fs = (res, s', tr)" "rules_ok U rs" "st_ok U s" "on_disk U fs s"
  shows "one_save U s fs s' tr \<and> (is_ok res \<longrightarrow> s' = s\<lparr>st_rules := rs\<rparr>) \<and> (\<not> is_ok res \<longrightarrow> s' = s)"
proof (cases "st_path s = []")
  case True
  with assms show ?thesis
    by (auto simp: commit_def persist_locked_def one_save_def st_ok_def on_disk_def)
next
  case path: False
  let ?p = "st_path s"
  obtain t r where run: "run_script F (persist_script ?p (render_rules rs)) fs = (t, r)" by fastforce
  have new: "crash_finds U g ?p = {Some (map rule_raw rs)}"
    if "g ?p = Some (durable_file (render_rules rs))" for g
    using assms(2) that by (rule crash_finds_rendered)
  have old: "crash_finds U g ?p = {Some (raws s)}" if "g ?p = fs ?p" for g
    using crash_finds_cong [of g ?p fs] that assms(4) path by (simp add: on_disk_def)
  have asc: "is_ascii (render_rules rs)" using assms(2) render_ascii by (auto simp: rules_ok_def)
  show ?thesis
  proof (cases r)
    case None
    then have res: "tr = t" "s' = s\<lparr>st_rules := rs\<rparr>" "is_ok res"
      using assms(1) run path by (auto simp: commit_def persist_locked_def is_ok_conv)
    have fin: "final_fs fs t ?p = Some (durable_file (render_rules rs))"
      using rules_file.saved [OF run] None by simp
    have "on_disk U (final_fs fs t) s'"
      using new [of "final_fs fs t"] fin asc by (simp add: on_disk_def res durable_file_def)
    moreover have "crash_finds U g ?p \<subseteq> {Some (raws s), Some (raws s')}" if "g \<in> set t" for g
      using rules_file.in_flight [OF run that] old new by (auto simp: res)
    ultimately show ?thesis using assms(2) by (simp add: one_save_def res st_ok_def)
  next
    case (Some e)
    then have res: "tr = t" "s' = s" "\<not> is_ok res"
      using assms(1) run path by (auto simp: commit_def persist_locked_def is_ok_conv)
    have fin: "final_fs fs t ?p = fs ?p" using rules_file.saved [OF run] Some by simp
    have "on_disk U (final_fs fs t) s"
      using old [of "final_fs fs t"] fin assms(4) path by (simp add: on_disk_def)
    moreover have "crash_finds U g ?p = {Some (raws s)}" if "g \<in> set t" for g
      using rules_file.in_flight [OF run that] old Some by simp
    ultimately show ?thesis using assms(3) by (auto simp: one_save_def res st_ok_def)
  qed
qed

section \<open>Every operation keeps memory and disk in step\<close>

datatype store_op = DoLoad | DoSet "rule list" | DoAdd string | DoRemove string

fun op_ascii :: "store_op \<Rightarrow> bool" where
  "op_ascii DoLoad = True"
| "op_ascii (DoSet rs) = list_all (\<lambda>r. is_ascii (rule_raw r)) rs"
| "op_ascii (DoAdd raw) = is_ascii raw"
| "op_ascii (DoRemove raw) = is_ascii raw"

text \<open>One locked operation of the store: did it return nil, the new store, the disk states.\<close>

fun store_step :: "unicode \<Rightarrow> faults \<Rightarrow> store_op \<Rightarrow> store \<Rightarrow> fs \<Rightarrow> bool \<times> store \<times> fs list" where
  "store_step U F DoLoad s fs =
     (case store_load U (read_fs fs) s of (e, s') \<Rightarrow> (e = None, s', []))"
| "store_step U F (DoSet rs) s fs = (case store_set U F rs s fs of (r, s', tr) \<Rightarrow> (is_ok r, s', tr))"
| "store_step U F (DoAdd raw) s fs = (case store_add U F raw s fs of (r, s', tr) \<Rightarrow> (is_ok r, s', tr))"
| "store_step U F (DoRemove raw) s fs =
     (case store_remove U F raw s fs of (r, s', tr) \<Rightarrow> (is_ok r, s', tr))"

lemma rules_ok_snoc:
  "rules_ok U rs \<Longrightarrow> rule_wf U r \<Longrightarrow> find (\<lambda>x. rule_raw x = rule_raw r) rs = None \<Longrightarrow> rules_ok U (rs @ [r])"
  by (auto simp: rules_ok_def find_None_iff)

lemma rules_ok_filter: "rules_ok U rs \<Longrightarrow> rules_ok U (filter P rs)"
  by (auto simp: rules_ok_def distinct_map_filter_key)

lemma clean_rules_ok:
  assumes "list_all (\<lambda>r. is_ascii (rule_raw r)) rs" "clean_rules U {} rs = Inr cs"
  shows "rules_ok U cs"
proof -
  obtain ps where ps: "map_result (\<lambda>r. parse_rule U (rule_raw r)) rs = Inr ps"
    and cs: "cs = dedup_by rule_raw {} ps"
    using assms(2) by (auto simp: clean_rules_eq split: sum.splits)
  have "rule_wf U r" if "r \<in> set ps" for r
    using map_result_set [OF ps that] assms(1) parse_rule_wf by (fastforce simp: list_all_iff)
  then show ?thesis using dedup_by_subset [of rule_raw "{}" ps] by (auto simp: rules_ok_def cs)
qed

lemma load_one_save:
  assumes "store_load U (read_fs fs) s = (e, s')" "st_ok U s" "on_disk U fs s"
  shows "one_save U s fs s' [] \<and> raws s' = (if st_path s = [] then [] else raws s)"
proof (cases "st_path s = [] \<or> fs (st_path s) = None")
  case True
  have "st_path s = [] \<or> raws s = []"
    using True assms(3) by (auto simp: on_disk_def crash_finds_def crash_reads_def reload_def)
  moreover have "s' = s\<lparr>st_rules := []\<rparr>"
    using True assms(1) by (auto simp: store_load_def read_fs_def split: if_splits)
  ultimately show ?thesis
    using assms(3) by (auto simp: one_save_def st_ok_def rules_ok_def final_fs_def on_disk_def)
next
  case False
  then obtain f where f: "fs (st_path s) = Some f" and path: "st_path s \<noteq> []" by auto
  have finds: "crash_finds U fs (st_path s) = {Some (raws s)}" "is_ascii (file_data f)"
    using assms(3) path f by (auto simp: on_disk_def)
  have "Some (file_data f) \<in> crash_reads fs (st_path s)" by (simp add: crash_reads_def f)
  then have "reload U (Some (file_data f)) = Some (raws s)" using finds(1) by (auto simp: crash_finds_def)
  then obtain rs where rs: "parse_rules_file U (file_data f) = Inr rs" "map rule_raw rs = raws s"
    by (auto simp: reload_def split: sum.splits)
  then have "s' = s\<lparr>st_rules := rs\<rparr>"
    using assms(1) f path by (simp add: store_load_def read_fs_def)
  then show ?thesis
    using assms(3) rs parse_rules_file_ok [OF finds(2) rs(1)] path
    by (simp add: one_save_def st_ok_def final_fs_def on_disk_def)
qed

lemma set_one_save:
  assumes "store_set U F rs s fs = (q, s', tr)" "list_all (\<lambda>r. is_ascii (rule_raw r)) rs"
    "st_ok U s" "on_disk U fs s"
  shows "one_save U s fs s' tr \<and> (\<not> is_ok q \<longrightarrow> s' = s)"
proof (cases "clean_rules U {} rs")
  case (Inl e)
  with assms(1) have "s' = s \<and> tr = []" by (simp add: store_set_def)
  with assms show ?thesis by (simp add: one_save_refl)
next
  case (Inr cs)
  with assms(1) have c: "commit F cs () s fs = (q, s', tr)" by (simp add: store_set_def)
  from commit_one_save [OF c clean_rules_ok [OF assms(2) Inr] assms(3,4)] show ?thesis by simp
qed

lemma add_one_save:
  assumes "store_add U F raw s fs = (q, s', tr)" "is_ascii raw" "st_ok U s" "on_disk U fs s"
  shows "one_save U s fs s' tr \<and> (\<not> is_ok q \<longrightarrow> s' = s)"
proof (cases "parse_rule U raw")
  case (Inl e)
  with assms(1) have "s' = s \<and> tr = []" by (simp add: store_add_def)
  with assms show ?thesis by (simp add: one_save_refl)
next
  case (Inr r)
  show ?thesis
  proof (cases "find (\<lambda>x. rule_raw x = rule_raw r) (st_rules s)")
    case (Some old)
    with assms(1) Inr have "s' = s \<and> tr = []" by (simp add: store_add_def)
    with assms show ?thesis by (simp add: one_save_refl)
  next
    case None
    with assms(1) Inr have c: "commit F (st_rules s @ [r]) r s fs = (q, s', tr)"
      by (simp add: store_add_def)
    have ok: "rules_ok U (st_rules s @ [r])"
      using assms(2,3) Inr None parse_rule_wf rules_ok_snoc unfolding st_ok_def by blast
    from commit_one_save [OF c ok assms(3,4)] show ?thesis by simp
  qed
qed

lemma remove_one_save:
  assumes "store_remove U F raw s fs = (q, s', tr)" "st_ok U s" "on_disk U fs s"
  shows "one_save U s fs s' tr \<and> (\<not> is_ok q \<longrightarrow> s' = s)"
proof (cases "parse_rule U raw")
  case (Inl e)
  with assms(1) have "s' = s \<and> tr = []" by (simp add: store_remove_def)
  with assms show ?thesis by (simp add: one_save_refl)
next
  case (Inr r)
  let ?rest = "filter (\<lambda>x. rule_raw x \<noteq> rule_raw r) (st_rules s)"
  show ?thesis
  proof (cases "\<exists>x \<in> set (st_rules s). rule_raw x = rule_raw r")
    case False
    with assms(1) Inr have "s' = s \<and> tr = []" unfolding store_remove_def Let_def by simp
    with assms show ?thesis by (simp add: one_save_refl)
  next
    case True
    with assms(1) Inr have c: "commit F ?rest True s fs = (q, s', tr)"
      unfolding store_remove_def Let_def by simp
    have ok: "rules_ok U ?rest" using assms(2) by (simp add: st_ok_def rules_ok_filter)
    from commit_one_save [OF c ok assms(2,3)] show ?thesis by simp
  qed
qed

lemma store_step_one_save:
  assumes "store_step U F opn s fs = (ok, s', tr)" "op_ascii opn" "st_ok U s" "on_disk U fs s"
  shows "one_save U s fs s' tr \<and> (\<not> ok \<longrightarrow> s' = s)"
proof (cases opn)
  case DoLoad
  obtain e t where e: "store_load U (read_fs fs) s = (e, t)" by fastforce
  with DoLoad assms(1) have r: "ok = (e = None)" "t = s'" "tr = []" by auto
  have "e \<noteq> None \<Longrightarrow> t = s"
    using e by (auto simp: store_load_def split: if_splits read_result.splits sum.splits)
  then show ?thesis using load_one_save [OF e assms(3,4)] r by auto
next
  case (DoSet rs)
  obtain q t u where e: "store_set U F rs s fs = (q, t, u)" by (metis prod_cases3)
  with DoSet assms(1) have "ok = is_ok q" "t = s'" "u = tr" by auto
  then show ?thesis using set_one_save [OF e] DoSet assms(2-4) by simp
next
  case (DoAdd raw)
  obtain q t u where e: "store_add U F raw s fs = (q, t, u)" by (metis prod_cases3)
  with DoAdd assms(1) have "ok = is_ok q" "t = s'" "u = tr" by auto
  then show ?thesis using add_one_save [OF e] DoAdd assms(2-4) by simp
next
  case (DoRemove raw)
  obtain q t u where e: "store_remove U F raw s fs = (q, t, u)" by (metis prod_cases3)
  with DoRemove assms(1) have "ok = is_ok q" "t = s'" "u = tr" by auto
  then show ?thesis using remove_one_save [OF e] assms(3,4) by simp
qed

section \<open>The interface the manager uses\<close>

text \<open>
  A rule store seen from outside: the list of canonical names, how a raw line is turned into
  its name, and mutators that report success. The laws are those of a list without
  duplicates; a failing mutator changes no name.
\<close>

locale rule_store =
  fixes inv :: "'s \<Rightarrow> bool"
    and names :: "'s \<Rightarrow> string list"
    and fine :: "string \<Rightarrow> bool"
    and canon :: "string \<Rightarrow> string option"
    and add :: "'e \<Rightarrow> string \<Rightarrow> 's \<Rightarrow> bool \<times> 's"
    and remove :: "'e \<Rightarrow> string \<Rightarrow> 's \<Rightarrow> bool \<times> 's"
  assumes inv_distinct: "inv s \<Longrightarrow> distinct (names s)"
    and add_inv: "inv s \<Longrightarrow> fine x \<Longrightarrow> inv (snd (add e x s))"
    and remove_inv: "inv s \<Longrightarrow> fine x \<Longrightarrow> inv (snd (remove e x s))"
    and add_names: "fst (add e x s) \<Longrightarrow> \<exists>c. canon x = Some c \<and>
      names (snd (add e x s)) = (if c \<in> set (names s) then names s else names s @ [c])"
    and remove_names: "fst (remove e x s) \<Longrightarrow> \<exists>c. canon x = Some c \<and>
      names (snd (remove e x s)) = filter (\<lambda>n. n \<noteq> c) (names s)"
    and add_fails: "\<not> fst (add e x s) \<Longrightarrow> names (snd (add e x s)) = names s"
    and remove_fails: "\<not> fst (remove e x s) \<Longrightarrow> names (snd (remove e x s)) = names s"
begin

lemma added: "fst (add e x s) \<Longrightarrow> canon x = Some c \<Longrightarrow> c \<in> set (names (snd (add e x s)))"
  using add_names [of e x s] by auto

lemma removed: "fst (remove e x s) \<Longrightarrow> canon x = Some c \<Longrightarrow> c \<notin> set (names (snd (remove e x s)))"
  using remove_names [of e x s] by auto

lemma others_kept:
  "canon x = Some c \<Longrightarrow> n \<noteq> c \<Longrightarrow> n \<in> set (names (snd (add e x s))) \<longleftrightarrow> n \<in> set (names s)"
  "canon x = Some c \<Longrightarrow> n \<noteq> c \<Longrightarrow> n \<in> set (names (snd (remove e x s))) \<longleftrightarrow> n \<in> set (names s)"
  subgoal using add_names [of e x s] add_fails [of e x s] by (cases "fst (add e x s)") auto
  subgoal using remove_names [of e x s] remove_fails [of e x s] by (cases "fst (remove e x s)") auto
  done

lemma add_twice:
  "fst (add e x s) \<Longrightarrow> fst (add d x (snd (add e x s))) \<Longrightarrow>
     names (snd (add d x (snd (add e x s)))) = names (snd (add e x s))"
  using add_names [of e x s] add_names [of d x "snd (add e x s)"] by (auto split: if_splits)

lemma add_then_remove:
  assumes "canon x = Some c" "canon y = Some c" "c \<notin> set (names s)"
    and "fst (add e x s)" "fst (remove d y (snd (add e x s)))"
  shows "names (snd (remove d y (snd (add e x s)))) = names s"
proof -
  have "names (snd (add e x s)) = names s @ [c]" using add_names [OF assms(4)] assms(1,3) by auto
  moreover have "filter (\<lambda>n. n \<noteq> c) (names s) = names s" using assms(3) by (auto simp: filter_id_conv)
  ultimately show ?thesis using remove_names [OF assms(5)] assms(2) by auto
qed

end

definition canon_of :: "unicode \<Rightarrow> string \<Rightarrow> string option" where
  "canon_of U raw = (case parse_rule U raw of Inl e \<Rightarrow> None | Inr r \<Rightarrow> Some (rule_raw r))"

definition add_on :: "unicode \<Rightarrow> faults \<Rightarrow> string \<Rightarrow> store \<times> fs \<Rightarrow> bool \<times> store \<times> fs" where
  "add_on U F raw w =
     (case store_add U F raw (fst w) (snd w) of (q, s', tr) \<Rightarrow> (is_ok q, s', final_fs (snd w) tr))"

definition remove_on :: "unicode \<Rightarrow> faults \<Rightarrow> string \<Rightarrow> store \<times> fs \<Rightarrow> bool \<times> store \<times> fs" where
  "remove_on U F raw w =
     (case store_remove U F raw (fst w) (snd w) of (q, s', tr) \<Rightarrow> (is_ok q, s', final_fs (snd w) tr))"

definition world_ok :: "unicode \<Rightarrow> store \<times> fs \<Rightarrow> bool" where
  "world_ok U w \<longleftrightarrow> st_ok U (fst w) \<and> on_disk U (snd w) (fst w)"

lemma commit_cases:
  "commit F rs v s fs = (q, s', tr) \<Longrightarrow>
     (q = Inr v \<and> s' = s\<lparr>st_rules := rs\<rparr>) \<or> (\<exists>e. q = Inl (PersistError e) \<and> s' = s)"
  by (auto simp: commit_def split: prod.splits option.splits)

lemma store_add_cases:
  assumes "store_add U F raw s fs = (q, s', tr)"
  shows "(\<exists>e. q = Inl e \<and> s' = s) \<or>
    (\<exists>r. parse_rule U raw = Inr r \<and> is_ok q \<and>
       raws s' = (if rule_raw r \<in> set (raws s) then raws s else raws s @ [rule_raw r]))"
proof (cases "parse_rule U raw")
  case (Inr r)
  show ?thesis
  proof (cases "find (\<lambda>x. rule_raw x = rule_raw r) (st_rules s)")
    case None
    with Inr assms have "commit F (st_rules s @ [r]) r s fs = (q, s', tr)" by (simp add: store_add_def)
    from commit_cases [OF this] None Inr show ?thesis by (auto simp: find_None_iff is_ok_conv)
  next
    case (Some old)
    then have "rule_raw r \<in> set (raws s)" using find_Some_in [OF Some] by (metis image_eqI set_map)
    with Some Inr assms show ?thesis by (auto simp: store_add_def is_ok_conv)
  qed
qed (use assms in \<open>auto simp: store_add_def\<close>)

lemma filter_raws: "map rule_raw (filter (\<lambda>x. rule_raw x \<noteq> c) rs) = filter (\<lambda>n. n \<noteq> c) (map rule_raw rs)"
  by (induction rs) auto

lemma store_remove_cases:
  assumes "store_remove U F raw s fs = (q, s', tr)"
  shows "(\<exists>e. q = Inl e \<and> s' = s) \<or>
    (\<exists>r. parse_rule U raw = Inr r \<and> q = Inr (rule_raw r \<in> set (raws s)) \<and>
       raws s' = filter (\<lambda>n. n \<noteq> rule_raw r) (raws s))"
proof (cases "parse_rule U raw")
  case (Inr r)
  let ?rest = "filter (\<lambda>x. rule_raw x \<noteq> rule_raw r) (st_rules s)"
  show ?thesis
  proof (cases "\<exists>x \<in> set (st_rules s). rule_raw x = rule_raw r")
    case True
    then have "rule_raw r \<in> set (raws s)" by (metis image_eqI set_map)
    moreover from True Inr assms have "commit F ?rest True s fs = (q, s', tr)"
      unfolding store_remove_def Let_def by simp
    ultimately show ?thesis using commit_cases [of F ?rest True s fs q s' tr] Inr
      by (auto simp: filter_raws)
  next
    case False
    then have "filter (\<lambda>n. n \<noteq> rule_raw r) (raws s) = raws s" by (auto simp: filter_id_conv)
    with False Inr assms show ?thesis unfolding store_remove_def Let_def by auto
  qed
qed (use assms in \<open>auto simp: store_remove_def\<close>)

lemma add_on_split:
  obtains q s' tr where "store_add U F raw (fst w) (snd w) = (q, s', tr)"
    "add_on U F raw w = (is_ok q, s', final_fs (snd w) tr)"
  by (cases "store_add U F raw (fst w) (snd w)") (auto simp: add_on_def)

lemma remove_on_split:
  obtains q s' tr where "store_remove U F raw (fst w) (snd w) = (q, s', tr)"
    "remove_on U F raw w = (is_ok q, s', final_fs (snd w) tr)"
  by (cases "store_remove U F raw (fst w) (snd w)") (auto simp: remove_on_def)

lemma is_ok_simps [simp]: "is_ok (Inr a)" "\<not> is_ok (Inl e)"
  by (simp_all add: is_ok_conv)

interpretation rules: rule_store
    "world_ok U" "\<lambda>w. raws (fst w)" is_ascii "canon_of U" "add_on U" "remove_on U" for U
proof (unfold_locales, goal_cases)
  case (1 w)
  then show ?case by (simp add: world_ok_def st_ok_def rules_ok_def)
next
  case (2 w x F)
  obtain q s' tr where a: "store_add U F x (fst w) (snd w) = (q, s', tr)"
    "add_on U F x w = (is_ok q, s', final_fs (snd w) tr)" by (rule add_on_split)
  with add_one_save [OF a(1)] 2 show ?case by (auto simp: world_ok_def one_save_def)
next
  case (3 w x F)
  obtain q s' tr where a: "store_remove U F x (fst w) (snd w) = (q, s', tr)"
    "remove_on U F x w = (is_ok q, s', final_fs (snd w) tr)" by (rule remove_on_split)
  with remove_one_save [OF a(1)] 3 show ?case by (auto simp: world_ok_def one_save_def)
next
  case (4 F x w)
  obtain q s' tr where a: "store_add U F x (fst w) (snd w) = (q, s', tr)"
    "add_on U F x w = (is_ok q, s', final_fs (snd w) tr)" by (rule add_on_split)
  with store_add_cases [OF a(1)] 4 show ?case by (auto simp: canon_of_def)
next
  case (5 F x w)
  obtain q s' tr where a: "store_remove U F x (fst w) (snd w) = (q, s', tr)"
    "remove_on U F x w = (is_ok q, s', final_fs (snd w) tr)" by (rule remove_on_split)
  with store_remove_cases [OF a(1)] 5 show ?case by (auto simp: canon_of_def)
next
  case (6 F x w)
  obtain q s' tr where a: "store_add U F x (fst w) (snd w) = (q, s', tr)"
    "add_on U F x w = (is_ok q, s', final_fs (snd w) tr)" by (rule add_on_split)
  with store_add_cases [OF a(1)] 6 show ?case by auto
next
  case (7 F x w)
  obtain q s' tr where a: "store_remove U F x (fst w) (snd w) = (q, s', tr)"
    "remove_on U F x w = (is_ok q, s', final_fs (snd w) tr)" by (rule remove_on_split)
  with store_remove_cases [OF a(1)] 7 show ?case by auto
qed

section \<open>Histories of the store\<close>

fun store_history :: "unicode \<Rightarrow> (faults \<times> store_op) list \<Rightarrow> store \<times> fs \<Rightarrow> store \<times> fs" where
  "store_history U [] w = w"
| "store_history U ((F, opn) # ops) w =
     (case store_step U F opn (fst w) (snd w) of
        (ok, s', tr) \<Rightarrow> store_history U ops (s', final_fs (snd w) tr))"

lemma store_history_ok:
  "world_ok U w \<Longrightarrow> list_all (\<lambda>(F, opn). op_ascii opn) ops \<Longrightarrow>
     world_ok U (store_history U ops w) \<and> st_path (fst (store_history U ops w)) = st_path (fst w)"
proof (induction ops arbitrary: w)
  case (Cons a ops)
  obtain F opn where a: "a = (F, opn)" by fastforce
  obtain ok s' tr where st: "store_step U F opn (fst w) (snd w) = (ok, s', tr)" by (metis prod_cases3)
  have "one_save U (fst w) (snd w) s' tr"
    using store_step_one_save [OF st] Cons.prems by (simp add: a world_ok_def)
  then have "world_ok U (s', final_fs (snd w) tr)" "st_path s' = st_path (fst w)"
    by (simp_all add: one_save_def world_ok_def)
  with Cons show ?case by (simp add: a st)
qed simp

lemma first_load_ok:
  assumes "\<forall>f. fs p = Some f \<longrightarrow> file_durable f \<and> is_ascii (file_data f)"
    and "store_load U (read_fs fs) (new_store p) = (None, s)"
  shows "world_ok U (s, fs) \<and> st_path s = p"
proof (cases "p = [] \<or> fs p = None")
  case True
  then have "s = new_store p"
    using assms(2) by (auto simp: store_load_def read_fs_def new_store_def split: if_splits)
  with True show ?thesis
    by (auto simp: new_store_def world_ok_def st_ok_def rules_ok_def on_disk_def crash_finds_def
        crash_reads_def reload_def)
next
  case False
  then obtain f where f: "fs p = Some f" and p: "p \<noteq> []" by auto
  then obtain rs where rs: "parse_rules_file U (file_data f) = Inr rs" "s = \<lparr>st_path = p, st_rules = rs\<rparr>"
    using assms(2) by (auto simp: store_load_def read_fs_def new_store_def split: sum.splits)
  have "file_durable f" "is_ascii (file_data f)" using assms(1) f by auto
  with f rs parse_rules_file_ok [OF _ rs(1)] show ?thesis
    by (simp add: world_ok_def st_ok_def on_disk_def crash_finds_def crash_reads_def reload_def)
qed

section \<open>Properties of the store\<close>

text \<open>
  What persistLocked writes is read back by ParseRulesFile: the file parses, and yields
  the same canonical forms in the same order (each rule as ParseRule reads its Raw).
\<close>

theorem rules_file_roundtrip:
  assumes "rules_ok U rs"
  shows "parse_rules_file U (render_rules rs) = Inr (map reparsed rs) \<and>
    map rule_raw (map reparsed rs) = map rule_raw rs"
  using parse_render_rules [OF assms] map_reparsed(2) assms unfolding rules_ok_def by blast

theorem rules_file_roundtrip_witness:
  "parse_rules_file ascii_tables
     (render_rules [net_rule (Net4 0x0A000000 8) (Net4 0x0A000000 8), suffix_rule ''lan'']) =
   Inr [net_rule (Net4 0x0A000000 8) (Net4 0x0A000000 8), suffix_rule ''lan'']"
proof -
  let ?rs = "[net_rule (Net4 0x0A000000 8) (Net4 0x0A000000 8), suffix_rule ''lan'']"
  have p: "parse_rules_file ascii_tables (''10.1.2.3/8'' @ [CHR 0x0A] @ ''*.LAN'') = Inr ?rs" by code_simp
  have "is_ascii (''10.1.2.3/8'' @ [CHR 0x0A] @ ''*.LAN'')" by code_simp
  from rules_file_roundtrip [OF parse_rules_file_ok [OF this p]]
  have "parse_rules_file ascii_tables (render_rules ?rs) = Inr (map reparsed ?rs)" ..
  also have "map reparsed ?rs = ?rs" by code_simp
  finally show ?thesis .
qed

text \<open>
  C3: memory and disk never drift apart. Start from a rules file that is on disk (or absent)
  and a successful Load; run any sequence of Load, Set, Add and Remove on ASCII input, with
  any of their file operations failing. Then the rules in memory are well formed and free of
  duplicates, and a process that crashes at this point finds, when it loads the file again,
  exactly the canonical forms that were in memory.
\<close>

theorem store_memory_matches_disk:
  assumes "\<forall>f. fs p = Some f \<longrightarrow> file_durable f \<and> is_ascii (file_data f)"
    and "store_load U (read_fs fs) (new_store p) = (None, s)"
    and "list_all (\<lambda>(F, opn). op_ascii opn) ops"
    and "store_history U ops (s, fs) = (s', fs')" and "p \<noteq> []"
  shows "rules_ok U (st_rules s') \<and> crash_finds U fs' p = {Some (map rule_raw (st_rules s'))}"
proof -
  have w: "world_ok U (s, fs)" "st_path s = p" using first_load_ok [OF assms(1,2)] by simp_all
  from store_history_ok [OF w(1) assms(3)] w(2) show ?thesis
    using assms(4,5) by (auto simp: world_ok_def st_ok_def on_disk_def)
qed

definition sample_ops :: "(faults \<times> store_op) list" where
  "sample_ops =
     [(no_faults, DoAdd ''10.0.0.0/8''), (no_faults, DoAdd ''Example.ORG.''),
      (\<lambda>c. case c of SyncFile p \<Rightarrow> Some 0 | _ \<Rightarrow> None, DoAdd ''lost.example''),
      (no_faults, DoRemove ''10.1.1.1/8'')]"

theorem store_memory_matches_disk_witness:
  "crash_finds ascii_tables (snd (store_history ascii_tables sample_ops (new_store ''r'', Map.empty))) ''r'' =
     {Some [''example.org'']}"
proof -
  let ?h = "store_history ascii_tables sample_ops (new_store ''r'', Map.empty)"
  have "\<forall>f. (Map.empty :: fs) ''r'' = Some f \<longrightarrow> file_durable f \<and> is_ascii (file_data f)" by simp
  moreover have "store_load ascii_tables (read_fs Map.empty) (new_store ''r'') = (None, new_store ''r'')"
    by code_simp
  moreover have "list_all (\<lambda>(F, opn). op_ascii opn) sample_ops" by code_simp
  ultimately have "crash_finds ascii_tables (snd ?h) ''r'' = {Some (map rule_raw (st_rules (fst ?h)))}"
    using store_memory_matches_disk [of Map.empty "''r''" ascii_tables "new_store ''r''" sample_ops "fst ?h" "snd ?h"]
    by simp
  moreover have "map rule_raw (st_rules (fst ?h)) = [''example.org'']" by code_simp
  ultimately show ?thesis by simp
qed

text \<open>
  C12: the save is crash safe. Whatever file operation fails, a crash between any two of them
  leaves a file from which Load reads either all the rules from before the operation or all
  the rules from after it; and an operation that returns an error has changed nothing in
  memory.
\<close>

theorem store_step_crash_safe:
  assumes "store_step U F opn s fs = (ok, s', tr)" "op_ascii opn" "st_ok U s" "on_disk U fs s"
    and "st_path s \<noteq> []" "g \<in> set tr"
  shows "crash_finds U g (st_path s) \<subseteq>
      {Some (map rule_raw (st_rules s)), Some (map rule_raw (st_rules s'))} \<and> (\<not> ok \<longrightarrow> s' = s)"
  using store_step_one_save [OF assms(1-4)] assms(5,6) by (simp add: one_save_def)

theorem store_step_crash_safe_witness:
  "list_all (\<lambda>g. crash_finds ascii_tables g ''r'' \<subseteq> {Some [], Some [''a.b'']})
     (snd (snd (store_step ascii_tables no_faults (DoAdd ''a.b'') (new_store ''r'') Map.empty)))"
  unfolding list_all_iff
proof
  let ?st = "store_step ascii_tables no_faults (DoAdd ''a.b'') (new_store ''r'') Map.empty"
  fix g assume g: "g \<in> set (snd (snd ?st))"
  have "world_ok ascii_tables (new_store ''r'', Map.empty)"
    using first_load_ok [of Map.empty "''r''" ascii_tables "new_store ''r''"]
    by (simp add: store_load_def read_fs_def new_store_def)
  moreover have "st_path (new_store ''r'') = ''r''" "st_rules (new_store ''r'') = []" "is_ascii ''a.b''"
    "map rule_raw (st_rules (fst (snd ?st))) = [''a.b'']" by code_simp+
  ultimately show "crash_finds ascii_tables g ''r'' \<subseteq> {Some [], Some [''a.b'']}"
    using store_step_crash_safe [of ascii_tables no_faults "DoAdd ''a.b''" "new_store ''r''" Map.empty
      "fst ?st" "fst (snd ?st)" "snd (snd ?st)" g] g
    unfolding world_ok_def by simp
qed

text \<open>
  Add and Remove are set operations on canonical forms: adding a rule that is not there
  and removing it again (in any spelling of the same canonical form) restores the list, and
  the second call reports that it found the rule.
\<close>

theorem store_add_then_remove:
  assumes "parse_rule U raw = Inr r" "parse_rule U raw' = Inr r'" "rule_raw r' = rule_raw r"
    and "rule_raw r \<notin> set (map rule_raw (st_rules s))"
    and "store_add U F raw s fs = (Inr q, s1, tr1)"
    and "store_remove U G raw' s1 (final_fs fs tr1) = (Inr found, s2, tr2)"
  shows "found \<and> map rule_raw (st_rules s2) = map rule_raw (st_rules s)"
proof -
  let ?w = "(s, fs)"
  have a: "add_on U F raw ?w = (True, s1, final_fs fs tr1)" by (simp add: add_on_def assms(5))
  have r: "remove_on U G raw' (s1, final_fs fs tr1) = (True, s2, final_fs (final_fs fs tr1) tr2)"
    by (simp add: remove_on_def assms(6))
  have c: "canon_of U raw = Some (rule_raw r)" "canon_of U raw' = Some (rule_raw r)"
    using assms(1-3) by (simp_all add: canon_of_def)
  have m: "rule_raw r \<in> set (raws s1)" using rules.added [of U F raw ?w, OF _ c(1)] a by simp
  have "found" using store_remove_cases [OF assms(6)] assms(2,3) m by auto
  moreover have "raws s2 = raws s"
    using rules.add_then_remove [OF c, of ?w F G] assms(4) a r by simp
  ultimately show ?thesis ..
qed

theorem store_add_then_remove_witness:
  "fst (snd (store_remove ascii_tables no_faults ''1.2.3.9/24'' \<lparr>st_path = [], st_rules =
      [net_rule (Net4 0x01020300 24) (Net4 0x01020300 24)]\<rparr> Map.empty)) = new_store []"
proof -
  let ?r = "net_rule (Net4 0x01020300 24) (Net4 0x01020300 24)"
  let ?s1 = "\<lparr>st_path = [], st_rules = [?r]\<rparr>"
  have p: "parse_rule ascii_tables ''1.2.3.4/24'' = Inr ?r" "parse_rule ascii_tables ''1.2.3.9/24'' = Inr ?r"
    by code_simp+
  have a: "store_add ascii_tables no_faults ''1.2.3.4/24'' (new_store []) Map.empty = (Inr ?r, ?s1, [])"
    by (simp add: store_add_def p new_store_def commit_def persist_locked_def)
  have r: "store_remove ascii_tables no_faults ''1.2.3.9/24'' ?s1 (final_fs Map.empty []) =
      (Inr True, new_store [], [])"
    by (simp add: store_remove_def p new_store_def commit_def persist_locked_def)
  from store_add_then_remove [OF p refl _ a r] show ?thesis
    using r by (simp add: final_fs_def new_store_def)
qed

end
