(* ===== verification/Bypass_Manager.thy ===== *)
theory Bypass_Manager
  imports Bypass_Matcher Bypass_Store "HOL-Library.Multiset"
begin

text \<open>
  \<open>internal/bypass/manager.go\<close>: the manager that owns the user rules, the static networks and
  the addresses resolved for domain rules. DNS is a parameter of the operations that use it.
  The number of \<open>OnChange\<close> calls is part of the state. Operations are atomic here; the last
  section takes \<open>AddRule\<close> apart into the steps between which another goroutine may run.
\<close>

section \<open>State\<close>

type_synonym lookup = "string \<Rightarrow> string + ip list"

record manager =
  mg_store :: store
  mg_static :: "ipnet list"
  mg_matcher :: matcher
  mg_resolved :: "ipnet list"
  mg_error :: string
  mg_changes :: nat

definition rebuild_matcher :: "manager \<Rightarrow> manager" where
  "rebuild_matcher m = m\<lparr>mg_matcher := Some (store_rules (mg_store m))\<rparr>"

definition notify :: "manager \<Rightarrow> manager" where
  "notify m = m\<lparr>mg_changes := mg_changes m + 1\<rparr>"

definition new_manager :: "store option \<Rightarrow> ipnet list \<Rightarrow> manager" where
  "new_manager st static =
     rebuild_matcher
       \<lparr>mg_store = (case st of Some s \<Rightarrow> s | None \<Rightarrow> new_store []), mg_static = static,
        mg_matcher = None, mg_resolved = [], mg_error = [], mg_changes = 0\<rparr>"

section \<open>Refresh\<close>

fun same_nets_loop :: "(string \<Rightarrow> nat) \<Rightarrow> ipnet list \<Rightarrow> bool" where
  "same_nets_loop cnt [] = True"
| "same_nets_loop cnt (n # ns) =
     (let k = show_net n in
      if cnt k = 0 then False else same_nets_loop (cnt(k := cnt k - 1)) ns)"

fun count_nets :: "(string \<Rightarrow> nat) \<Rightarrow> ipnet list \<Rightarrow> (string \<Rightarrow> nat)" where
  "count_nets cnt [] = cnt"
| "count_nets cnt (n # ns) = count_nets (cnt(show_net n := cnt (show_net n) + 1)) ns"

definition same_nets :: "ipnet list \<Rightarrow> ipnet list \<Rightarrow> bool" where
  "same_nets a b =
     (if length a \<noteq> length b then False else same_nets_loop (count_nets (\<lambda>_. 0) a) b)"

fun v4_hosts :: "ip list \<Rightarrow> ipnet list" where
  "v4_hosts [] = []"
| "v4_hosts (a # as) =
     (case to4 a of Some v4 \<Rightarrow> Net4 v4 32 # v4_hosts as | None \<Rightarrow> v4_hosts as)"

fun resolve_hosts :: "lookup \<Rightarrow> string list \<Rightarrow> ipnet list \<times> string option" where
  "resolve_hosts L [] = ([], None)"
| "resolve_hosts L (h # hs) =
     (case (L h, resolve_hosts L hs) of
        (Inl e, (nets, err)) \<Rightarrow> (nets, Some e)
      | (Inr ips, (nets, err)) \<Rightarrow> (v4_hosts ips @ nets, err))"

definition refresh :: "lookup \<Rightarrow> manager \<Rightarrow> string option \<times> manager" where
  "refresh L m =
     (case resolve_hosts L (domains_to_resolve (store_rules (mg_store m))) of
        (nets, first_err) \<Rightarrow>
          (let changed = \<not> same_nets (mg_resolved m) nets;
               m' = m\<lparr>mg_resolved := nets,
                     mg_error := (case first_err of Some e \<Rightarrow> e | None \<Rightarrow> [])\<rparr>
           in (first_err, if changed then notify m' else m')))"

text \<open>The ticker loop: a list of the events the select sees, \<open>True\<close> for a tick.\<close>

fun run_refresh_loop :: "(bool \<times> lookup) list \<Rightarrow> manager \<Rightarrow> manager" where
  "run_refresh_loop [] m = m"
| "run_refresh_loop ((tick, L) # evs) m =
     (if tick then run_refresh_loop evs (snd (refresh L m)) else m)"

section \<open>Changing rules\<close>

datatype manager_error = StoreErr store_error | DNSErr string

definition manager_load ::
  "unicode \<Rightarrow> (string \<Rightarrow> read_result) \<Rightarrow> lookup \<Rightarrow> manager \<Rightarrow> manager_error option \<times> manager" where
  "manager_load U read L m =
     (case store_load U read (mg_store m) of
        (Some e, s') \<Rightarrow> (Some (StoreErr e), m\<lparr>mg_store := s'\<rparr>)
      | (None, s') \<Rightarrow>
          (case refresh L (rebuild_matcher (m\<lparr>mg_store := s'\<rparr>)) of
             (e, m') \<Rightarrow> (map_option DNSErr e, m')))"

definition set_static :: "ipnet list \<Rightarrow> manager \<Rightarrow> manager" where
  "set_static nets m = notify (m\<lparr>mg_static := nets\<rparr>)"

definition manager_rules :: "manager \<Rightarrow> rule list" where
  "manager_rules m = store_rules (mg_store m)"

definition add_rule ::
  "unicode \<Rightarrow> faults \<Rightarrow> lookup \<Rightarrow> string \<Rightarrow> manager \<Rightarrow> fs \<Rightarrow> (store_error + rule) \<times> manager \<times> fs list" where
  "add_rule U F L raw m fs =
     (case store_add U F raw (mg_store m) fs of
        (Inl e, s', tr) \<Rightarrow> (Inl e, m\<lparr>mg_store := s'\<rparr>, tr)
      | (Inr r, s', tr) \<Rightarrow> (Inr r, snd (refresh L (rebuild_matcher (m\<lparr>mg_store := s'\<rparr>))), tr))"

definition remove_rule ::
  "unicode \<Rightarrow> faults \<Rightarrow> lookup \<Rightarrow> string \<Rightarrow> manager \<Rightarrow> fs \<Rightarrow> (store_error + bool) \<times> manager \<times> fs list" where
  "remove_rule U F L raw m fs =
     (case store_remove U F raw (mg_store m) fs of
        (Inl e, s', tr) \<Rightarrow> (Inl e, m\<lparr>mg_store := s'\<rparr>, tr)
      | (Inr ok, s', tr) \<Rightarrow>
          if \<not> ok then (Inr False, m\<lparr>mg_store := s'\<rparr>, tr)
          else (Inr True, snd (refresh L (rebuild_matcher (m\<lparr>mg_store := s'\<rparr>))), tr))"

definition set_rules ::
  "unicode \<Rightarrow> faults \<Rightarrow> lookup \<Rightarrow> string list \<Rightarrow> manager \<Rightarrow> fs \<Rightarrow>
     manager_error option \<times> manager \<times> fs list" where
  "set_rules U F L lines m fs =
     (case map_result (parse_rule U) lines of
        Inl e \<Rightarrow> (Some (StoreErr (BadRule e)), m, [])
      | Inr rs \<Rightarrow>
          (case store_set U F rs (mg_store m) fs of
             (Inl e, s', tr) \<Rightarrow> (Some (StoreErr e), m\<lparr>mg_store := s'\<rparr>, tr)
           | (Inr _, s', tr) \<Rightarrow>
               (case refresh L (rebuild_matcher (m\<lparr>mg_store := s'\<rparr>)) of
                  (e, m') \<Rightarrow> (map_option DNSErr e, m', tr))))"

section \<open>Matching\<close>

definition match_ip_detail :: "manager \<Rightarrow> ip option \<Rightarrow> bool \<times> string" where
  "match_ip_detail m a =
     (case a of
        None \<Rightarrow> (False, [])
      | Some ip0 \<Rightarrow>
          (let ip = norm4 ip0;
               user = matcher_ip_detail (mg_matcher m) (Some ip)
           in if fst user then (True, snd user)
              else if list_ex (\<lambda>n. net_contains n ip) (mg_static m) then (True, ''static'')
              else if list_ex (\<lambda>n. net_contains n ip) (mg_resolved m) then (True, ''dns-resolved'')
              else (False, [])))"

definition match_bypass :: "unicode \<Rightarrow> manager \<Rightarrow> string \<Rightarrow> bool \<times> string" where
  "match_bypass U m host0 =
     (let host = normalize_host U host0 in
      if host = [] then (False, [])
      else case parse_ip host of
             Some a \<Rightarrow> match_ip_detail m (Some a)
           | None \<Rightarrow>
               (case mg_matcher m of
                  None \<Rightarrow> (False, [])
                | Some rs \<Rightarrow> matcher_host_detail U (Some rs) host))"

definition manager_match_host :: "unicode \<Rightarrow> manager \<Rightarrow> string \<Rightarrow> bool" where
  "manager_match_host U m host = fst (match_bypass U m host)"

definition manager_match_ip :: "manager \<Rightarrow> ip option \<Rightarrow> bool" where
  "manager_match_ip m a = fst (match_ip_detail m a)"

definition should_bypass_host :: "unicode \<Rightarrow> manager \<Rightarrow> string \<Rightarrow> bool" where
  "should_bypass_host U m host = fst (match_bypass U m host)"

definition effective_bypass_nets :: "manager \<Rightarrow> ipnet list" where
  "effective_bypass_nets m =
     dedup_by show_net {} (mg_static m @ static_nets (store_rules (mg_store m)) @ mg_resolved m)"

definition last_error :: "manager \<Rightarrow> string" where
  "last_error m = mg_error m"

definition resolved_nets :: "manager \<Rightarrow> ipnet list" where
  "resolved_nets m = mg_resolved m"

section \<open>Refresh notices every change\<close>

lemma count_nets_count: "count_nets cnt ns k = cnt k + count (mset (map show_net ns)) k"
  by (induction ns arbitrary: cnt) auto

lemma same_nets_loop_count:
  "same_nets_loop cnt ns \<longleftrightarrow> (\<forall>k. count (mset (map show_net ns)) k \<le> cnt k)"
proof (induction ns arbitrary: cnt)
  case (Cons n ns)
  let ?k = "show_net n" and ?M = "mset (map show_net ns)"
  show ?case
  proof (cases "cnt ?k = 0")
    case True
    then show ?thesis by (auto simp: Let_def intro!: exI [of _ ?k])
  next
    case False
    then have "(\<forall>k. count ?M k \<le> (cnt(?k := cnt ?k - 1)) k) \<longleftrightarrow>
        (\<forall>k. count (add_mset ?k ?M) k \<le> cnt k)"
      by (intro iff_allI) auto
    with False Cons show ?thesis by (simp add: Let_def)
  qed
qed simp

lemma same_size_subset_iff: "size A = size B \<Longrightarrow> B \<subseteq># A \<longleftrightarrow> A = (B :: 'a multiset)"
  using mset_subset_size [of B A] by (cases "A = B") (auto simp: subset_mset.less_le)

lemma same_nets_iff: "same_nets a b \<longleftrightarrow> mset (map show_net a) = mset (map show_net b)"
proof (cases "length a = length b")
  case True
  have "same_nets a b \<longleftrightarrow> mset (map show_net b) \<subseteq># mset (map show_net a)"
    using True by (simp add: same_nets_def same_nets_loop_count count_nets_count subseteq_mset_def)
  moreover have "size (mset (map show_net a)) = size (mset (map show_net b))" using True by simp
  ultimately show ?thesis by (simp only: same_size_subset_iff)
next
  case False
  then show ?thesis by (metis same_nets_def length_map size_mset)
qed

section \<open>The views of the manager agree\<close>

definition in_sync :: "manager \<Rightarrow> bool" where
  "in_sync m \<longleftrightarrow> mg_matcher m = Some (st_rules (mg_store m))"

definition nets_wf :: "manager \<Rightarrow> bool" where
  "nets_wf m \<longleftrightarrow> list_all net_wf (mg_static m) \<and> list_all net_wf (mg_resolved m)"

lemma rule_net_wf: "rule_wf U r \<Longrightarrow> rule_net r = Some n \<Longrightarrow> net_wf n"
  by (auto simp: rule_wf_def ip_rule_def net_rule_def suffix_rule_def domain_rule_def
      split: kind.splits dest: arg_cong [of _ _ rule_net])

lemma show_net_contains:
  "net_wf m \<Longrightarrow> net_wf n \<Longrightarrow> show_net m = show_net n \<Longrightarrow> net_contains m x = net_contains n x"
  by (metis show_net_inject net_contains_canon)

lemma dedup_contains:
  assumes "\<And>n. n \<in> set ns \<Longrightarrow> net_wf n"
  shows "(\<exists>n \<in> set (dedup_by show_net {} ns). net_contains n x) \<longleftrightarrow> (\<exists>n \<in> set ns. net_contains n x)"
proof
  assume "\<exists>n \<in> set ns. net_contains n x"
  then obtain n where n: "n \<in> set ns" "net_contains n x" by blast
  then obtain k where "k \<in> set (dedup_by show_net {} ns)" "show_net k = show_net n"
    using dedup_by_ex_key [of n ns show_net "{}"] by auto
  moreover have "k \<in> set ns" using calculation(1) dedup_by_subset by fastforce
  ultimately show "\<exists>n \<in> set (dedup_by show_net {} ns). net_contains n x"
    using n show_net_contains assms by blast
qed (use dedup_by_subset in fastforce)

lemma static_nets_wf: "\<forall>r \<in> set rs. rule_wf U r \<Longrightarrow> n \<in> set (static_nets rs) \<Longrightarrow> net_wf n"
  by (induction rs) (auto split: option.splits dest: rule_net_wf)

lemma v4_hosts_wf: "n \<in> set (v4_hosts as) \<Longrightarrow> net_wf n"
  by (induction as) (auto split: option.splits)

lemma match_ip_detail_iff:
  assumes "in_sync m"
  shows "fst (match_ip_detail m (Some a)) \<longleftrightarrow>
    (\<exists>r \<in> set (st_rules (mg_store m)). covers_ip r a) \<or>
    (\<exists>n \<in> set (mg_static m) \<union> set (mg_resolved m). net_contains n a)"
  using assms find_isSome_iff [of "\<lambda>r. covers_ip r a" "st_rules (mg_store m)"]
  by (auto simp: match_ip_detail_def in_sync_def matcher_ip_detail_def match_nets_eq list_ex_iff
      split: option.splits)

lemma match_ip_detail_cong:
  "norm4 a = norm4 b \<Longrightarrow> match_ip_detail m (Some a) = match_ip_detail m (Some b)"
  by (simp add: match_ip_detail_def Let_def)

lemma match_ip_detail_miss: "\<not> fst (match_ip_detail m a) \<Longrightarrow> match_ip_detail m a = (False, [])"
  by (auto simp: match_ip_detail_def Let_def split: option.splits if_splits)

lemma match_bypass_literal: "match_bypass U m (show_ip a) = match_ip_detail m (Some a)"
  using match_ip_detail_cong [OF norm4_IP6_to16, of m a]
  by (simp add: match_bypass_def Let_def normalize_show_ip)

interpretation user_bypass: bypass_matcher
    "normalize_host U" "match_bypass U m" "\<lambda>a. match_ip_detail m (Some a)" for U m
proof (unfold_locales, goal_cases)
  case (1 h k)
  then show ?case by (simp add: match_bypass_def Let_def)
next
  case (3 a b)
  then show ?case by (intro match_ip_detail_cong) (simp add: ip_equal_norm4)
next
  case (4 h)
  then show ?case
    by (auto simp: match_bypass_def Let_def match_ip_detail_miss matcher_host_detail_miss
        split: option.splits if_splits)
qed (simp add: match_bypass_literal)

section \<open>What every operation keeps\<close>

definition mgr_ok :: "unicode \<Rightarrow> manager \<times> fs \<Rightarrow> bool" where
  "mgr_ok U w \<longleftrightarrow>
     in_sync (fst w) \<and> nets_wf (fst w) \<and> world_ok U (mg_store (fst w), snd w)"

datatype mgr_op =
    MLoad lookup
  | MStatic "ipnet list"
  | MAdd lookup string
  | MRemove lookup string
  | MSet lookup "string list"
  | MRefresh lookup

fun mgr_op_ok :: "mgr_op \<Rightarrow> bool" where
  "mgr_op_ok (MStatic ns) = list_all net_wf ns"
| "mgr_op_ok (MAdd L raw) = is_ascii raw"
| "mgr_op_ok (MRemove L raw) = is_ascii raw"
| "mgr_op_ok (MSet L lines) = list_all is_ascii lines"
| "mgr_op_ok _ = True"

fun mgr_step :: "unicode \<Rightarrow> faults \<Rightarrow> mgr_op \<Rightarrow> manager \<times> fs \<Rightarrow> manager \<times> fs" where
  "mgr_step U F (MLoad L) w = (snd (manager_load U (read_fs (snd w)) L (fst w)), snd w)"
| "mgr_step U F (MStatic ns) w = (set_static ns (fst w), snd w)"
| "mgr_step U F (MAdd L raw) w =
     (case add_rule U F L raw (fst w) (snd w) of (q, m', tr) \<Rightarrow> (m', final_fs (snd w) tr))"
| "mgr_step U F (MRemove L raw) w =
     (case remove_rule U F L raw (fst w) (snd w) of (q, m', tr) \<Rightarrow> (m', final_fs (snd w) tr))"
| "mgr_step U F (MSet L lines) w =
     (case set_rules U F L lines (fst w) (snd w) of (q, m', tr) \<Rightarrow> (m', final_fs (snd w) tr))"
| "mgr_step U F (MRefresh L) w = (snd (refresh L (fst w)), snd w)"

lemma resolve_hosts_nets:
  "fst (resolve_hosts L hs) = concat (map (\<lambda>h. case L h of Inl e \<Rightarrow> [] | Inr ips \<Rightarrow> v4_hosts ips) hs)"
  by (induction hs) (auto split: sum.splits prod.splits)

lemma resolve_hosts_error:
  "snd (resolve_hosts L hs) =
     (case find (\<lambda>h. \<not> is_ok (L h)) hs of None \<Rightarrow> None | Some h \<Rightarrow> Some (projl (L h)))"
  by (induction hs) (auto split: sum.splits prod.splits)

lemma refresh_fields [simp]:
  "mg_store (snd (refresh L m)) = mg_store m" "mg_static (snd (refresh L m)) = mg_static m"
  "mg_matcher (snd (refresh L m)) = mg_matcher m"
  "mg_resolved (snd (refresh L m)) = fst (resolve_hosts L (domains_to_resolve (st_rules (mg_store m))))"
  by (simp_all add: refresh_def Let_def notify_def store_rules_def split: prod.split)

lemma rebuild_fields [simp]:
  "mg_store (rebuild_matcher m) = mg_store m" "mg_static (rebuild_matcher m) = mg_static m"
  "mg_matcher (rebuild_matcher m) = Some (st_rules (mg_store m))"
  "mg_resolved (rebuild_matcher m) = mg_resolved m"
  by (simp_all add: rebuild_matcher_def store_rules_def)

lemma refresh_ok:
  assumes "in_sync m" "list_all net_wf (mg_static m)" "world_ok U (mg_store m, fs)"
  shows "mgr_ok U (snd (refresh L m), fs)"
  using assms v4_hosts_wf
  by (auto simp: mgr_ok_def in_sync_def nets_wf_def resolve_hosts_nets list_all_iff
      split: sum.splits)

text \<open>The three mutators end in the same two steps; the store they leave decides the rest.\<close>

lemma mutated_ok:
  assumes "mgr_ok U w" "world_ok U (s', fs')"
  shows "mgr_ok U (snd (refresh L (rebuild_matcher ((fst w)\<lparr>mg_store := s'\<rparr>))), fs')"
  using assms by (intro refresh_ok) (simp_all add: in_sync_def mgr_ok_def nets_wf_def)

lemma unchanged_ok:
  "mgr_ok U w \<Longrightarrow> world_ok U (mg_store (fst w), fs') \<Longrightarrow>
     mgr_ok U ((fst w)\<lparr>mg_store := mg_store (fst w)\<rparr>, fs')"
  by (simp add: mgr_ok_def)

lemma world_after_save:
  "one_save U s fs s' tr \<Longrightarrow> world_ok U (s', final_fs fs tr)"
  by (simp add: one_save_def world_ok_def)

lemma mgr_okD:
  "mgr_ok U w \<Longrightarrow> st_ok U (mg_store (fst w))" "mgr_ok U w \<Longrightarrow> on_disk U (snd w) (mg_store (fst w))"
  by (simp_all add: mgr_ok_def world_ok_def)

lemma add_rule_ok:
  assumes "mgr_ok U w" "is_ascii raw" "add_rule U F L raw (fst w) (snd w) = (q, m', tr)"
  shows "mgr_ok U (m', final_fs (snd w) tr)"
proof -
  obtain r s' t where a: "store_add U F raw (mg_store (fst w)) (snd w) = (r, s', t)" by (metis prod_cases3)
  note sv = add_one_save [OF a assms(2) mgr_okD [OF assms(1)]]
  show ?thesis
  proof (cases r)
    case (Inl e)
    with a assms(3) sv have "m' = fst w" "tr = t" "s' = mg_store (fst w)" by (auto simp: add_rule_def)
    with sv assms(1) show ?thesis
      using world_after_save by (fastforce simp: mgr_ok_def)
  next
    case (Inr v)
    with a assms(3) have "m' = snd (refresh L (rebuild_matcher ((fst w)\<lparr>mg_store := s'\<rparr>)))" "tr = t"
      by (auto simp: add_rule_def)
    with sv mutated_ok [OF assms(1)] world_after_save show ?thesis by blast
  qed
qed

lemma remove_rule_ok:
  assumes "mgr_ok U w" "remove_rule U F L raw (fst w) (snd w) = (q, m', tr)"
  shows "mgr_ok U (m', final_fs (snd w) tr)"
proof -
  obtain r s' t where a: "store_remove U F raw (mg_store (fst w)) (snd w) = (r, s', t)" by (metis prod_cases3)
  note sv = remove_one_save [OF a mgr_okD [OF assms(1)]]
  show ?thesis
  proof (cases "r = Inr True")
    case False
    then have "s' = mg_store (fst w)"
      using store_remove_cases [OF a] sv a
      by (cases r) (auto simp: store_remove_def Let_def commit_def split: sum.splits if_splits prod.splits option.splits)
    moreover from False a assms(2) have "m' = (fst w)\<lparr>mg_store := s'\<rparr>" "tr = t"
      by (auto simp: remove_rule_def split: sum.splits if_splits)
    ultimately show ?thesis
      using sv assms(1) world_after_save by (fastforce simp: mgr_ok_def)
  next
    case True
    with a assms(2) have "m' = snd (refresh L (rebuild_matcher ((fst w)\<lparr>mg_store := s'\<rparr>)))" "tr = t"
      by (auto simp: remove_rule_def)
    with sv mutated_ok [OF assms(1)] world_after_save show ?thesis by blast
  qed
qed

lemma set_rules_ok:
  assumes "mgr_ok U w" "list_all is_ascii lines" "set_rules U F L lines (fst w) (snd w) = (q, m', tr)"
  shows "mgr_ok U (m', final_fs (snd w) tr)"
proof (cases "map_result (parse_rule U) lines")
  case (Inl e)
  with assms show ?thesis by (auto simp: set_rules_def final_fs_def)
next
  case (Inr rs)
  obtain r s' t where a: "store_set U F rs (mg_store (fst w)) (snd w) = (r, s', t)" by (metis prod_cases3)
  have asc: "list_all (\<lambda>r. is_ascii (rule_raw r)) rs"
    unfolding list_all_iff
  proof
    fix r assume "r \<in> set rs"
    then obtain l where "l \<in> set lines" "parse_rule U l = Inr r" using map_result_set [OF Inr] by blast
    then show "is_ascii (rule_raw r)"
      using assms(2) parse_rule_wf rule_raw_line(6) by (metis list_all_iff)
  qed
  note sv = set_one_save [OF a asc mgr_okD [OF assms(1)]]
  show ?thesis
  proof (cases r)
    case (Inl e)
    with a assms(3) sv Inr have "m' = fst w" "tr = t" "s' = mg_store (fst w)" by (auto simp: set_rules_def)
    with sv assms(1) show ?thesis
      using world_after_save by (fastforce simp: mgr_ok_def)
  next
    case ok: (Inr v)
    with a assms(3) Inr have "m' = snd (refresh L (rebuild_matcher ((fst w)\<lparr>mg_store := s'\<rparr>)))" "tr = t"
      by (auto simp: set_rules_def split: prod.splits)
    with sv mutated_ok [OF assms(1)] world_after_save show ?thesis by blast
  qed
qed

lemma manager_load_ok:
  assumes "mgr_ok U w" "manager_load U (read_fs (snd w)) L (fst w) = (q, m')"
  shows "mgr_ok U (m', snd w)"
proof -
  obtain e s' where a: "store_load U (read_fs (snd w)) (mg_store (fst w)) = (e, s')" by fastforce
  note sv = load_one_save [OF a mgr_okD [OF assms(1)]]
  show ?thesis
  proof (cases e)
    case (Some x)
    then have "s' = mg_store (fst w)"
      using a by (auto simp: store_load_def split: if_splits read_result.splits sum.splits)
    with Some a assms(2) have "m' = fst w" by (auto simp: manager_load_def)
    with assms(1) show ?thesis by simp
  next
    case None
    with a assms(2) have "m' = snd (refresh L (rebuild_matcher ((fst w)\<lparr>mg_store := s'\<rparr>)))"
      by (auto simp: manager_load_def split: prod.splits)
    moreover have "world_ok U (s', snd w)"
      using sv world_after_save [of U "mg_store (fst w)" "snd w" s' "[]"] by (simp add: final_fs_def)
    ultimately show ?thesis using mutated_ok [OF assms(1)] by blast
  qed
qed

lemma mgr_step_ok:
  assumes "mgr_ok U w" "mgr_op_ok opn"
  shows "mgr_ok U (mgr_step U F opn w)"
proof (cases opn)
  case (MLoad L)
  then show ?thesis using manager_load_ok [OF assms(1)] by (metis mgr_step.simps(1) prod.collapse)
next
  case (MStatic ns)
  then show ?thesis using assms by (simp add: set_static_def notify_def mgr_ok_def in_sync_def nets_wf_def)
next
  case (MAdd L raw)
  then show ?thesis using add_rule_ok [OF assms(1)] assms(2) by (auto split: prod.split)
next
  case (MRemove L raw)
  then show ?thesis using remove_rule_ok [OF assms(1)] by (auto split: prod.split)
next
  case (MSet L lines)
  then show ?thesis using set_rules_ok [OF assms(1)] assms(2) by (auto split: prod.split)
next
  case (MRefresh L)
  then show ?thesis using refresh_ok [of "fst w" U "snd w" L] assms(1)
    by (simp add: mgr_ok_def nets_wf_def)
qed

fun mgr_history :: "unicode \<Rightarrow> (faults \<times> mgr_op) list \<Rightarrow> manager \<times> fs \<Rightarrow> manager \<times> fs" where
  "mgr_history U [] w = w"
| "mgr_history U ((F, opn) # ops) w = mgr_history U ops (mgr_step U F opn w)"

lemma mgr_history_ok:
  "mgr_ok U w \<Longrightarrow> list_all (\<lambda>(F, opn). mgr_op_ok opn) ops \<Longrightarrow> mgr_ok U (mgr_history U ops w)"
  by (induction U ops w rule: mgr_history.induct) (auto simp: mgr_step_ok)

lemma new_manager_ok:
  "list_all net_wf static \<Longrightarrow> world_ok U (s, fs) \<Longrightarrow> mgr_ok U (new_manager (Some s) static, fs)"
  by (simp add: new_manager_def mgr_ok_def in_sync_def nets_wf_def rebuild_matcher_def store_rules_def)

lemma effective_contains:
  assumes "mgr_ok U (m, fs)"
  shows "(\<exists>n \<in> set (effective_bypass_nets m). net_contains n a) \<longleftrightarrow> fst (match_ip_detail m (Some a))"
proof -
  have sync: "in_sync m" and wf: "nets_wf m" and rs: "\<forall>r \<in> set (st_rules (mg_store m)). rule_wf U r"
    using assms by (simp_all add: mgr_ok_def world_ok_def st_ok_def rules_ok_def)
  let ?ns = "mg_static m @ static_nets (st_rules (mg_store m)) @ mg_resolved m"
  have nwf: "net_wf n" if "n \<in> set ?ns" for n
    using that wf static_nets_wf [OF rs] by (auto simp: nets_wf_def list_all_iff)
  have "(\<exists>n \<in> set (effective_bypass_nets m). net_contains n a) \<longleftrightarrow> (\<exists>n \<in> set ?ns. net_contains n a)"
    unfolding effective_bypass_nets_def store_rules_def by (rule dedup_contains) (rule nwf)
  also have "\<dots> \<longleftrightarrow> (\<exists>n \<in> set (static_nets (st_rules (mg_store m))). net_contains n a) \<or>
      (\<exists>n \<in> set (mg_static m) \<union> set (mg_resolved m). net_contains n a)" by auto
  finally show ?thesis unfolding static_nets_contains match_ip_detail_iff [OF sync] .
qed

section \<open>Properties of the manager\<close>

text \<open>
  C2: the SOCKS view and the packet-filter view of the exclusions agree. After any sequence
  of manager operations on ASCII rules, with any DNS answers and file errors, an address is
  excluded by MatchIP exactly when it lies in one of the networks that EffectiveBypassNets
  hands to the packet filter, and no network is handed over twice.
\<close>

theorem manager_views_agree:
  assumes "list_all net_wf static" "world_ok U (s, fs)"
    and "list_all (\<lambda>(F, opn). mgr_op_ok opn) ops"
    and "mgr_history U ops (new_manager (Some s) static, fs) = (m, fs')"
  shows "(manager_match_ip m (Some a) \<longleftrightarrow> (\<exists>n \<in> set (effective_bypass_nets m). net_contains n a)) \<and>
    distinct (map show_net (effective_bypass_nets m))"
proof -
  have "mgr_ok U (m, fs')"
    using mgr_history_ok [OF new_manager_ok [OF assms(1,2)] assms(3)] assms(4) by simp
  from effective_contains [OF this] show ?thesis
    by (simp add: manager_match_ip_def effective_bypass_nets_def)
qed

definition sample_lookup :: lookup where
  "sample_lookup h =
     (if h = ''corp.example'' then Inr [IP4 0xC6336401, IP6 0x20010DB8000000000000000000000001]
      else Inl ''no such host'')"

definition sample_mgr_ops :: "(faults \<times> mgr_op) list" where
  "sample_mgr_ops =
     [(no_faults, MAdd sample_lookup ''*.corp.example''), (no_faults, MAdd sample_lookup ''192.0.2.0/24''),
      (no_faults, MStatic [Net4 0x0A000000 8])]"

theorem manager_views_agree_witness:
  "(let m = fst (mgr_history ascii_tables sample_mgr_ops (new_manager (Some (new_store [])) [], Map.empty))
    in manager_match_ip m (Some (IP4 0xC6336401)) \<and>
       (\<exists>n \<in> set (effective_bypass_nets m). net_contains n (IP4 0xC6336401)))"
proof -
  let ?h = "mgr_history ascii_tables sample_mgr_ops (new_manager (Some (new_store [])) [], Map.empty)"
  have w: "world_ok ascii_tables (new_store [], Map.empty)"
    by (simp add: world_ok_def st_ok_def rules_ok_def on_disk_def new_store_def)
  have o: "list_all (\<lambda>(F, opn). mgr_op_ok opn) sample_mgr_ops" by code_simp
  have "manager_match_ip (fst ?h) (Some (IP4 0xC6336401))" by code_simp
  with manager_views_agree [of "[]", OF _ w o, of "fst ?h" "snd ?h" "IP4 0xC6336401"]
  show ?thesis by (simp add: Let_def)
qed

text \<open>
  How MatchBypass labels an address: by the first user rule that covers it, else
  "static" for a static network, else "dns-resolved", else it does not match; and a host
  string that spells an address (any IPv4-mapped form included) is labelled as that address.
\<close>

theorem match_bypass_label:
  assumes "in_sync m"
  shows "match_bypass U m (show_ip a) =
    (if \<exists>r \<in> set (st_rules (mg_store m)). covers_ip r a
     then first_cover (\<lambda>r. covers_ip r a) (st_rules (mg_store m))
     else if \<exists>n \<in> set (mg_static m). net_contains n a then (True, ''static'')
     else if \<exists>n \<in> set (mg_resolved m). net_contains n a then (True, ''dns-resolved'')
     else (False, []))"
  using find_isSome_iff [of "\<lambda>r. covers_ip r a" "st_rules (mg_store m)"] assms
  by (auto simp: user_bypass.literal match_ip_detail_def in_sync_def matcher_ip_detail_def Let_def
      match_nets_eq first_cover_def list_ex_iff split: option.splits)

theorem match_bypass_label_witness:
  "match_bypass ascii_tables (new_manager None [Net4 0x0A000000 8]) (show_ip (IP4 0x0A010101)) =
     (True, ''static'')"
proof -
  let ?m = "new_manager None [Net4 0x0A000000 8]"
  have s: "in_sync ?m" and r: "st_rules (mg_store ?m) = []"
    by (simp_all add: new_manager_def in_sync_def new_store_def rebuild_matcher_def store_rules_def)
  have "mg_static ?m = [Net4 0x0A000000 8]" "net_contains (Net4 0x0A000000 8) (IP4 0x0A010101)"
    by code_simp+
  with r match_bypass_label [OF s, of ascii_tables "IP4 0x0A010101"] show ?thesis by simp
qed

text \<open>
  Refresh installs the IPv4 answers of every name that resolves, in rule order, reports
  the first lookup error and keeps it as LastError, and calls OnChange exactly when the
  networks changed as a multiset (so a reordered DNS answer rewrites no packet filter).
\<close>

theorem refresh_effect:
  "let hs = domains_to_resolve (st_rules (mg_store m)); m' = snd (refresh L m);
       nets = concat (map (\<lambda>h. case L h of Inl e \<Rightarrow> [] | Inr ips \<Rightarrow> v4_hosts ips) hs)
   in mg_resolved m' = nets \<and>
      mg_changes m' = mg_changes m +
        (if mset (map show_net (mg_resolved m)) = mset (map show_net nets) then 0 else 1) \<and>
      fst (refresh L m) = (case find (\<lambda>h. \<not> is_ok (L h)) hs of None \<Rightarrow> None | Some h \<Rightarrow> Some (projl (L h))) \<and>
      last_error m' = (case fst (refresh L m) of None \<Rightarrow> [] | Some e \<Rightarrow> e) \<and>
      mg_matcher m' = mg_matcher m \<and> mg_static m' = mg_static m"
proof -
  let ?hs = "domains_to_resolve (st_rules (mg_store m))"
  have "mg_changes (snd (refresh L m)) = mg_changes m +
      (if same_nets (mg_resolved m) (fst (resolve_hosts L ?hs)) then 0 else 1)"
    "last_error (snd (refresh L m)) = (case fst (refresh L m) of None \<Rightarrow> [] | Some e \<Rightarrow> e)"
    "fst (refresh L m) = snd (resolve_hosts L ?hs)"
    by (simp_all add: refresh_def Let_def notify_def store_rules_def last_error_def
        split: prod.split option.split)
  then show ?thesis
    by (simp add: Let_def resolve_hosts_nets resolve_hosts_error same_nets_iff)
qed

section \<open>Concurrent AddRule\<close>

text \<open>
  \<open>AddRule\<close> holds no lock across its steps: the store adds the rule under its own lock,
  \<open>rebuildMatcher\<close> copies the rules and only then takes the manager's lock to install them.
  A goroutine is the point it has reached; a schedule picks who moves next. (The final
  \<open>Refresh\<close> touches neither the store nor the matcher.)
\<close>

datatype pc = AtAdd string | AtRead | AtInstall "rule list" | AtDone

fun add_thread :: "unicode \<Rightarrow> pc \<Rightarrow> manager \<times> fs \<Rightarrow> pc \<times> manager \<times> fs" where
  "add_thread U (AtAdd raw) w =
     (case store_add U no_faults raw (mg_store (fst w)) (snd w) of
        (Inl e, s', tr) \<Rightarrow> (AtDone, (fst w)\<lparr>mg_store := s'\<rparr>, final_fs (snd w) tr)
      | (Inr r, s', tr) \<Rightarrow> (AtRead, (fst w)\<lparr>mg_store := s'\<rparr>, final_fs (snd w) tr))"
| "add_thread U AtRead w = (AtInstall (store_rules (mg_store (fst w))), w)"
| "add_thread U (AtInstall rs) w = (AtDone, (fst w)\<lparr>mg_matcher := Some rs\<rparr>, snd w)"
| "add_thread U AtDone w = (AtDone, w)"

inductive race_step ::
  "unicode \<Rightarrow> pc list \<times> manager \<times> fs \<Rightarrow> pc list \<times> manager \<times> fs \<Rightarrow> bool" for U where
  race: "i < length pcs \<Longrightarrow> add_thread U (pcs ! i) w = (pc', w') \<Longrightarrow>
           race_step U (pcs, w) (pcs[i := pc'], w')"

inductive_cases race_stepE: "race_step U c c'"

fun run_schedule :: "unicode \<Rightarrow> nat list \<Rightarrow> pc list \<times> manager \<times> fs \<Rightarrow> pc list \<times> manager \<times> fs" where
  "run_schedule U [] c = c"
| "run_schedule U (i # is) (pcs, w) =
     (if i < length pcs then
        (case add_thread U (pcs ! i) w of (pc', w') \<Rightarrow> run_schedule U is (pcs[i := pc'], w'))
      else run_schedule U is (pcs, w))"

lemma run_schedule_reach: "(race_step U)\<^sup>*\<^sup>* c (run_schedule U is c)"
proof (induction U "is" c rule: run_schedule.induct)
  case (2 U i "is" pcs w)
  show ?case
  proof (cases "i < length pcs")
    case True
    obtain pc' w' where a: "add_thread U (pcs ! i) w = (pc', w')" by (metis surj_pair)
    then have "race_step U (pcs, w) (pcs[i := pc'], w')" using True by (rule_tac race)
    moreover have "(race_step U)\<^sup>*\<^sup>* (pcs[i := pc'], w') (run_schedule U is (pcs[i := pc'], w'))"
      by (rule 2(1) [OF True a [symmetric]])
    ultimately show ?thesis using True a by (simp add: converse_rtranclp_into_rtranclp)
  next
    case False
    with 2 show ?thesis by simp
  qed
qed simp

text \<open>Rules only grow, and what any goroutine holds or installed was in the store.\<close>

definition race_inv :: "pc list \<times> manager \<times> fs \<Rightarrow> bool" where
  "race_inv c \<longleftrightarrow>
     (let rules = set (st_rules (mg_store (fst (snd c)))) in
      (\<forall>rs. mg_matcher (fst (snd c)) = Some rs \<longrightarrow> set rs \<subseteq> rules) \<and>
      (\<forall>rs. AtInstall rs \<in> set (fst c) \<longrightarrow> set rs \<subseteq> rules))"

lemma store_add_grows:
  "store_add U F raw s fs = (q, s', tr) \<Longrightarrow> set (st_rules s) \<subseteq> set (st_rules s')"
  by (auto simp: store_add_def commit_def split: sum.splits option.splits prod.splits)

lemma race_step_inv:
  assumes "race_step U c c'" "race_inv c"
  shows "race_inv c' \<and> set (st_rules (mg_store (fst (snd c)))) \<subseteq> set (st_rules (mg_store (fst (snd c'))))"
  using assms(1)
proof (rule race_stepE)
  fix i pcs w pc' w'
  assume c: "c = (pcs, w)" "c' = (pcs[i := pc'], w')" and i: "i < length pcs"
    and a: "add_thread U (pcs ! i) w = (pc', w')"
  let ?old = "set (st_rules (mg_store (fst w)))" and ?new = "set (st_rules (mg_store (fst w')))"
  have keep: "\<And>rs. AtInstall rs \<in> set (pcs[i := pc']) \<Longrightarrow> AtInstall rs \<in> set pcs \<or> pc' = AtInstall rs"
    using set_update_subset_insert [of pcs i pc'] by auto
  have pcs: "\<And>rs. AtInstall rs \<in> set pcs \<Longrightarrow> set rs \<subseteq> ?old"
    and mt: "\<And>rs. mg_matcher (fst w) = Some rs \<Longrightarrow> set rs \<subseteq> ?old"
    using assms(2) by (auto simp: race_inv_def c Let_def)
  have "?old \<subseteq> ?new \<and> (\<forall>rs. mg_matcher (fst w') = Some rs \<longrightarrow> set rs \<subseteq> ?old) \<and>
      (\<forall>rs. pc' = AtInstall rs \<longrightarrow> set rs \<subseteq> ?old)"
  proof (cases "pcs ! i")
    case (AtAdd raw)
    then show ?thesis using a mt
      by (auto split: prod.splits sum.splits dest!: store_add_grows)
  next
    case (AtInstall rs)
    then have "AtInstall rs \<in> set pcs" using i nth_mem by metis
    from pcs [OF this] AtInstall a show ?thesis by auto
  qed (use a mt in \<open>auto simp: store_rules_def\<close>)
  with keep pcs show ?thesis by (fastforce simp: race_inv_def c Let_def)
qed

lemma race_reach_inv: "(race_step U)\<^sup>*\<^sup>* c c' \<Longrightarrow> race_inv c \<Longrightarrow> race_inv c'"
  by (induction rule: rtranclp_induct) (auto dest: race_step_inv)

definition two_adders :: "pc list \<times> manager \<times> fs" where
  "two_adders =
     ([AtAdd ''a.example'', AtAdd ''b.example''], new_manager (Some (new_store [])) [], Map.empty)"

text \<open>
  Concurrent AddRule calls never make the matcher exclude a destination that no stored
  rule covers: in every interleaving the installed matcher is a part of the stored rules.
\<close>

theorem concurrent_adds_sound:
  assumes "(race_step U)\<^sup>*\<^sup>* (pcs, new_manager (Some s) static, fs) (pcs', m, fs')"
    and "\<forall>rs. AtInstall rs \<notin> set pcs" and "mg_matcher m = Some rs"
  shows "set rs \<subseteq> set (st_rules (mg_store m))"
proof -
  have "race_inv (pcs, new_manager (Some s) static, fs)"
    using assms(2) by (simp add: race_inv_def new_manager_def rebuild_matcher_def store_rules_def)
  from race_reach_inv [OF assms(1) this] assms(3) show ?thesis by (simp add: race_inv_def Let_def)
qed

theorem concurrent_adds_sound_witness:
  "let m = fst (snd (run_schedule ascii_tables [0, 1, 1, 0, 0, 1] two_adders))
   in \<exists>rs. mg_matcher m = Some rs \<and> length rs = 2 \<and> set rs \<subseteq> set (st_rules (mg_store m))"
proof -
  let ?c = "run_schedule ascii_tables [0, 1, 1, 0, 0, 1] two_adders"
  have r: "(race_step ascii_tables)\<^sup>*\<^sup>* (fst two_adders, new_manager (Some (new_store [])) [], Map.empty)
      (fst ?c, fst (snd ?c), snd (snd ?c))"
    using run_schedule_reach [of ascii_tables two_adders "[0, 1, 1, 0, 0, 1]"] by (simp add: two_adders_def)
  have m: "mg_matcher (fst (snd ?c)) = Some [domain_rule ''a.example'', domain_rule ''b.example'']"
    by code_simp
  have "\<forall>rs. AtInstall rs \<notin> set (fst two_adders)" by (simp add: two_adders_def)
  from concurrent_adds_sound [OF r this m] m show ?thesis by (simp add: Let_def)
qed

text \<open>
  But it can lose a rule: two goroutines add "a.example" and "b.example"; the second
  completes while the first holds the rules it copied before, which it then installs. Both
  calls have returned and both rules are stored, yet MatchBypass does not exclude b.example.
\<close>

theorem concurrent_adds_lose_rule:
  "\<exists>m fs. (race_step ascii_tables)\<^sup>*\<^sup>* two_adders ([AtDone, AtDone], m, fs) \<and>
     map rule_raw (st_rules (mg_store m)) = [''a.example'', ''b.example''] \<and>
     match_bypass ascii_tables m ''a.example'' = (True, ''a.example'') \<and>
     match_bypass ascii_tables m ''b.example'' = (False, [])"
proof -
  let ?c = "run_schedule ascii_tables [0, 0, 1, 1, 1, 0] two_adders"
  have "fst ?c = [AtDone, AtDone]" by code_simp
  then have "(race_step ascii_tables)\<^sup>*\<^sup>* two_adders ([AtDone, AtDone], fst (snd ?c), snd (snd ?c))"
    using run_schedule_reach [of ascii_tables two_adders "[0, 0, 1, 1, 1, 0]"] by (metis prod.collapse)
  moreover have "map rule_raw (st_rules (mg_store (fst (snd ?c)))) = [''a.example'', ''b.example'']"
    "match_bypass ascii_tables (fst (snd ?c)) ''a.example'' = (True, ''a.example'')"
    "match_bypass ascii_tables (fst (snd ?c)) ''b.example'' = (False, [])"
    by code_simp+
  ultimately show ?thesis by (intro exI conjI)
qed

end
