(* ===== verification/Path_Decider.thy ===== *)
theory Path_Decider
  imports Routing_Engine Bypass_Manager
begin

text \<open>
  \<open>internal/proxy/path_decider.go\<close>: the decision the proxies ask for one address, from the
  block list, the live engine and the labels of the bypass list. The two lists are used only
  through the interface \<open>bypass_matcher\<close>, whose laws both managers satisfy.
\<close>

type_synonym bypass_api = "string \<Rightarrow> bool \<times> string"

definition via_tunnel :: string where "via_tunnel = ''tunnel''"
definition via_direct :: string where "via_direct = ''direct''"
definition via_drop :: string where "via_drop = ''drop''"

record decider =
  pd_engine :: "engine option"
  pd_bypass :: "bypass_api option"
  pd_block :: "bypass_api option"

text \<open>The engine field is what the callback under the mutex returned, \<open>None\<close> without one.\<close>

definition decide_path :: "decider option \<Rightarrow> ip option \<Rightarrow> string \<times> string" where
  "decide_path d0 dst0 =
     (case (d0, dst0) of
        (Some d, Some dst) \<Rightarrow>
          (let blocked = (case pd_block d of None \<Rightarrow> (False, []) | Some f \<Rightarrow> f (show_ip dst)) in
           if fst blocked then (via_drop, snd blocked)
           else case pd_engine d of
             None \<Rightarrow> (via_tunnel, [])
           | Some eng \<Rightarrow>
               (case decide eng (Some dst) of
                  PathDrop \<Rightarrow> (via_drop, ''policy:drop'')
                | PathDirect \<Rightarrow>
                    if is_server_ip (Some eng) dst then (via_direct, ''outline-server'')
                    else (let hit = (case pd_bypass d of None \<Rightarrow> (False, []) | Some f \<Rightarrow> f (show_ip dst)) in
                          if fst hit then (via_direct, snd hit) else (via_direct, ''policy:direct''))
                | PathTunnel \<Rightarrow> (via_tunnel, [])))
      | _ \<Rightarrow> (via_tunnel, []))"

section \<open>Over any matchers that satisfy the interface\<close>

definition direct_label :: "engine \<Rightarrow> (ip \<Rightarrow> bool \<times> string) \<Rightarrow> ip \<Rightarrow> string" where
  "direct_label eng by_ip a =
     (if is_server eng a then ''outline-server''
      else if fst (by_ip a) then snd (by_ip a) else ''policy:direct'')"

definition path_spec :: "engine option \<Rightarrow> (ip \<Rightarrow> bool \<times> string) \<Rightarrow> (ip \<Rightarrow> bool \<times> string) \<Rightarrow> ip \<Rightarrow> string \<times> string" where
  "path_spec eng by_ip block a =
     (if fst (block a) then (via_drop, snd (block a))
      else case eng of
        None \<Rightarrow> (via_tunnel, [])
      | Some e \<Rightarrow>
          (case decide e (Some a) of
             PathDrop \<Rightarrow> (via_drop, ''policy:drop'')
           | PathDirect \<Rightarrow> (via_direct, direct_label e by_ip a)
           | PathTunnel \<Rightarrow> (via_tunnel, [])))"

locale two_matchers = bypass_matcher norm by_host by_ip
  for norm :: "string \<Rightarrow> string" and by_host :: "string \<Rightarrow> bool \<times> string" and by_ip :: "ip \<Rightarrow> bool \<times> string" +
  fixes blk_host :: "string \<Rightarrow> bool \<times> string" and blk_ip :: "ip \<Rightarrow> bool \<times> string"
  assumes blk: "bypass_matcher norm blk_host blk_ip"
begin

lemma decide_path_spec:
  "decide_path (Some \<lparr>pd_engine = eng, pd_bypass = Some by_host, pd_block = Some blk_host\<rparr>) (Some a) =
     path_spec eng by_ip blk_ip a"
  using literal bypass_matcher.literal [OF blk]
  by (simp add: decide_path_def path_spec_def direct_label_def is_server_ip_def Let_def
      split: option.split path.split)

lemma path_spec_form: "ip_equal a b \<Longrightarrow> path_spec eng by_ip blk_ip a = path_spec eng by_ip blk_ip b"
proof -
  assume e: "ip_equal a b"
  then have n: "norm4 a = norm4 b" by (simp add: ip_equal_norm4)
  have 1: "decide x (Some a) = decide x (Some b)" for x using n by (simp add: decide_def)
  have 2: "is_server x a = is_server x b" for x using n by (auto simp: is_server_iff ip_equal_norm4)
  show ?thesis
    by (simp add: path_spec_def direct_label_def 1 2 same_ip [OF e] bypass_matcher.same_ip [OF blk e]
        split: option.split path.split)
qed

end

interpretation user_and_block: two_matchers
    "normalize_host U" "match_bypass U m" "\<lambda>a. match_ip_detail m (Some a)"
    "match_bypass U b" "\<lambda>a. match_ip_detail b (Some a)" for U m b
  by unfold_locales

definition live_decider :: "unicode \<Rightarrow> engine option \<Rightarrow> manager \<Rightarrow> manager \<Rightarrow> decider" where
  "live_decider U eng user block =
     \<lparr>pd_engine = eng, pd_bypass = Some (match_bypass U user), pd_block = Some (match_bypass U block)\<rparr>"

section \<open>Properties\<close>

text \<open>
  The decision for an address. The block list wins over everything, also over bypass
  rules and server addresses, and its rule is the label; without an engine the path is the
  tunnel; otherwise the path is the engine's, a direct path is labelled with the server, the
  bypass rule or the policy, in that order. The two forms of an IPv4 address are decided and
  labelled alike.
\<close>

theorem decide_path_precedence:
  "decide_path (Some (live_decider U eng user block)) (Some a) =
     path_spec eng (\<lambda>x. match_ip_detail user (Some x)) (\<lambda>x. match_ip_detail block (Some x)) a \<and>
   decide_path (Some (live_decider U eng user block)) (Some (norm4 a)) =
     decide_path (Some (live_decider U eng user block)) (Some a)"
  unfolding live_decider_def user_and_block.decide_path_spec
  by (intro conjI refl user_and_block.path_spec_form) (simp add: ip_equal_norm4)

end
