(* ===== verification/Socks5_Proxy.thy ===== *)
theory Socks5_Proxy
  imports Path_Decider
begin

text \<open>
  \<open>internal/proxy/socks5.go\<close> and \<open>http_connect.go\<close>: one client connection, from the first byte
  to the relay. The handler is a function from the bytes the client sends (a read that needs
  tail fails, as at the deadline) to the trace of what the proxy does: bytes sent, dials,
  log records, the relay. Parameters: the result of each dial, which writes succeed, and
  \<open>http.ReadRequest\<close>, of which only the method, the host and the URL host are used.
\<close>

section \<open>Data\<close>

record conn_event =
  ce_proto :: string
  ce_client :: string
  ce_target :: string
  ce_host :: string
  ce_port :: int
  ce_via :: string
  ce_rule :: string
  ce_ok :: bool
  ce_error :: string
  ce_ms :: int

text \<open>A checker of the interface \<open>BypassChecker\<close>, which may also be a \<open>BypassMatcher\<close>.\<close>

datatype checker = AsMatcher bypass_api | AsChecker "string \<Rightarrow> bool"

datatype dialer = TunnelDialer | DirectDialer

record socks =
  so_allow :: "ipnet list"
  so_block :: "checker option"
  so_bypass :: "checker option"
  so_log :: bool

datatype action =
    Send string
  | Dial dialer string bool
  | Recorded conn_event
  | Relay

text \<open>The outcome of a dial: nil or the error text, and the milliseconds it took.\<close>

type_synonym dial_result = "dialer \<Rightarrow> string \<Rightarrow> string option \<times> int"

section \<open>Helpers of the handlers\<close>

definition set_allow_cidrs :: "ipnet list \<Rightarrow> socks \<Rightarrow> socks" where
  "set_allow_cidrs nets s = s\<lparr>so_allow := nets\<rparr>"

definition ip_allowed :: "string \<Rightarrow> ipnet list \<Rightarrow> bool" where
  "ip_allowed client nets =
     (if nets = [] then True
      else case parse_ip client of None \<Rightarrow> False | Some a \<Rightarrow> contains_ip nets a)"

definition match_checker :: "checker option \<Rightarrow> string \<Rightarrow> bool \<times> string" where
  "match_checker c host =
     (case c of
        None \<Rightarrow> (False, [])
      | Some (AsMatcher f) \<Rightarrow> f host
      | Some (AsChecker f) \<Rightarrow> (f host, []))"

definition client_ip_of :: "string option \<Rightarrow> string" where
  "client_ip_of remote =
     (case remote of
        None \<Rightarrow> []
      | Some a \<Rightarrow> (case split_host_port a of Inl e \<Rightarrow> a | Inr (host, port) \<Rightarrow> host))"

definition record_conn :: "socks \<Rightarrow> conn_event \<Rightarrow> action list" where
  "record_conn s e = (if so_log s then [Recorded e] else [])"

text \<open>The path of a destination: the dialer, its name for the log, and the rule.\<close>

definition choose_dialer :: "socks \<Rightarrow> string \<Rightarrow> dialer \<times> string \<times> string" where
  "choose_dialer s host =
     (case so_bypass s of
        None \<Rightarrow> (TunnelDialer, via_tunnel, [])
      | Some (AsMatcher f) \<Rightarrow>
          (let (hit, r) = f host in
           if hit then (DirectDialer, via_direct, r) else (TunnelDialer, via_tunnel, []))
      | Some (AsChecker f) \<Rightarrow>
          if f host then (DirectDialer, via_direct, []) else (TunnelDialer, via_tunnel, []))"

definition dial_target :: "socks \<Rightarrow> dial_result \<Rightarrow> string \<Rightarrow> string \<Rightarrow> action list \<times> string option \<times> string \<times> string \<times> int" where
  "dial_target s D host target =
     (let (d, via, rule) = choose_dialer s host; (err, ms) = D d target
      in ([Dial d target (err = None)], err, via, rule, ms))"

section \<open>From a parsed destination to the relay\<close>

text \<open>The texts sent on each outcome, which is all in which SOCKS5 and HTTP CONNECT differ.\<close>

record replies =
  rp_proto :: string
  rp_blocked :: string
  rp_failed :: string
  rp_ok :: string

definition serve_target ::
  "socks \<Rightarrow> dial_result \<Rightarrow> bool \<Rightarrow> replies \<Rightarrow> string \<Rightarrow> string \<Rightarrow> int \<Rightarrow> action list" where
  "serve_target s D reply_written rp client host port =
     (let target = join_host_port host (show_int port);
          ev = \<lparr>ce_proto = rp_proto rp, ce_client = client, ce_target = target, ce_host = host, ce_port = port,
                ce_via = via_drop, ce_rule = [], ce_ok = False, ce_error = [], ce_ms = 0\<rparr>;
          blocked = match_checker (so_block s) host
      in if fst blocked then
           record_conn s (ev\<lparr>ce_rule := snd blocked, ce_error := ''blocked''\<rparr>) @ [Send (rp_blocked rp)]
         else
           (let (dial, err, via, rule, ms) = dial_target s D host target in
            dial @
            (case err of
               Some e \<Rightarrow>
                 record_conn s (ev\<lparr>ce_via := via, ce_rule := rule, ce_error := e, ce_ms := ms\<rparr>) @
                 [Send (rp_failed rp)]
             | None \<Rightarrow>
                 record_conn s (ev\<lparr>ce_via := via, ce_rule := rule, ce_ok := True, ce_ms := ms\<rparr>) @
                 [Send (rp_ok rp)] @ (if reply_written then [Relay] else []))))"

section \<open>SOCKS5\<close>

definition bytes :: "nat list \<Rightarrow> string" where
  "bytes ns = map char_of ns"

definition socks_reply :: "nat \<Rightarrow> string" where
  "socks_reply code = bytes [5, code, 0, 1, 0, 0, 0, 0, 0, 0]"

definition socks_replies :: replies where
  "socks_replies =
     \<lparr>rp_proto = ''socks'', rp_blocked = socks_reply 2, rp_failed = socks_reply 5, rp_ok = socks_reply 0\<rparr>"

definition read_full :: "nat \<Rightarrow> string \<Rightarrow> (string \<times> string) option" where
  "read_full n s = (if length s < n then None else Some (take n s, drop n s))"

text \<open>The destination after the four header bytes: host and rest, or what ends the exchange.\<close>

datatype dest = DestEOF | DestRefused | DestHost string string

definition ip4_of_bytes :: "string \<Rightarrow> ip" where
  "ip4_of_bytes b = IP4 (of_octets (byte (b ! 0)) (byte (b ! 1)) (byte (b ! 2)) (byte (b ! 3)))"

definition ip6_of_bytes :: "string \<Rightarrow> ip" where
  "ip6_of_bytes b = IP6 (word_of_nat (foldl (\<lambda>a c. a * 256 + byte c) 0 b))"

definition read_dest :: "nat \<Rightarrow> string \<Rightarrow> dest" where
  "read_dest atyp s =
     (if atyp = 1 then
        (case read_full 4 s of
           None \<Rightarrow> DestEOF
         | Some (b, s1) \<Rightarrow> DestHost (show_ip (ip4_of_bytes b)) s1)
      else if atyp = 3 then
        (case read_full 1 s of
           None \<Rightarrow> DestEOF
         | Some (l, s1) \<Rightarrow>
             (case read_full (byte (hd l)) s1 of
                None \<Rightarrow> DestEOF
              | Some (h, s2) \<Rightarrow> DestHost h s2))
      else if atyp = 4 then
        (case read_full 16 s of
           None \<Rightarrow> DestEOF
         | Some (b, s1) \<Rightarrow>
             (case to4 (ip6_of_bytes b) of
                Some v4 \<Rightarrow> DestHost (show_ip (IP4 v4)) s1
              | None \<Rightarrow> DestRefused))
      else DestRefused)"

definition socks_request :: "socks \<Rightarrow> dial_result \<Rightarrow> bool \<Rightarrow> string \<Rightarrow> string \<Rightarrow> action list" where
  "socks_request s D written client input =
     (case read_full 4 input of
        None \<Rightarrow> []
      | Some (h, s1) \<Rightarrow>
          if byte (h ! 0) \<noteq> 5 \<or> byte (h ! 1) \<noteq> 1 then [Send (socks_reply 7)]
          else case read_dest (byte (h ! 3)) s1 of
            DestEOF \<Rightarrow> []
          | DestRefused \<Rightarrow> [Send (socks_reply 8)]
          | DestHost host s2 \<Rightarrow>
              (case read_full 2 s2 of
                 None \<Rightarrow> []
               | Some (p, s3) \<Rightarrow>
                   serve_target s D written socks_replies client host
                     (int (byte (p ! 0) * 256 + byte (p ! 1)))))"

definition socks_session :: "socks \<Rightarrow> dial_result \<Rightarrow> (nat \<Rightarrow> bool) \<Rightarrow> string \<Rightarrow> string \<Rightarrow> action list" where
  "socks_session s D W client input =
     (case read_full 2 input of
        None \<Rightarrow> []
      | Some (g, s1) \<Rightarrow>
          (case read_full (byte (g ! 1)) s1 of
             None \<Rightarrow> []
           | Some (ms, s2) \<Rightarrow>
               Send (bytes [5, 0]) # (if W 0 then socks_request s D (W 1) client s2 else [])))"

section \<open>HTTP CONNECT\<close>

record http_request =
  hr_method :: string
  hr_host :: string
  hr_url_host :: string

type_synonym read_request = "string \<Rightarrow> http_request option"

definition crlf :: string where
  "crlf = [CHR 0x0D, CHR 0x0A]"

definition http_close :: "string \<Rightarrow> string" where
  "http_close status = ''HTTP/1.1 '' @ status @ crlf @ ''Connection: close'' @ crlf @ crlf"

definition http_replies :: replies where
  "http_replies =
     \<lparr>rp_proto = ''http'', rp_blocked = http_close ''403 Forbidden'', rp_failed = http_close ''502 Bad Gateway'',
      rp_ok = ''HTTP/1.1 200 Connection Established'' @ crlf @ crlf\<rparr>"

definition handle_http :: "socks \<Rightarrow> dial_result \<Rightarrow> bool \<Rightarrow> read_request \<Rightarrow> string \<Rightarrow> string \<Rightarrow> action list" where
  "handle_http s D written read client input =
     (case read input of
        None \<Rightarrow> []
      | Some req \<Rightarrow>
          if hr_method req \<noteq> ''CONNECT'' then [Send (http_close ''405 Method Not Allowed'')]
          else
            (let hostport = (if hr_host req = [] then hr_url_host req else hr_host req);
                 (host0, port_text) =
                   (case split_host_port hostport of
                      Inl e \<Rightarrow> (trim_space hostport, ''443'')
                    | Inr hp \<Rightarrow> hp);
                 host = (case parse_ip host0 of
                           None \<Rightarrow> host0
                         | Some a \<Rightarrow> (case to4 a of None \<Rightarrow> host0 | Some v4 \<Rightarrow> show_ip (IP4 v4)))
             in case atoi port_text of
                  None \<Rightarrow> [Send (http_close ''400 Bad Request'')]
                | Some port \<Rightarrow>
                    if port \<le> 0 then [Send (http_close ''400 Bad Request'')]
                    else serve_target s D written http_replies client host port))"

section \<open>The connection handler\<close>

definition handle_conn ::
  "socks \<Rightarrow> dial_result \<Rightarrow> (nat \<Rightarrow> bool) \<Rightarrow> read_request \<Rightarrow> string option \<Rightarrow> string \<Rightarrow> action list" where
  "handle_conn s D W read remote input =
     (let client = client_ip_of remote in
      if so_allow s \<noteq> [] \<and> \<not> ip_allowed client (so_allow s) then []
      else if input = [] then []
      else if byte (hd input) \<noteq> 5 then handle_http s D (W 0) read client input
      else socks_session s D W client input)"

section \<open>What a client sends\<close>

datatype socks_dest = DestIPv4 "32 word" | DestName string | DestMapped "32 word"

fun dest_host :: "socks_dest \<Rightarrow> string" where
  "dest_host (DestIPv4 w) = show_ip (IP4 w)"
| "dest_host (DestName h) = h"
| "dest_host (DestMapped w) = show_ip (IP4 w)"

fun encode_dest :: "socks_dest \<Rightarrow> string" where
  "encode_dest (DestIPv4 w) = bytes (1 # octets w)"
| "encode_dest (DestName h) = bytes [3, length h] @ h"
| "encode_dest (DestMapped w) = bytes (4 # replicate 10 0 @ [255, 255] @ octets w)"

definition encode_connect :: "string \<Rightarrow> socks_dest \<Rightarrow> nat \<Rightarrow> string" where
  "encode_connect methods d port =
     bytes [5, length methods] @ methods @ bytes [5, 1, 0] @ encode_dest d @ bytes [port div 256, port mod 256]"

definition dest_fits :: "socks_dest \<Rightarrow> bool" where
  "dest_fits d \<longleftrightarrow> (case d of DestName h \<Rightarrow> length h < 256 | _ \<Rightarrow> True)"

lemma byte_char_of_mod: "byte (char_of (n::nat)) = n mod 256"
  by (simp add: byte_def)

lemma read_full_append [simp]: "length u = n \<Longrightarrow> read_full n (u @ v) = Some (u, v)"
  by (auto simp: read_full_def)

lemma octets_bytes: "map byte (bytes (octets w)) = octets w"
  using octets_less [of _ w] by (auto simp: bytes_def byte_char_of intro!: map_idI)

lemma octets_split:
  obtains a b c d where "octets w = [a, b, c, d]" "of_octets a b c d = w"
    "a < 256" "b < 256" "c < 256" "d < 256"
    "unat w = ((a * 256 + b) * 256 + c) * 256 + d"
proof -
  define a b c d where "a = octets w ! 0" and "b = octets w ! 1" and "c = octets w ! 2" and "d = octets w ! 3"
  have o: "octets w = [a, b, c, d]" by (simp add: a_def b_def c_def d_def octets_def)
  have w: "of_octets a b c d = w"
    using of_octets_octets [of w] by (simp add: a_def b_def c_def d_def octets_def)
  have lt: "a < 256" "b < 256" "c < 256" "d < 256" using octets_less [of _ w] by (simp_all add: o)
  then have v: "((a * 256 + b) * 256 + c) * 256 + d < 4294967296" by simp
  have "unat w = ((a * 256 + b) * 256 + c) * 256 + d"
    unfolding w [symmetric] of_octets_def by (rule unat_of_nat_32) (rule v)
  with o w lt show ?thesis by (rule that)
qed

lemma ip4_octets: "ip4_of_bytes (bytes (octets w)) = IP4 w"
  by (rule octets_split [of w]) (simp add: ip4_of_bytes_def bytes_def byte_char_of)

lemma foldl_bytes: "foldl (\<lambda>a c. a * 256 + byte c) n (bytes ns) = foldl (\<lambda>a k. a * 256 + k) n ns"
  if "\<And>k. k \<in> set ns \<Longrightarrow> k < 256"
  using that by (induction ns arbitrary: n) (simp_all add: bytes_def byte_char_of)

lemma mapped_value:
  "foldl (\<lambda>a k. a * 256 + k) 0 (replicate 10 0 @ [255, 255] @ octets w) = 65535 * 2 ^ 32 + unat w"
proof -
  have z: "foldl (\<lambda>a k. a * 256 + k) 0 (replicate n (0::nat)) = (0::nat)" for n by (induction n) simp_all
  show ?thesis by (rule octets_split [of w]) (simp add: z)
qed

lemma to4_mapped_bytes: "to4 (ip6_of_bytes (bytes (replicate 10 0 @ [255, 255] @ octets w))) = Some w"
proof -
  let ?v = "65535 * 2 ^ 32 + unat w" and ?bs = "replicate 10 0 @ [255, 255] @ octets w"
  define a :: "128 word" where "a = word_of_nat ?v"
  have small: "k < 256" if "k \<in> set ?bs" for k using that octets_less [of k w] by auto
  have w: "unat w < 2 ^ 32" using unsigned_less [of w] by simp
  then have u: "unat a = ?v" unfolding a_def by (subst unat_of_nat) simp
  have "unat (drop_bit 32 a) = 65535"
    using w by (simp only: unsigned_drop_bit_eq u) (simp add: drop_bit_eq_div take_bit_eq_mod)
  then have d: "drop_bit 32 a = 65535" by (simp add: word_unat_eq_iff)
  have "unat (ucast a :: 32 word) = unat w"
    using mod_mult_self3 [of 65535 "2 ^ 32" "unat w"] w
    by (simp only: unsigned_ucast_eq u take_bit_eq_mod) simp
  then have c: "(ucast a :: 32 word) = w" by (simp add: word_unat_eq_iff)
  have "foldl (\<lambda>a c. a * 256 + byte c) 0 (bytes ?bs) = ?v"
    by (rule trans [OF foldl_bytes mapped_value]) (rule small)
  then have "ip6_of_bytes (bytes ?bs) = IP6 a" by (simp only: ip6_of_bytes_def a_def)
  then show ?thesis using d c by simp
qed

lemma read_dest_encoded:
  assumes "dest_fits d"
  shows "\<exists>k rest. encode_dest d = char_of k # rest \<and> k < 256 \<and> read_dest k (rest @ tail) = DestHost (dest_host d) tail"
proof (cases d)
  case (DestIPv4 w)
  have "length (bytes (octets w)) = 4" by (simp add: bytes_def octets_def)
  then show ?thesis
    by (intro exI [of _ 1] exI [of _ "bytes (octets w)"])
      (simp add: DestIPv4 read_dest_def ip4_octets, simp add: bytes_def)
next
  case (DestName h)
  then have "length h < 256" using assms by (simp add: dest_fits_def)
  then show ?thesis
    using read_full_append [of "[char_of (length h)]" 1 "h @ tail"]
    by (intro exI [of _ 3] exI [of _ "char_of (length h) # h"])
      (simp add: DestName read_dest_def byte_char_of bytes_def)
next
  case (DestMapped w)
  let ?b = "bytes (replicate 10 0 @ [255, 255] @ octets w)"
  have l: "length ?b = 16" by (simp add: bytes_def octets_def)
  have e: "encode_dest d = char_of (4::nat) # ?b" by (simp add: DestMapped bytes_def)
  have "read_dest 4 (?b @ tail) = DestHost (dest_host d) tail"
    using l by (simp only: read_dest_def read_full_append option.case prod.case to4_mapped_bytes)
      (simp add: DestMapped)
  with e show ?thesis by (intro exI [of _ 4] exI [of _ ?b]) simp
qed

lemma port_bytes: "p < 65536 \<Longrightarrow> int (byte (bytes [p div 256, p mod 256] ! 0) * 256 + byte (bytes [p div 256, p mod 256] ! 1)) = int p"
  by (simp add: bytes_def byte_char_of_mod del: of_nat_add of_nat_mult)

text \<open>
  C6: the proxy reads what the client asked for. For every well-formed SOCKS5 CONNECT - any
  list of methods, an IPv4 address, a name or an IPv4-mapped address, any port - and
  whatever bytes follow, the proxy answers "no authentication" and then serves exactly that
  host and port (a mapped address as its IPv4 address).
\<close>

theorem socks_serves_requested_target:
  assumes "length methods < 256" "dest_fits d" "port < 65536"
  shows "socks_session s D W client (encode_connect methods d port @ rest) =
    Send (bytes [5, 0]) #
      (if W 0 then serve_target s D (W 1) socks_replies client (dest_host d) (int port) else [])"
proof -
  let ?pb = "bytes [port div 256, port mod 256]"
  obtain k r where d: "encode_dest d = char_of k # r" "k < 256"
    "read_dest k (r @ ?pb @ rest) = DestHost (dest_host d) (?pb @ rest)"
    using read_dest_encoded [OF assms(2), of "?pb @ rest"] by blast
  let ?req = "bytes [5, 1, 0] @ encode_dest d @ ?pb @ rest"
  have "?req = (bytes [5, 1, 0] @ [char_of k]) @ r @ ?pb @ rest" by (simp add: d(1))
  then have "read_full 4 ?req = Some (bytes [5, 1, 0] @ [char_of k], r @ ?pb @ rest)"
    using read_full_append [of "bytes [5, 1, 0] @ [char_of k]" 4] by (simp add: bytes_def)
  moreover have "read_full 2 (?pb @ rest) = Some (?pb, rest)"
    by (rule read_full_append) (simp add: bytes_def)
  moreover have "byte ((bytes [5, 1, 0] @ [char_of k]) ! 3) = k" "byte ((bytes [5, 1, 0] @ [char_of k]) ! 0) = 5"
    "byte ((bytes [5, 1, 0] @ [char_of k]) ! 1) = 1"
    using d(2) by (simp_all add: bytes_def byte_char_of numeral_eq_Suc)
  ultimately have req: "socks_request s D (W 1) client ?req =
      serve_target s D (W 1) socks_replies client (dest_host d) (int port)"
    by (simp only: socks_request_def option.case prod.case d(3) dest.case port_bytes [OF assms(3)]) simp
  have "read_full 2 (encode_connect methods d port @ rest) =
      Some (bytes [5, length methods], methods @ ?req)"
    using read_full_append [of "bytes [5, length methods]" 2 "methods @ ?req"]
    by (simp add: encode_connect_def bytes_def)
  moreover have "byte (bytes [5, length methods] ! 1) = length methods"
    using assms(1) by (simp add: bytes_def byte_char_of)
  ultimately show ?thesis
    by (simp only: socks_session_def option.case prod.case read_full_append req)
qed

theorem socks_serves_requested_target_witness:
  "socks_session \<lparr>so_allow = [], so_block = None, so_bypass = None, so_log = False\<rparr>
     (\<lambda>d t. (None, 1)) (\<lambda>k. True) ''c'' (encode_connect (bytes [0, 2]) (DestIPv4 0x01020304) 443 @ ''xyz'') =
   [Send (bytes [5, 0]), Dial TunnelDialer ''1.2.3.4:443'' True, Send (socks_reply 0), Relay]"
proof -
  have "length (bytes [0, 2]) < 256" "dest_fits (DestIPv4 0x01020304)"
    by (simp_all add: bytes_def dest_fits_def)
  from socks_serves_requested_target [OF this, of 443] show ?thesis
    by (simp add: serve_target_def dial_target_def choose_dialer_def match_checker_def record_conn_def
        socks_replies_def Let_def) code_simp
qed

section \<open>What the proxy may do\<close>

definition sends :: "action list \<Rightarrow> bool" where
  "sends tr \<longleftrightarrow> list_all (\<lambda>a. case a of Send b \<Rightarrow> True | _ \<Rightarrow> False) tr"

lemma sends_simps [simp]: "sends []" "sends (Send b # tr) = sends tr"
  by (simp_all add: sends_def)

lemma sends_no [simp]: "sends tr \<Longrightarrow> Dial d t ok \<notin> set tr" "sends tr \<Longrightarrow> Relay \<notin> set tr"
  by (auto simp: sends_def list_all_iff)

definition only_serves :: "socks \<Rightarrow> dial_result \<Rightarrow> string \<Rightarrow> action list \<Rightarrow> bool" where
  "only_serves s D client tr \<longleftrightarrow>
     (\<exists>pre post. tr = pre @ post \<and> sends pre \<and>
        (post = [] \<or> (\<exists>w rp host port. post = serve_target s D w rp client host port)))"

lemma only_serves_sends: "sends tr \<Longrightarrow> only_serves s D client tr"
  by (auto simp: only_serves_def)

lemma only_serves_target: "only_serves s D client (serve_target s D w rp client host port)"
  unfolding only_serves_def
  by (intro exI [of _ "[]"] exI [of _ "serve_target s D w rp client host port"]) auto

lemma only_serves_Cons: "only_serves s D client tr \<Longrightarrow> only_serves s D client (Send b # tr)"
  unfolding only_serves_def by (metis append_Cons sends_simps(2))

lemma socks_request_serves: "only_serves s D client (socks_request s D w client input)"
  by (auto simp: socks_request_def only_serves_sends only_serves_target split: option.split dest.split)

lemma socks_session_serves: "only_serves s D client (socks_session s D W client input)"
  by (auto simp: socks_session_def only_serves_sends only_serves_Cons socks_request_serves split: option.split)

lemma handle_http_serves: "only_serves s D client (handle_http s D w read client input)"
  by (auto simp: handle_http_def Let_def only_serves_sends only_serves_target
      split: option.split prod.split)

lemma handle_conn_serves: "only_serves s D (client_ip_of remote) (handle_conn s D W read remote input)"
  by (simp add: handle_conn_def Let_def only_serves_sends socks_session_serves handle_http_serves)

lemma serve_target_dial:
  assumes "Dial d t ok \<in> set (serve_target s D w rp client host port)"
  shows "t = join_host_port host (show_int port) \<and> \<not> fst (match_checker (so_block s) host) \<and>
    d = fst (choose_dialer s host) \<and> ok = (fst (D d t) = None)"
  using assms
  by (auto simp: serve_target_def dial_target_def record_conn_def Let_def case_prod_beta split: if_splits option.splits)

lemma serve_target_relay:
  assumes "Relay \<in> set (serve_target s D w rp client host port)"
  shows "\<exists>d t pre. serve_target s D w rp client host port = pre @ [Relay] \<and> Relay \<notin> set pre \<and> Dial d t True \<in> set pre \<and>
    (so_log s \<longrightarrow> (\<exists>e. Recorded e \<in> set pre \<and> ce_ok e \<and> ce_target e = t \<and> ce_client e = client))"
proof -
  let ?t = "join_host_port host (show_int port)" and ?d = "fst (choose_dialer s host)"
  have ok: "\<not> fst (match_checker (so_block s) host)" "fst (D ?d ?t) = None" "w"
    using assms by (auto simp: serve_target_def dial_target_def record_conn_def Let_def case_prod_beta
        split: if_splits option.splits)
  then obtain e where e: "serve_target s D w rp client host port =
      Dial ?d ?t True # record_conn s e @ [Send (rp_ok rp)] @ [Relay]" "ce_ok e" "ce_target e = ?t" "ce_client e = client"
    by (auto simp: serve_target_def dial_target_def Let_def case_prod_beta)
  show ?thesis
    by (intro exI [of _ ?d] exI [of _ ?t] exI [of _ "Dial ?d ?t True # record_conn s e @ [Send (rp_ok rp)]"])
      (use e in \<open>auto simp: record_conn_def\<close>)
qed

text \<open>
  C7: whatever bytes arrive (SOCKS5, HTTP or garbage, cut off anywhere), the proxy dials only
  a host that the block list does not match, through the dialer that the bypass list selects
  for that host, and only for a client the allow list admits; and it starts a relay only as
  its last action, after a successful dial that it has logged as successful.
\<close>

theorem proxy_dials_only_permitted:
  "(Dial d t ok \<in> set (handle_conn s D W read remote input) \<longrightarrow>
      (so_allow s = [] \<or> ip_allowed (client_ip_of remote) (so_allow s)) \<and>
      (\<exists>host port. t = join_host_port host (show_int port) \<and> \<not> fst (match_checker (so_block s) host) \<and>
         d = fst (choose_dialer s host))) \<and>
   (Relay \<in> set (handle_conn s D W read remote input) \<longrightarrow>
      (\<exists>e u pre. handle_conn s D W read remote input = pre @ [Relay] \<and> Relay \<notin> set pre \<and>
         Dial e u True \<in> set pre \<and> (so_log s \<longrightarrow> (\<exists>v. Recorded v \<in> set pre \<and> ce_ok v \<and> ce_target v = u))))"
proof -
  let ?tr = "handle_conn s D W read remote input"
  obtain pre post where tr: "?tr = pre @ post" and pre: "sends pre"
    and post: "post = [] \<or> (\<exists>w rp host port. post = serve_target s D w rp (client_ip_of remote) host port)"
    using handle_conn_serves [of s D remote W read input] unfolding only_serves_def by blast
  have a: "so_allow s = [] \<or> ip_allowed (client_ip_of remote) (so_allow s)" if "?tr \<noteq> []"
    using that by (auto simp: handle_conn_def Let_def split: if_splits)
  have 1: "Dial d t ok \<in> set ?tr \<longrightarrow> (\<exists>host port. t = join_host_port host (show_int port) \<and>
      \<not> fst (match_checker (so_block s) host) \<and> d = fst (choose_dialer s host))"
    using pre post serve_target_dial unfolding tr by fastforce
  have 2: "\<exists>e u pr. ?tr = pr @ [Relay] \<and> Relay \<notin> set pr \<and> Dial e u True \<in> set pr \<and>
      (so_log s \<longrightarrow> (\<exists>v. Recorded v \<in> set pr \<and> ce_ok v \<and> ce_target v = u))" if "Relay \<in> set ?tr"
  proof -
    have "Relay \<in> set post" using that pre by (auto simp: tr)
    then obtain w rp host port where p: "post = serve_target s D w rp (client_ip_of remote) host port"
      and r: "Relay \<in> set (serve_target s D w rp (client_ip_of remote) host port)" using post by auto
    from serve_target_relay [OF r] obtain e u pr where "post = pr @ [Relay]" "Relay \<notin> set pr" "Dial e u True \<in> set pr"
      "so_log s \<longrightarrow> (\<exists>v. Recorded v \<in> set pr \<and> ce_ok v \<and> ce_target v = u)" unfolding p by blast
    then show ?thesis using pre by (intro exI [of _ e] exI [of _ u] exI [of _ "pre @ pr"]) (auto simp: tr)
  qed
  show ?thesis using a 1 2 by fastforce
qed

definition sample_socks :: socks where
  "sample_socks = \<lparr>so_allow = [Net4 0xC0A80000 16], so_block = Some (AsChecker (\<lambda>h. h = ''bad.example'')),
     so_bypass = None, so_log = False\<rparr>"

theorem proxy_dials_only_permitted_witness:
  "let tr = handle_conn sample_socks (\<lambda>d t. (None, 1)) (\<lambda>k. True) (\<lambda>b. None) (Some ''192.168.1.5:999'')
         (encode_connect (bytes [0]) (DestName ''ok.example'') 80)
   in Dial TunnelDialer ''ok.example:80'' True \<in> set tr \<and>
      ip_allowed (client_ip_of (Some ''192.168.1.5:999'')) (so_allow sample_socks)"
proof -
  let ?tr = "handle_conn sample_socks (\<lambda>d t. (None, 1)) (\<lambda>k. True) (\<lambda>b. None) (Some ''192.168.1.5:999'')
         (encode_connect (bytes [0]) (DestName ''ok.example'') 80)"
  have d: "Dial TunnelDialer ''ok.example:80'' True \<in> set ?tr" by code_simp
  have "so_allow sample_socks \<noteq> []" by (simp add: sample_socks_def)
  with proxy_dials_only_permitted [of TunnelDialer "''ok.example:80''" True sample_socks "\<lambda>d t. (None, 1)"
      "\<lambda>k. True" "\<lambda>b. None" "Some ''192.168.1.5:999''" "encode_connect (bytes [0]) (DestName ''ok.example'') 80"] d
  show ?thesis by (simp add: Let_def)
qed

section \<open>The two surfaces agree\<close>

definition live_socks :: "unicode \<Rightarrow> manager \<Rightarrow> manager \<Rightarrow> socks" where
  "live_socks U user block =
     \<lparr>so_allow = [], so_block = Some (AsMatcher (match_bypass U block)),
      so_bypass = Some (AsMatcher (match_bypass U user)), so_log = True\<rparr>"

text \<open>The path a proxied destination takes, by name.\<close>

definition socks_via :: "socks \<Rightarrow> string \<Rightarrow> string" where
  "socks_via s host =
     (if fst (match_checker (so_block s) host) then via_drop else fst (snd (choose_dialer s host)))"

lemma socks_via_live:
  "socks_via (live_socks U user block) (show_ip a) =
     (if fst (match_ip_detail block (Some a)) then via_drop
      else if fst (match_ip_detail user (Some a)) then via_direct else via_tunnel)"
  by (simp add: socks_via_def live_socks_def match_checker_def choose_dialer_def user_bypass.literal
      case_prod_beta Let_def)



end
