(* ===== verification/Nft_Gateway.thy ===== *)
theory Nft_Gateway
  imports Path_Decider
begin

text \<open>
  \<open>internal/gateway/gateway.go\<close>: the nftables rules of the L3 gateway. A script is a list of
  commands, printed as the code prints it; \<open>build_nft_script\<close>, the element lists and the state
  machine of Apply, UpdateEngine and Flush are the code's. Whether nft takes a script is a
  parameter. What an accepted script does to the table, and what the rules of a chain do to a
  packet, is the documented meaning of these few nftables commands: sets and chains grow by
  \<open>add\<close>, the rules of a chain are tried in order, the first whose matches all hold decides,
  otherwise the policy of the chain - accept - does.
\<close>

section \<open>Commands and their text\<close>

datatype nft_set = SetPrivate | SetBypass | SetTunnel

datatype chain = Prerouting | Output | FilterOut | FilterFwd | Postrouting

datatype nft_match =
    TcpDport int
  | DaddrIn nft_set
  | SaddrIn nft_set
  | SaddrLoopback
  | OifName string
  | IpProtoTcp
  | UdpQuic

datatype verdict = Return | RedirectTo int | Reject | Masquerade

datatype nft_cmd =
    DeleteTable
  | AddTable
  | AddSet nft_set
  | AddElement nft_set ipnet
  | FlushSet nft_set
  | AddChain chain
  | AddRule chain "nft_match list" verdict

definition table_name :: string where
  "table_name = ''outline_gate''"

fun show_set :: "nft_set \<Rightarrow> string" where
  "show_set SetPrivate = ''private''"
| "show_set SetBypass = ''bypass''"
| "show_set SetTunnel = ''tunnel''"

fun show_chain :: "chain \<Rightarrow> string" where
  "show_chain Prerouting = ''prerouting''"
| "show_chain Output = ''output''"
| "show_chain FilterOut = ''filter_out''"
| "show_chain FilterFwd = ''filter_fwd''"
| "show_chain Postrouting = ''postrouting''"

fun chain_hook :: "chain \<Rightarrow> string" where
  "chain_hook Prerouting = ''type nat hook prerouting priority dstnat''"
| "chain_hook Output = ''type nat hook output priority dstnat''"
| "chain_hook FilterOut = ''type filter hook output priority filter''"
| "chain_hook FilterFwd = ''type filter hook forward priority filter''"
| "chain_hook Postrouting = ''type nat hook postrouting priority srcnat''"

text \<open>The verb \<open>%q\<close>; for text beyond ASCII its result is a parameter.\<close>

definition quote_char :: "char \<Rightarrow> string" where
  "quote_char c =
     (let hex = (\<lambda>n. if n < 10 then char_of (48 + n) else char_of (87 + n :: nat)) in
      if c = CHR 0x22 \<or> c = CHR 0x5C then [CHR 0x5C, c]
      else if byte c = 7 then [CHR 0x5C, CHR ''a'']
      else if byte c = 8 then [CHR 0x5C, CHR ''b'']
      else if byte c = 12 then [CHR 0x5C, CHR ''f'']
      else if byte c = 10 then [CHR 0x5C, CHR ''n'']
      else if byte c = 13 then [CHR 0x5C, CHR ''r'']
      else if byte c = 9 then [CHR 0x5C, CHR ''t'']
      else if byte c = 11 then [CHR 0x5C, CHR ''v'']
      else if byte c < 32 \<or> byte c = 127 then [CHR 0x5C, CHR ''x'', hex (byte c div 16), hex (byte c mod 16)]
      else [c])"

definition go_quote :: "(string \<Rightarrow> string) \<Rightarrow> string \<Rightarrow> string" where
  "go_quote Q s = (if is_ascii s then [CHR 0x22] @ concat (map quote_char s) @ [CHR 0x22] else Q s)"

fun show_match :: "(string \<Rightarrow> string) \<Rightarrow> nft_match \<Rightarrow> string" where
  "show_match Q (TcpDport p) = ''tcp dport '' @ show_int p"
| "show_match Q (DaddrIn s) = ''ip daddr @'' @ show_set s"
| "show_match Q (SaddrIn s) = ''ip saddr @'' @ show_set s"
| "show_match Q SaddrLoopback = ''ip saddr 127.0.0.0/8''"
| "show_match Q (OifName i) = ''oifname '' @ go_quote Q i"
| "show_match Q IpProtoTcp = ''ip protocol tcp''"
| "show_match Q UdpQuic = ''udp dport { 443, 5228 }''"

fun show_verdict :: "verdict \<Rightarrow> string" where
  "show_verdict Return = ''return''"
| "show_verdict (RedirectTo p) = ''redirect to :'' @ show_int p"
| "show_verdict Reject = ''reject''"
| "show_verdict Masquerade = ''masquerade''"

fun show_cmd :: "(string \<Rightarrow> string) \<Rightarrow> nft_cmd \<Rightarrow> string" where
  "show_cmd Q DeleteTable = ''delete table inet '' @ table_name"
| "show_cmd Q AddTable = ''add table inet '' @ table_name @ [CHR 0x0A]"
| "show_cmd Q (AddSet s) =
     ''add set inet '' @ table_name @ '' '' @ show_set s @ '' { type ipv4_addr; flags interval; }'' @ [CHR 0x0A]"
| "show_cmd Q (AddElement s n) =
     ''add element inet '' @ table_name @ '' '' @ show_set s @ '' { '' @ show_net n @ '' }'' @ [CHR 0x0A]"
| "show_cmd Q (FlushSet s) = ''flush set inet '' @ table_name @ '' '' @ show_set s @ [CHR 0x0A]"
| "show_cmd Q (AddChain c) =
     ''add chain inet '' @ table_name @ '' '' @ show_chain c @ '' { '' @ chain_hook c @ ''; policy accept; }'' @ [CHR 0x0A]"
| "show_cmd Q (AddRule c ms v) =
     ''add rule inet '' @ table_name @ '' '' @ show_chain c @ concat (map (\<lambda>m. '' '' @ show_match Q m) ms) @
     '' '' @ show_verdict v @ [CHR 0x0A]"

definition show_script :: "(string \<Rightarrow> string) \<Rightarrow> nft_cmd list \<Rightarrow> string" where
  "show_script Q cmds = concat (map (show_cmd Q) cmds)"

section \<open>Building the scripts\<close>

fun net_ip :: "ipnet \<Rightarrow> ip" where
  "net_ip (Net4 a n) = IP4 a"
| "net_ip (Net6 a n) = IP6 a"

definition v4_nets :: "ipnet list \<Rightarrow> ipnet list" where
  "v4_nets ns = filter (\<lambda>n. to4 (net_ip n) \<noteq> None) ns"

definition set_elements :: "nft_set \<Rightarrow> ipnet list \<Rightarrow> nft_cmd list" where
  "set_elements s ns = map (AddElement s) (dedup_by show_net {} (v4_nets ns))"

definition output_redirect :: "config \<Rightarrow> int \<Rightarrow> nft_cmd list" where
  "output_redirect c port =
     (let iface = trim_space (cf_awg_iface c) in
      [AddRule Output [TcpDport port] Return] @
      (if iface \<noteq> [] then [AddRule Output [OifName iface] Return] else []) @
      [AddRule Output [SaddrIn SetPrivate] Return, AddRule Output [DaddrIn SetPrivate] Return] @
      (if cf_mode c = ModeInclude then [AddRule Output [DaddrIn SetTunnel, IpProtoTcp] (RedirectTo port)]
       else [AddRule Output [DaddrIn SetBypass] Return, AddRule Output [IpProtoTcp] (RedirectTo port)]))"

definition nft_script :: "config \<Rightarrow> engine \<Rightarrow> nft_cmd list" where
  "nft_script c e =
     (let port = cf_trans_port c; awg = trim_space (cf_awg_iface c); lan = trim_space (cf_lan c) in
      [AddTable, AddSet SetPrivate] @ map (AddElement SetPrivate) (v4_nets default_bypass_cidrs) @
      [AddSet SetBypass] @ set_elements SetBypass (bypass_nets e) @
      [AddSet SetTunnel] @ set_elements SetTunnel (tunnel_nets e) @
      [AddChain Prerouting, AddChain Output,
       AddRule Prerouting [TcpDport port] Return,
       AddRule Prerouting [DaddrIn SetPrivate] Return,
       AddRule Prerouting [IpProtoTcp] (RedirectTo port)] @
      (if cf_gateway_output c then
         output_redirect c port @
         [AddChain FilterOut, AddRule FilterOut [DaddrIn SetPrivate] Return, AddRule FilterOut [DaddrIn SetBypass] Return] @
         (if awg \<noteq> [] then [AddRule FilterOut [OifName awg] Return] else []) @
         [AddRule FilterOut [UdpQuic] Reject]
       else []) @
      [AddChain FilterFwd, AddRule FilterFwd [DaddrIn SetPrivate] Return, AddRule FilterFwd [UdpQuic] Reject,
       AddChain Postrouting, AddRule Postrouting [SaddrLoopback] Return, AddRule Postrouting [OifName ''lo''] Return] @
      (if awg \<noteq> [] then [AddRule Postrouting [OifName awg] Return] else []) @
      (if lan \<noteq> [] then [AddRule Postrouting [OifName lan] Masquerade] else [AddRule Postrouting [] Masquerade]))"

datatype script_error = NilEngine | BadPort

definition build_nft_script :: "config \<Rightarrow> engine option \<Rightarrow> script_error + nft_cmd list" where
  "build_nft_script c eng =
     (case eng of
        None \<Rightarrow> Inl NilEngine
      | Some e \<Rightarrow> if cf_trans_port c \<le> 0 then Inl BadPort else Inr (nft_script c e))"

definition patch_script :: "engine \<Rightarrow> nft_cmd list" where
  "patch_script e =
     [FlushSet SetBypass] @ set_elements SetBypass (bypass_nets e) @
     [FlushSet SetTunnel] @ set_elements SetTunnel (tunnel_nets e)"

section \<open>The table an accepted script leaves\<close>

record nft_table =
  nt_sets :: "nft_set \<Rightarrow> ipnet list"
  nt_rules :: "chain \<Rightarrow> (nft_match list \<times> verdict) list"

definition empty_table :: nft_table where
  "empty_table = \<lparr>nt_sets = (\<lambda>s. []), nt_rules = (\<lambda>c. [])\<rparr>"

fun exec_cmd :: "nft_cmd \<Rightarrow> nft_table option \<Rightarrow> nft_table option" where
  "exec_cmd DeleteTable k = None"
| "exec_cmd AddTable k = (case k of None \<Rightarrow> Some empty_table | Some t \<Rightarrow> Some t)"
| "exec_cmd (AddSet s) k = k"
| "exec_cmd (AddElement s n) k = map_option (\<lambda>t. t\<lparr>nt_sets := (nt_sets t)(s := nt_sets t s @ [n])\<rparr>) k"
| "exec_cmd (FlushSet s) k = map_option (\<lambda>t. t\<lparr>nt_sets := (nt_sets t)(s := [])\<rparr>) k"
| "exec_cmd (AddChain c) k = k"
| "exec_cmd (AddRule c ms v) k = map_option (\<lambda>t. t\<lparr>nt_rules := (nt_rules t)(c := nt_rules t c @ [(ms, v)])\<rparr>) k"

definition exec_script :: "nft_cmd list \<Rightarrow> nft_table option \<Rightarrow> nft_table option" where
  "exec_script cmds k = fold exec_cmd cmds k"

section \<open>Apply, UpdateEngine, Flush\<close>

record gateway =
  gw_cfg :: config
  gw_engine :: "engine option"
  gw_active :: bool

definition new_gateway :: "config \<Rightarrow> engine option \<Rightarrow> gateway" where
  "new_gateway c e = \<lparr>gw_cfg = c, gw_engine = e, gw_active = False\<rparr>"

text \<open>\<open>N cmds k\<close> is the error text of nft, if it refuses the script; a refused script changes nothing.\<close>

type_synonym nft = "nft_cmd list \<Rightarrow> nft_table option \<Rightarrow> string option"

definition run_nft :: "nft \<Rightarrow> nft_cmd list \<Rightarrow> nft_table option \<Rightarrow> string option \<times> nft_table option" where
  "run_nft N cmds k = (case N cmds k of None \<Rightarrow> (None, exec_script cmds k) | Some e \<Rightarrow> (Some e, k))"

datatype gateway_error = ScriptError script_error | NftError string

definition patch_sets :: "nft \<Rightarrow> gateway \<Rightarrow> nft_table option \<Rightarrow> gateway_error option \<times> nft_table option" where
  "patch_sets N g k =
     (case gw_engine g of
        None \<Rightarrow> (Some (ScriptError NilEngine), k)
      | Some e \<Rightarrow> (case run_nft N (patch_script e) k of (r, k1) \<Rightarrow> (map_option NftError r, k1)))"

definition full_apply ::
  "nft \<Rightarrow> gateway \<Rightarrow> nft_table option \<Rightarrow> gateway_error option \<times> gateway \<times> nft_table option" where
  "full_apply N g k =
     (case build_nft_script (gw_cfg g) (gw_engine g) of
        Inl e \<Rightarrow> (Some (ScriptError e), g, k)
      | Inr cmds \<Rightarrow>
          (let k1 = snd (run_nft N [DeleteTable] k) in
           case run_nft N cmds k1 of
             (Some e, k2) \<Rightarrow> (Some (NftError e), g\<lparr>gw_active := False\<rparr>, k2)
           | (None, k2) \<Rightarrow> (None, g\<lparr>gw_active := True\<rparr>, k2)))"

definition apply_locked ::
  "nft \<Rightarrow> gateway \<Rightarrow> nft_table option \<Rightarrow> gateway_error option \<times> gateway \<times> nft_table option" where
  "apply_locked N g k =
     (if gw_active g then
        (case patch_sets N g k of
           (None, k1) \<Rightarrow> (None, g, k1)
         | (Some e, k1) \<Rightarrow> full_apply N g k1)
      else full_apply N g k)"

definition update_engine ::
  "nft \<Rightarrow> engine option \<Rightarrow> gateway \<Rightarrow> nft_table option \<Rightarrow> gateway_error option \<times> gateway \<times> nft_table option" where
  "update_engine N eng g k =
     (let g1 = g\<lparr>gw_engine := eng\<rparr> in if \<not> gw_active g1 then (None, g1, k) else apply_locked N g1 k)"

definition is_nft_not_found :: "unicode \<Rightarrow> string \<Rightarrow> bool" where
  "is_nft_not_found U e =
     (let msg = to_lower U e in
      contains msg ''no such file'' \<or> contains msg ''does not exist'' \<or> contains msg ''not found'' \<or>
      contains msg ''no such file or directory'')"

definition flush_gateway ::
  "unicode \<Rightarrow> nft \<Rightarrow> gateway \<Rightarrow> nft_table option \<Rightarrow> gateway_error option \<times> gateway \<times> nft_table option" where
  "flush_gateway U N g k =
     (case run_nft N [DeleteTable] k of
        (r, k1) \<Rightarrow>
          ((case r of Some e \<Rightarrow> if is_nft_not_found U e then None else Some (NftError e) | None \<Rightarrow> None),
           g\<lparr>gw_active := False\<rparr>, k1))"

section \<open>What a packet meets\<close>

datatype proto = Tcp | Udp | OtherProto

record packet =
  pk_src :: ip
  pk_dst :: ip
  pk_proto :: proto
  pk_dport :: int
  pk_oif :: string

fun is_v4 :: "ip \<Rightarrow> bool" where
  "is_v4 (IP4 w) = True"
| "is_v4 (IP6 w) = False"

text \<open>An interface name of a rule that ends in a star stands for every name it begins.\<close>

definition oif_matches :: "string \<Rightarrow> string \<Rightarrow> bool" where
  "oif_matches pat name = (if has_suffix pat ''*'' then has_prefix name (butlast pat) else name = pat)"

fun matches :: "nft_table \<Rightarrow> packet \<Rightarrow> nft_match \<Rightarrow> bool" where
  "matches t p (TcpDport d) \<longleftrightarrow> pk_proto p = Tcp \<and> pk_dport p = d"
| "matches t p (DaddrIn s) \<longleftrightarrow> is_v4 (pk_dst p) \<and> contains_ip (nt_sets t s) (pk_dst p)"
| "matches t p (SaddrIn s) \<longleftrightarrow> is_v4 (pk_src p) \<and> contains_ip (nt_sets t s) (pk_src p)"
| "matches t p SaddrLoopback \<longleftrightarrow> is_v4 (pk_src p) \<and> net_contains (Net4 0x7F000000 8) (pk_src p)"
| "matches t p (OifName i) \<longleftrightarrow> oif_matches i (pk_oif p)"
| "matches t p IpProtoTcp \<longleftrightarrow> is_v4 (pk_dst p) \<and> pk_proto p = Tcp"
| "matches t p UdpQuic \<longleftrightarrow> pk_proto p = Udp \<and> pk_dport p \<in> {443, 5228}"

fun first_verdict :: "nft_table \<Rightarrow> packet \<Rightarrow> (nft_match list \<times> verdict) list \<Rightarrow> verdict option" where
  "first_verdict t p [] = None"
| "first_verdict t p ((ms, v) # rs) = (if list_all (matches t p) ms then Some v else first_verdict t p rs)"

definition chain_verdict :: "nft_table \<Rightarrow> chain \<Rightarrow> packet \<Rightarrow> verdict option" where
  "chain_verdict t c p = first_verdict t p (nt_rules t c)"

section \<open>The table of a configuration and an engine\<close>

fun table_sets :: "engine \<Rightarrow> nft_set \<Rightarrow> ipnet list" where
  "table_sets e SetPrivate = v4_nets default_bypass_cidrs"
| "table_sets e SetBypass = dedup_by show_net {} (v4_nets (bypass_nets e))"
| "table_sets e SetTunnel = dedup_by show_net {} (v4_nets (tunnel_nets e))"

fun table_rules :: "config \<Rightarrow> chain \<Rightarrow> (nft_match list \<times> verdict) list" where
  "table_rules c Prerouting =
     [([TcpDport (cf_trans_port c)], Return), ([DaddrIn SetPrivate], Return),
      ([IpProtoTcp], RedirectTo (cf_trans_port c))]"
| "table_rules c Output =
     (if \<not> cf_gateway_output c then []
      else [([TcpDport (cf_trans_port c)], Return)] @
        (if trim_space (cf_awg_iface c) \<noteq> [] then [([OifName (trim_space (cf_awg_iface c))], Return)] else []) @
        [([SaddrIn SetPrivate], Return), ([DaddrIn SetPrivate], Return)] @
        (if cf_mode c = ModeInclude then [([DaddrIn SetTunnel, IpProtoTcp], RedirectTo (cf_trans_port c))]
         else [([DaddrIn SetBypass], Return), ([IpProtoTcp], RedirectTo (cf_trans_port c))]))"
| "table_rules c FilterOut =
     (if \<not> cf_gateway_output c then []
      else [([DaddrIn SetPrivate], Return), ([DaddrIn SetBypass], Return)] @
        (if trim_space (cf_awg_iface c) \<noteq> [] then [([OifName (trim_space (cf_awg_iface c))], Return)] else []) @
        [([UdpQuic], Reject)])"
| "table_rules c FilterFwd = [([DaddrIn SetPrivate], Return), ([UdpQuic], Reject)]"
| "table_rules c Postrouting =
     [([SaddrLoopback], Return), ([OifName ''lo''], Return)] @
     (if trim_space (cf_awg_iface c) \<noteq> [] then [([OifName (trim_space (cf_awg_iface c))], Return)] else []) @
     [(if trim_space (cf_lan c) \<noteq> [] then [OifName (trim_space (cf_lan c))] else [], Masquerade)]"

definition gateway_table :: "config \<Rightarrow> engine \<Rightarrow> nft_table" where
  "gateway_table c e = \<lparr>nt_sets = table_sets e, nt_rules = table_rules c\<rparr>"

lemma exec_script_simps [simp]:
  "exec_script [] k = k"
  "exec_script (cmd # cmds) k = exec_script cmds (exec_cmd cmd k)"
  "exec_script (xs @ ys) k = exec_script ys (exec_script xs k)"
  by (simp_all add: exec_script_def)

lemma exec_elements [simp]:
  "exec_script (map (AddElement s) ns) (Some t) = Some (t\<lparr>nt_sets := (nt_sets t)(s := nt_sets t s @ ns)\<rparr>)"
  by (induction ns arbitrary: t) simp_all

lemma exec_set_elements [simp]:
  "exec_script (set_elements s ns) (Some t) =
     Some (t\<lparr>nt_sets := (nt_sets t)(s := nt_sets t s @ dedup_by show_net {} (v4_nets ns))\<rparr>)"
  by (simp add: set_elements_def)

lemma nft_table_eqI: "nt_sets s = nt_sets t \<Longrightarrow> nt_rules s = nt_rules t \<Longrightarrow> s = (t :: nft_table)"
  by (cases s; cases t) simp

lemma all_sets: "(\<forall>s. f s = g s) \<longleftrightarrow> f SetPrivate = g SetPrivate \<and> f SetBypass = g SetBypass \<and> f SetTunnel = g SetTunnel"
  by (metis nft_set.exhaust)

lemma all_chains:
  "(\<forall>c. f c = g c) \<longleftrightarrow>
     f Prerouting = g Prerouting \<and> f Output = g Output \<and> f FilterOut = g FilterOut \<and>
     f FilterFwd = g FilterFwd \<and> f Postrouting = g Postrouting"
  by (metis chain.exhaust)

text \<open>The whole script builds exactly this table, and the patch of the sets moves it to another engine.\<close>

lemma nft_script_table: "exec_script (nft_script c e) None = Some (gateway_table c e)"
proof -
  have "\<exists>t. exec_script (nft_script c e) None = Some t \<and> nt_sets t = table_sets e \<and> nt_rules t = table_rules c"
    unfolding nft_script_def output_redirect_def Let_def
    by (auto simp: empty_table_def fun_eq_iff all_sets all_chains)
  then show ?thesis
    by (auto simp: gateway_table_def intro: nft_table_eqI)
qed

lemma patch_script_table: "exec_script (patch_script e') (Some (gateway_table c e)) = Some (gateway_table c e')"
  unfolding patch_script_def gateway_table_def
  by (simp add: fun_eq_iff all_sets)

section \<open>The kernel follows the engine\<close>

text \<open>The documented behaviour of nft that the code relies on: an existing table can be deleted.\<close>

definition nft_deletes :: "nft \<Rightarrow> bool" where
  "nft_deletes N \<longleftrightarrow> (\<forall>t. N [DeleteTable] (Some t) = None)"

lemma run_delete:
  assumes "nft_deletes N"
  shows "snd (run_nft N [DeleteTable] k) = None"
  using assms by (cases k) (auto simp: run_nft_def nft_deletes_def split: option.split)

datatype gateway_op = OpApply | OpUpdate "engine option" | OpFlush

fun gateway_step ::
  "unicode \<Rightarrow> nft \<Rightarrow> gateway_op \<Rightarrow> gateway \<times> nft_table option \<Rightarrow> gateway_error option \<times> gateway \<times> nft_table option" where
  "gateway_step U N OpApply (g, k) = apply_locked N g k"
| "gateway_step U N (OpUpdate eng) (g, k) = update_engine N eng g k"
| "gateway_step U N OpFlush (g, k) = flush_gateway U N g k"

inductive gateway_run :: "unicode \<Rightarrow> nft \<Rightarrow> config \<Rightarrow> gateway \<times> nft_table option \<Rightarrow> bool" for U N c where
  start: "gateway_run U N c (new_gateway c eng, k)"
| step: "gateway_run U N c s \<Longrightarrow> gateway_step U N f s = (r, s') \<Longrightarrow> gateway_run U N c s'"

text \<open>While the gateway is active the kernel holds the table of one engine, and of the current one if there is one.\<close>

definition table_current :: "config \<Rightarrow> gateway \<times> nft_table option \<Rightarrow> bool" where
  "table_current c s \<longleftrightarrow>
     gw_cfg (fst s) = c \<and>
     (gw_active (fst s) \<longrightarrow>
        0 < cf_trans_port c \<and>
        (\<exists>e. snd s = Some (gateway_table c e) \<and> (\<forall>e'. gw_engine (fst s) = Some e' \<longrightarrow> e' = e)))"

text \<open>What the state may be when Apply begins: the engine may just have been exchanged.\<close>

definition table_some :: "config \<Rightarrow> gateway \<Rightarrow> nft_table option \<Rightarrow> bool" where
  "table_some c g k \<longleftrightarrow>
     gw_cfg g = c \<and> (gw_active g \<longrightarrow> 0 < cf_trans_port c \<and> (\<exists>e. k = Some (gateway_table c e)))"

lemma full_apply_current:
  assumes "nft_deletes N" "table_some c g k" "full_apply N g k = (r, g', k')"
  shows "table_current c (g', k') \<and> gw_engine g' = gw_engine g \<and>
    (r = None \<longrightarrow> (\<exists>e. gw_engine g = Some e \<and> k' = Some (gateway_table c e)))"
proof (cases "build_nft_script (gw_cfg g) (gw_engine g)")
  case (Inl e)
  then show ?thesis
    using assms(2,3)
    by (auto simp: full_apply_def build_nft_script_def table_some_def table_current_def split: option.splits if_splits)
next
  case (Inr cmds)
  then obtain e where e: "gw_engine g = Some e" "0 < cf_trans_port c" "cmds = nft_script c e"
    using assms(2) by (auto simp: build_nft_script_def table_some_def split: option.splits if_splits)
  then show ?thesis
    using assms(2,3) Inr nft_script_table [of c e] run_delete [OF assms(1), of k]
    by (auto simp: full_apply_def table_some_def table_current_def run_nft_def split: option.splits)
qed

lemma apply_current:
  assumes "nft_deletes N" "table_some c g k" "apply_locked N g k = (r, g', k')"
  shows "table_current c (g', k') \<and> gw_engine g' = gw_engine g \<and>
    (r = None \<longrightarrow> (\<exists>e. gw_engine g = Some e \<and> k' = Some (gateway_table c e)))"
proof (cases "gw_active g")
  case False
  then show ?thesis
    using assms full_apply_current by (simp add: apply_locked_def)
next
  case True
  then obtain e0 where k: "k = Some (gateway_table c e0)" "0 < cf_trans_port c" "gw_cfg g = c"
    using assms(2) by (auto simp: table_some_def)
  show ?thesis
  proof (cases "patch_sets N g k")
    case (Pair q k1)
    show ?thesis
    proof (cases q)
      case None
      then obtain e where e: "gw_engine g = Some e" "k1 = exec_script (patch_script e) k"
        using Pair by (auto simp: patch_sets_def run_nft_def split: option.splits)
      then show ?thesis
        using assms(3) Pair None True k patch_script_table [of e c e0]
        by (auto simp: apply_locked_def table_current_def)
    next
      case (Some x)
      then have "k1 = k"
        using Pair by (auto simp: patch_sets_def run_nft_def split: option.splits)
      then show ?thesis
        using assms Pair Some True full_apply_current by (auto simp: apply_locked_def)
    qed
  qed
qed

lemma step_current:
  assumes "nft_deletes N" "table_current c s" "gateway_step U N f s = (r, s')"
  shows "table_current c s'"
proof -
  obtain g k where s: "s = (g, k)"
    by (cases s)
  have t: "table_some c (g\<lparr>gw_engine := eng\<rparr>) k" "table_some c g k" for eng
    using assms(2) s by (auto simp: table_current_def table_some_def)
  show ?thesis
  proof (cases f)
    case OpApply
    then show ?thesis
      using apply_current [OF assms(1) t(2), of r "fst s'" "snd s'"] assms(3) s by simp
  next
    case (OpUpdate eng)
    show ?thesis
    proof (cases "gw_active g")
      case True
      then show ?thesis
        using apply_current [OF assms(1) t(1), of eng r "fst s'" "snd s'"] assms(3) s OpUpdate
        by (simp add: update_engine_def)
    next
      case False
      then show ?thesis
        using assms(2,3) s OpUpdate by (auto simp: update_engine_def table_current_def)
    qed
  next
    case OpFlush
    then show ?thesis
      using assms(2,3) s by (auto simp: flush_gateway_def table_current_def split: prod.splits)
  qed
qed


definition sample_nft :: nft where
  "sample_nft cmds k = (if cmds = [DeleteTable] \<and> k = None then Some ''No such file or directory'' else None)"

definition sample_gate_config :: config where
  "sample_gate_config = default_config\<lparr>cf_gateway_output := True\<rparr>"


section \<open>What the rules redirect\<close>

text \<open>The table that loading the built script into an empty kernel leaves.\<close>

definition loads :: "config \<Rightarrow> engine \<Rightarrow> nft_table \<Rightarrow> bool" where
  "loads c e t \<longleftrightarrow> (\<exists>cmds. build_nft_script c (Some e) = Inr cmds \<and> exec_script cmds None = Some t)"

lemma loads_table: "loads c e t \<Longrightarrow> t = gateway_table c e"
  by (auto simp: loads_def build_nft_script_def nft_script_table split: if_splits)

lemma table_loads: "0 < cf_trans_port c \<Longrightarrow> loads c e (gateway_table c e)"
  by (simp add: loads_def build_nft_script_def nft_script_table)

lemma v4_nets_contain:
  "(\<exists>n \<in> set (v4_nets ns). net_contains n (IP4 w)) \<longleftrightarrow> (\<exists>n \<in> set ns. net_contains n (IP4 w))"
proof -
  have "to4 (net_ip n) \<noteq> None" if "net_contains n (IP4 w)" for n
    using that by (cases n) (auto simp: net_contains_def split: option.splits if_splits)
  then show ?thesis
    by (auto simp: v4_nets_def)
qed

lemma set_holds:
  assumes "list_all net_wf ns"
  shows "contains_ip (dedup_by show_net {} (v4_nets ns)) (IP4 w) \<longleftrightarrow> contains_ip ns (IP4 w)"
proof -
  have "net_wf n" if "n \<in> set (v4_nets ns)" for n
    using that assms by (auto simp: v4_nets_def list_all_iff)
  then show ?thesis
    using dedup_contains [of "v4_nets ns" "IP4 w"] v4_nets_contain [of ns w] by (simp add: contains_ip_iff)
qed

definition private_ip :: "ip \<Rightarrow> bool" where
  "private_ip a \<longleftrightarrow> contains_ip default_bypass_cidrs a"

lemma private_set: "contains_ip (v4_nets default_bypass_cidrs) (IP4 w) = private_ip (IP4 w)"
  using v4_nets_contain [of default_bypass_cidrs w] by (simp add: private_ip_def contains_ip_iff)

lemma server_nets_wf: "list_all net_wf (server_nets xs)"
  by (induction xs rule: server_nets.induct) (auto split: option.splits)

lemma bypass_set:
  assumes "list_all net_wf (en_bypass e)"
  shows "contains_ip (dedup_by show_net {} (v4_nets (bypass_nets e))) (IP4 w) \<longleftrightarrow> excluded e (IP4 w)"
proof -
  have "list_all net_wf (bypass_nets e)"
    using assms server_nets_wf by (simp add: bypass_nets_def)
  then have "contains_ip (dedup_by show_net {} (v4_nets (bypass_nets e))) (IP4 w) \<longleftrightarrow>
      (\<exists>n \<in> set (bypass_nets e). net_contains n (IP4 w))"
    using set_holds by (simp add: contains_ip_iff)
  also have "\<dots> \<longleftrightarrow> excluded e (IP4 w)"
    by (rule bypass_nets_excluded) simp
  finally show ?thesis .
qed

definition awg_exempt :: "config \<Rightarrow> packet \<Rightarrow> bool" where
  "awg_exempt c p \<longleftrightarrow> trim_space (cf_awg_iface c) \<noteq> [] \<and> oif_matches (trim_space (cf_awg_iface c)) (pk_oif p)"

lemma first_verdict_append:
  "first_verdict t p (xs @ ys) = (case first_verdict t p xs of None \<Rightarrow> first_verdict t p ys | Some v \<Rightarrow> Some v)"
  by (induction xs) auto

lemma gateway_table_simps [simp]:
  "nt_sets (gateway_table c e) = table_sets e" "nt_rules (gateway_table c e) = table_rules c"
  by (simp_all add: gateway_table_def)

text \<open>The OUTPUT chain on IPv4 TCP, as one decision.\<close>

lemma output_verdict:
  assumes "cf_gateway_output c" "pk_dst p = IP4 d" "pk_src p = IP4 s" "pk_proto p = Tcp"
    and "list_all net_wf (en_bypass e)" "list_all net_wf (en_tunnel e)"
  shows "chain_verdict (gateway_table c e) Output p =
    (if pk_dport p = cf_trans_port c \<or> awg_exempt c p \<or> private_ip (IP4 s) \<or> private_ip (IP4 d) then Some Return
     else if cf_mode c = ModeInclude then
       (if contains_ip (en_tunnel e) (IP4 d) then Some (RedirectTo (cf_trans_port c)) else None)
     else if excluded e (IP4 d) then Some Return else Some (RedirectTo (cf_trans_port c)))"
  using assms
  by (simp add: chain_verdict_def first_verdict_append awg_exempt_def private_set bypass_set set_holds tunnel_nets_def)

lemma prerouting_verdict:
  assumes "pk_dst p = IP4 d" "pk_proto p = Tcp"
  shows "chain_verdict (gateway_table c e) Prerouting p =
    (if pk_dport p = cf_trans_port c \<or> private_ip (IP4 d) then Some Return else Some (RedirectTo (cf_trans_port c)))"
  using assms by (simp add: chain_verdict_def private_set)

lemma v6_not_redirected:
  assumes "\<not> is_v4 (pk_dst p)"
  shows "chain_verdict (gateway_table c e) ch p \<noteq> Some (RedirectTo n)"
  using assms by (cases ch) (auto simp: chain_verdict_def first_verdict_append split: option.splits if_splits)

text \<open>
  C23: What the kernel redirects is what the engine tunnels. In exclude mode with the OUTPUT rules
  on, a local IPv4 TCP connection is redirected to the transparent proxy exactly when the engine
  tunnels its destination and none of the local exceptions holds (the proxy's own port, the
  AmneziaWG interface, a private source or destination) - so the gateway's own dials to tunnel
  servers and bypassed addresses are never redirected back; a forwarded IPv4 TCP connection is
  redirected exactly when its destination is not private; IPv6 is never redirected.
\<close>
theorem redirect_matches_engine:
  assumes "loads c e t" "cf_mode c = ModeExclude" "en_mode e = cf_mode c" "cf_gateway_output c"
    and "list_all net_wf (en_bypass e)" "list_all net_wf (en_tunnel e)"
    and "pk_dst p = IP4 d" "pk_src p = IP4 s" "pk_proto p = Tcp"
  shows "(chain_verdict (t) Output p = Some (RedirectTo (cf_trans_port c)) \<longleftrightarrow>
      decide e (Some (IP4 d)) = PathTunnel \<and> pk_dport p \<noteq> cf_trans_port c \<and> \<not> awg_exempt c p \<and>
      \<not> private_ip (IP4 s) \<and> \<not> private_ip (IP4 d)) \<and>
    (chain_verdict (t) Prerouting p = Some (RedirectTo (cf_trans_port c)) \<longleftrightarrow>
      pk_dport p \<noteq> cf_trans_port c \<and> \<not> private_ip (IP4 d)) \<and>
    (\<not> is_v4 (pk_dst q) \<longrightarrow> chain_verdict (t) ch q \<noteq> Some (RedirectTo n))"
proof -
  have d: "decide e (Some (IP4 d)) = PathTunnel \<longleftrightarrow> \<not> excluded e (IP4 d)"
    using assms(2,3) by (simp add: decide_cases)
  have m: "cf_mode c \<noteq> ModeInclude"
    using assms(2) by (simp add: ModeExclude_def ModeInclude_def)
  have pick: "((if A then Some Return else if B then Some Return else Some (RedirectTo x)) = Some (RedirectTo x)) \<longleftrightarrow> \<not> A \<and> \<not> B"
    for A B x by simp
  have 1: "chain_verdict (gateway_table c e) Output p = Some (RedirectTo (cf_trans_port c)) \<longleftrightarrow>
      decide e (Some (IP4 d)) = PathTunnel \<and> pk_dport p \<noteq> cf_trans_port c \<and> \<not> awg_exempt c p \<and>
      \<not> private_ip (IP4 s) \<and> \<not> private_ip (IP4 d)"
    unfolding output_verdict [OF assms(4,7,8,9,5,6)] if_not_P [OF m] pick d by blast
  have 2: "chain_verdict (gateway_table c e) Prerouting p = Some (RedirectTo (cf_trans_port c)) \<longleftrightarrow>
      pk_dport p \<noteq> cf_trans_port c \<and> \<not> private_ip (IP4 d)"
    unfolding prerouting_verdict [OF assms(7,9)] by simp
  show ?thesis
    using 1 2 v6_not_redirected [of q c e ch n] unfolding loads_table [OF assms(1)] by (intro conjI impI)
qed

definition sample_packet :: packet where
  "sample_packet = \<lparr>pk_src = IP4 0xCB007105, pk_dst = IP4 0x08080101, pk_proto = Tcp, pk_dport = 443, pk_oif = ''eth0''\<rparr>"

definition sample_exclude :: engine where
  "sample_exclude = sample_engine\<lparr>en_mode := ModeExclude\<rparr>"

lemma redirect_matches_engine_witness:
  "chain_verdict (gateway_table sample_gate_config sample_exclude) Output sample_packet \<noteq> Some (RedirectTo 12345) \<and>
   chain_verdict (gateway_table sample_gate_config sample_exclude) Output (sample_packet\<lparr>pk_dst := IP4 0x08080102\<rparr>) =
     Some (RedirectTo 12345)"
proof -
  let ?q = "sample_packet\<lparr>pk_dst := IP4 0x08080102\<rparr>"
  have c: "cf_mode sample_gate_config = ModeExclude" "en_mode sample_exclude = cf_mode sample_gate_config"
    "cf_gateway_output sample_gate_config" "list_all net_wf (en_bypass sample_exclude)"
    "list_all net_wf (en_tunnel sample_exclude)" "cf_trans_port sample_gate_config = 12345"
    by code_simp+
  have p: "pk_dst sample_packet = IP4 0x08080101" "pk_src sample_packet = IP4 0xCB007105" "pk_proto sample_packet = Tcp"
    "pk_dst ?q = IP4 0x08080102" "pk_src ?q = IP4 0xCB007105" "pk_proto ?q = Tcp"
    by (simp_all add: sample_packet_def)
  have l: "loads sample_gate_config sample_exclude (gateway_table sample_gate_config sample_exclude)"
    by (rule table_loads) (simp add: c(6))
  have x1: "decide sample_exclude (Some (IP4 0x08080101)) = PathDirect" by code_simp
  have x2: "decide sample_exclude (Some (IP4 0x08080102)) = PathTunnel" by code_simp
  have x3: "pk_dport ?q \<noteq> 12345" by (simp add: sample_packet_def)
  have x4: "\<not> awg_exempt sample_gate_config ?q" by code_simp
  have x5: "\<not> private_ip (IP4 0xCB007105)" by code_simp
  have x6: "\<not> private_ip (IP4 0x08080102)" by code_simp
  show ?thesis
    using redirect_matches_engine [OF l c(1-5) p(1-3), THEN conjunct1]
      redirect_matches_engine [OF l c(1-5) p(4-6), THEN conjunct1]
    by (simp only: c(6) x1 x2 x3 x4 x5 x6 path.distinct not_False_eq_True simp_thms)
qed

text \<open>
  In include mode the OUTPUT rules do not spare the addresses of the bypass set: a tunnel
  server whose address lies in a tunnel network is reached directly by decision of the engine,
  yet the gateway's own connection to it is redirected into the transparent proxy.
\<close>
theorem include_redirects_own_dials:
  assumes "loads c e t" "cf_mode c = ModeInclude" "cf_gateway_output c"
    and "list_all net_wf (en_bypass e)" "list_all net_wf (en_tunnel e)"
    and "Some a \<in> set (en_servers e)" "to4 a = Some d" "contains_ip (en_tunnel e) (IP4 d)"
    and "pk_dst p = IP4 d" "pk_src p = IP4 s" "pk_proto p = Tcp" "pk_dport p \<noteq> cf_trans_port c"
    and "\<not> awg_exempt c p" "\<not> private_ip (IP4 s)" "\<not> private_ip (IP4 d)"
  shows "decide e (Some (IP4 d)) = PathDirect \<and>
    contains_ip (nt_sets (t) SetBypass) (IP4 d) \<and>
    chain_verdict (t) Output p = Some (RedirectTo (cf_trans_port c))"
proof -
  have "norm4 a = norm4 (IP4 d)"
    using assms(7) by (simp add: norm4_def)
  then have x: "excluded e (IP4 d)"
    unfolding excluded_def ip_equal_norm4 using assms(6) by blast
  have 1: "decide e (Some (IP4 d)) = PathDirect"
    unfolding decide_cases using x by (rule if_P)
  have 2: "contains_ip (nt_sets (gateway_table c e) SetBypass) (IP4 d)"
    unfolding gateway_table_simps table_sets.simps bypass_set [OF assms(4)] by (rule x)
  have "\<not> (pk_dport p = cf_trans_port c \<or> awg_exempt c p \<or> private_ip (IP4 s) \<or> private_ip (IP4 d))"
    using assms(12-15) by blast
  then have 3: "chain_verdict (gateway_table c e) Output p = Some (RedirectTo (cf_trans_port c))"
    by (simp only: output_verdict [OF assms(3,9,10,11,4,5)] assms(2,8) if_False if_True refl)
  show ?thesis
    using 1 2 3 unfolding loads_table [OF assms(1)] by (intro conjI)
qed

lemma include_redirects_own_dials_witness:
  "decide sample_engine (Some (IP4 0x08080101)) = PathDirect \<and>
   chain_verdict (gateway_table (sample_gate_config\<lparr>cf_mode := ModeInclude\<rparr>) sample_engine) Output sample_packet =
     Some (RedirectTo 12345)"
proof -
  let ?c = "sample_gate_config\<lparr>cf_mode := ModeInclude\<rparr>"
  have "loads ?c sample_engine (gateway_table ?c sample_engine)"
    by (rule table_loads) (simp add: sample_gate_config_def default_config_def)
  moreover have "cf_mode ?c = ModeInclude" "cf_gateway_output ?c" "list_all net_wf (en_bypass sample_engine)"
    "list_all net_wf (en_tunnel sample_engine)" "Some (IP4 0x08080101) \<in> set (en_servers sample_engine)"
    "to4 (IP4 0x08080101) = Some 0x08080101" "contains_ip (en_tunnel sample_engine) (IP4 0x08080101)"
    "pk_dst sample_packet = IP4 0x08080101" "pk_src sample_packet = IP4 0xCB007105" "pk_proto sample_packet = Tcp"
    "pk_dport sample_packet \<noteq> cf_trans_port ?c" "\<not> awg_exempt ?c sample_packet"
    "\<not> private_ip (IP4 0xCB007105)" "\<not> private_ip (IP4 0x08080101)"
    by (simp add: sample_engine_def) code_simp+
  ultimately have "decide sample_engine (Some (IP4 0x08080101)) = PathDirect \<and>
      contains_ip (nt_sets (gateway_table ?c sample_engine) SetBypass) (IP4 0x08080101) \<and>
      chain_verdict (gateway_table ?c sample_engine) Output sample_packet = Some (RedirectTo (cf_trans_port ?c))"
    by (rule include_redirects_own_dials)
  moreover have "cf_trans_port ?c = 12345"
    by code_simp
  ultimately show ?thesis
    by simp
qed

text \<open>
  A local connection from a private or reserved source address is never redirected by the
  OUTPUT rules, in either mode, whatever the engine decides for its destination: on a host
  behind NAT the OUTPUT rules catch nothing.
\<close>
theorem private_sources_escape:
  assumes "loads c e t" "cf_gateway_output c" "pk_src p = IP4 s" "private_ip (IP4 s)"
  shows "chain_verdict t Output p = Some Return"
  using assms(2-4) unfolding loads_table [OF assms(1)] by (simp add: chain_verdict_def first_verdict_append private_set split: option.split)

lemma private_sources_escape_witness:
  "decide sample_exclude (Some (IP4 0x08080808)) = PathTunnel \<and>
   chain_verdict (gateway_table sample_gate_config sample_exclude) Output
     \<lparr>pk_src = IP4 0xC0A80105, pk_dst = IP4 0x08080808, pk_proto = Tcp, pk_dport = 443, pk_oif = ''eth0''\<rparr> = Some Return"
proof -
  have "private_ip (IP4 0xC0A80105)" "cf_gateway_output sample_gate_config"
    "decide sample_exclude (Some (IP4 0x08080808)) = PathTunnel"
    by code_simp+
  moreover have "loads sample_gate_config sample_exclude (gateway_table sample_gate_config sample_exclude)"
    by (rule table_loads) (simp add: sample_gate_config_def default_config_def)
  ultimately show ?thesis
    using private_sources_escape by simp
qed

section \<open>The text of the script\<close>

text \<open>Spot checks of the printed script against the strings the tests of the code look for.\<close>

lemma script_text:
  "show_cmd id (AddElement SetPrivate (Net4 0x0A000000 8)) =
     ''add element inet outline_gate private { 10.0.0.0/8 }'' @ [CHR 0x0A]"
  "show_cmd id (AddRule Prerouting [IpProtoTcp] (RedirectTo 12345)) =
     ''add rule inet outline_gate prerouting ip protocol tcp redirect to :12345'' @ [CHR 0x0A]"
  "show_cmd id (AddRule Postrouting [OifName ''eth0''] Masquerade) =
     ''add rule inet outline_gate postrouting oifname '' @ [CHR 0x22] @ ''eth0'' @ [CHR 0x22] @ '' masquerade'' @ [CHR 0x0A]"
  by code_simp+

section \<open>The host\<close>

text \<open>
  How nft is found, and the forwarding switch of the kernel: what the look-ups answer, and what reading
  and writing the switch gives. A binary that was found is kept.
\<close>

record nft_host =
  nh_path :: "string option"
  nh_is_dir :: "string \<Rightarrow> bool option"

fun first_file :: "nft_host \<Rightarrow> string list \<Rightarrow> string option" where
  "first_file H [] = None"
| "first_file H (p # ps) = (if nh_is_dir H p = Some False then Some p else first_file H ps)"

definition resolve_nft :: "nft_host \<Rightarrow> string \<Rightarrow> string option \<times> string" where
  "resolve_nft H bin =
     (if bin \<noteq> [] then (Some bin, bin)
      else case nh_path H of
        Some p \<Rightarrow> (Some p, p)
      | None \<Rightarrow>
          (case first_file H [''/usr/sbin/nft'', ''/sbin/nft'', ''/usr/bin/nft''] of
             Some p \<Rightarrow> (Some p, p)
           | None \<Rightarrow> (None, bin)))"

definition nft_missing :: string where
  "nft_missing = ''nft binary not found in PATH or /usr/sbin/nft (install nftables)''"

text \<open>A run of nft through the binary, when there is one.\<close>

definition nft_through :: "nft_host \<Rightarrow> string \<Rightarrow> nft \<Rightarrow> nft" where
  "nft_through H bin N = (\<lambda>cmds k. case fst (resolve_nft H bin) of None \<Rightarrow> Some nft_missing | Some p \<Rightarrow> N cmds k)"

datatype forward_error = ForwardRead string | ForwardWrite string

definition ensure_ip_forward :: "string + string \<Rightarrow> string option \<Rightarrow> forward_error option \<times> string option" where
  "ensure_ip_forward content written =
     (case content of
        Inl e \<Rightarrow> (Some (ForwardRead e), None)
      | Inr b \<Rightarrow>
          if trim_space b = ''1'' then (None, None)
          else (case written of Some e \<Rightarrow> (Some (ForwardWrite e), None) | None \<Rightarrow> (None, Some (''1'' @ [CHR 0x0A]))))"

text \<open>\<open>Apply\<close>: an error of the switch is only logged. Whether nft is there is found out at each run until it is.\<close>

definition apply_on_host ::
  "nft_host \<Rightarrow> string \<Rightarrow> nft \<Rightarrow> string + string \<Rightarrow> string option \<Rightarrow> gateway \<Rightarrow> nft_table option \<Rightarrow>
     (gateway_error option \<times> gateway \<times> nft_table option) \<times> string option" where
  "apply_on_host H bin N content written g k =
     (apply_locked (nft_through H bin N) g k, snd (ensure_ip_forward content written))"

text \<open>Forwarding is on afterwards exactly when no error is reported.\<close>

lemma ip_forward_on:
  "fst (ensure_ip_forward content written) = None \<longleftrightarrow>
     (\<exists>b. content = Inr b \<and> trim_space (case snd (ensure_ip_forward content written) of Some t \<Rightarrow> t | None \<Rightarrow> b) = ''1'')"
proof -
  have "trim_space (''1'' @ [CHR 0x0A]) = ''1''" by code_simp
  then show ?thesis
    by (auto simp: ensure_ip_forward_def split: sum.splits option.splits)
qed

text \<open>
  Without nft, Apply fails and the gateway is inactive; but Flush takes the error for a table that is not
  there and reports success, whatever table the kernel has.
\<close>

lemma apply_without_nft:
  assumes "fst (resolve_nft H bin) = None" "gw_engine g = Some e" "0 < cf_trans_port (gw_cfg g)"
  shows "apply_locked (nft_through H bin N) g k = (Some (NftError nft_missing), g\<lparr>gw_active := False\<rparr>, k)"
  using assms by (auto simp: apply_locked_def full_apply_def patch_sets_def run_nft_def nft_through_def build_nft_script_def
      Let_def split: prod.split)

lemma flush_without_nft_reports_success:
  assumes "fst (resolve_nft H bin) = None"
  shows "flush_gateway U (nft_through H bin N) g (Some t) = (None, g\<lparr>gw_active := False\<rparr>, Some t)"
proof -
  have "contains (to_lower U nft_missing) ''not found''" by code_simp
  then have "is_nft_not_found U nft_missing"
    by (simp add: is_nft_not_found_def Let_def)
  then show ?thesis
    using assms by (simp add: flush_gateway_def run_nft_def nft_through_def)
qed

end
