(* ===== verification/Transparent_Proxy.thy ===== *)
theory Transparent_Proxy
  imports Socks5_Proxy Nft_Gateway
begin

text \<open>
  \<open>internal/proxy/transparent.go\<close>: a connection that nftables redirected, from the recovery of its
  original destination to the relay. The two \<open>getsockopt\<close> calls are parameters: an error text, or
  the address and port bytes the kernel wrote. The actions are those of the SOCKS5 handler.
\<close>

section \<open>The original destination\<close>

type_synonym sockopt = "string + string \<times> string"

definition port_of_bytes :: "string \<Rightarrow> nat" where
  "port_of_bytes b = byte (b ! 0) * 256 + byte (b ! 1)"

definition original_dst4 :: "sockopt \<Rightarrow> string + string" where
  "original_dst4 r =
     (case r of Inl e \<Rightarrow> Inl e
      | Inr (a, p) \<Rightarrow> Inr (join_host_port (show_ip (ip4_of_bytes a)) (show_nat (port_of_bytes p))))"

definition original_dst6 :: "sockopt \<Rightarrow> string + string" where
  "original_dst6 r =
     (case r of Inl e \<Rightarrow> Inl e
      | Inr (a, p) \<Rightarrow> Inr (join_host_port (show_ip (ip6_of_bytes a)) (show_nat (port_of_bytes p))))"

text \<open>The attempts in order; the first success wins, otherwise the last error.\<close>

fun first_success :: "string \<Rightarrow> (string + 'a) list \<Rightarrow> string + 'a" where
  "first_success prev [] = Inl prev"
| "first_success prev (r # rs) = (case r of Inr s \<Rightarrow> Inr s | Inl e \<Rightarrow> first_success e rs)"

definition original_dst :: "ip option \<Rightarrow> sockopt \<Rightarrow> sockopt \<Rightarrow> string + string" where
  "original_dst loc r4 r6 =
     (let try4 = (case loc of None \<Rightarrow> True | Some a \<Rightarrow> to4 a \<noteq> None);
          try6 = (case loc of None \<Rightarrow> True | Some a \<Rightarrow> to4 a = None)
      in first_success ''SO_ORIGINAL_DST unavailable''
           ((if try4 then [original_dst4 r4] else []) @ (if try6 then [original_dst6 r6] else []) @
            (if \<not> try4 then [original_dst4 r4] else []) @ (if \<not> try6 then [original_dst6 r6] else [])))"

section \<open>The handler\<close>

text \<open>Without a decider everything is tunnelled. Without a direct dialer the code uses a plain one.\<close>

record transparent =
  tp_decider :: "(ip option \<Rightarrow> string \<times> string) option"
  tp_log :: bool

definition record_l3 :: "transparent \<Rightarrow> conn_event \<Rightarrow> action list" where
  "record_l3 t e = (if tp_log t then [Recorded e] else [])"

definition transparent_path :: "transparent \<Rightarrow> string \<Rightarrow> string \<times> string" where
  "transparent_path t host =
     (case tp_decider t of
        None \<Rightarrow> (via_tunnel, [])
      | Some f \<Rightarrow> (let (via, rule) = f (parse_ip host) in (if via = [] then via_tunnel else via, rule)))"

definition transparent_serve :: "transparent \<Rightarrow> dial_result \<Rightarrow> string \<Rightarrow> string \<Rightarrow> action list" where
  "transparent_serve t D client orig =
     (let (host, port_text) = (case split_host_port orig of Inl e \<Rightarrow> ([], []) | Inr hp \<Rightarrow> hp);
          port = (case atoi port_text of None \<Rightarrow> 0 | Some p \<Rightarrow> p);
          (via, rule) = transparent_path t host;
          ev = \<lparr>ce_proto = ''l3'', ce_client = client, ce_target = orig, ce_host = host, ce_port = port,
                ce_via = via, ce_rule = rule, ce_ok = False, ce_error = [], ce_ms = 0\<rparr>
      in if via = via_drop then record_l3 t (ev\<lparr>ce_error := ''dropped by routing policy''\<rparr>)
         else
           (let d = (if via = via_direct then DirectDialer else TunnelDialer);
                (err, ms) = D d orig
            in Dial d orig (err = None) #
               (case err of
                  Some e \<Rightarrow> record_l3 t (ev\<lparr>ce_error := e, ce_ms := ms\<rparr>)
                | None \<Rightarrow> record_l3 t (ev\<lparr>ce_ok := True, ce_ms := ms\<rparr>) @ [Relay])))"

definition transparent_handle ::
  "transparent \<Rightarrow> dial_result \<Rightarrow> string option \<Rightarrow> ip option \<Rightarrow> sockopt \<Rightarrow> sockopt \<Rightarrow> action list" where
  "transparent_handle t D remote loc r4 r6 =
     (case original_dst loc r4 r6 of
        Inl e \<Rightarrow> []
      | Inr orig \<Rightarrow> transparent_serve t D (client_ip_of remote) orig)"

section \<open>The log hook\<close>

text \<open>\<open>connlog_hook.go\<close>: a function as a recorder; without one there is no recorder, and a nil hook ignores events.\<close>

definition new_store_hook :: "(conn_event \<Rightarrow> 's \<Rightarrow> 's) option \<Rightarrow> (conn_event \<Rightarrow> 's \<Rightarrow> 's) option" where
  "new_store_hook fn = fn"

definition record_connect :: "(conn_event \<Rightarrow> 's \<Rightarrow> 's) option \<Rightarrow> conn_event \<Rightarrow> 's \<Rightarrow> 's" where
  "record_connect h e s = (case h of None \<Rightarrow> s | Some f \<Rightarrow> f e s)"

section \<open>The destination survives its text\<close>

lemma atoi_show_nat:
  assumes "n < 65536"
  shows "atoi (show_nat n) = Some (int n)"
proof -
  have "CHR ''-'' \<notin> set (show_nat n)" "CHR ''+'' \<notin> set (show_nat n)"
    using show_nat_set [of "CHR ''-''" n] show_nat_set [of "CHR ''+''" n] by (auto simp: is_digit_def byte_def)
  then have "\<not> has_prefix (show_nat n) ''-''" "\<not> has_prefix (show_nat n) ''+''"
    by (auto simp: has_prefix_iff)
  then show ?thesis
    using assms by (simp add: atoi_def)
qed

lemma port_bytes_less: "port_of_bytes b < 65536"
  using byte_less [of "b ! 0"] byte_less [of "b ! 1"] unfolding port_of_bytes_def by linarith

lemma split_orig: "split_host_port (join_host_port (show_ip a) (show_nat n)) = Inr (show_ip a, show_nat n)"
proof (rule split_join_host_port)
  show "CHR ''['' \<notin> set (show_ip a)" "CHR '']'' \<notin> set (show_ip a)"
    using show_ip_set [of "CHR ''[''" a] show_ip_set [of "CHR '']''" a] by (auto simp: is_hex_def is_digit_def byte_def)
  show "CHR ''['' \<notin> set (show_nat n)" "CHR '']'' \<notin> set (show_nat n)" "CHR '':'' \<notin> set (show_nat n)"
    using show_nat_set [of "CHR ''[''" n] show_nat_set [of "CHR '']''" n] show_nat_set [of "CHR '':''" n]
    by (auto simp: is_digit_def byte_def)
qed

lemma original_dst_v4:
  assumes "to4 loc = Some w"
  shows "original_dst (Some loc) (Inr (a, p)) fallback =
    Inr (join_host_port (show_ip (ip4_of_bytes a)) (show_nat (port_of_bytes p)))"
  using assms by (simp add: original_dst_def original_dst4_def)

section \<open>Properties\<close>

definition live_transparent :: "unicode \<Rightarrow> engine option \<Rightarrow> manager \<Rightarrow> manager \<Rightarrow> transparent" where
  "live_transparent U eng user block =
     \<lparr>tp_decider = Some (decide_path (Some (live_decider U eng user block))), tp_log = True\<rparr>"

text \<open>What the kernel reports for an IPv4 destination: its octets, and the port in network order.\<close>

definition kernel_dst :: "32 word \<Rightarrow> nat \<Rightarrow> sockopt" where
  "kernel_dst d port = Inr (bytes (octets d), bytes [port div 256, port mod 256])"

definition l3_event :: "string \<Rightarrow> ip \<Rightarrow> nat \<Rightarrow> string \<times> string \<Rightarrow> bool \<Rightarrow> string \<Rightarrow> int \<Rightarrow> conn_event" where
  "l3_event client a port vr ok err ms =
     \<lparr>ce_proto = ''l3'', ce_client = client, ce_target = join_host_port (show_ip a) (show_nat port),
      ce_host = show_ip a, ce_port = int port, ce_via = fst vr, ce_rule = snd vr, ce_ok = ok,
      ce_error = err, ce_ms = ms\<rparr>"

text \<open>Serving an address on a path, with the destination as a value instead of a text.\<close>

definition l3_actions :: "dial_result \<Rightarrow> string \<Rightarrow> string \<times> string \<Rightarrow> ip \<Rightarrow> nat \<Rightarrow> action list" where
  "l3_actions D client vr a port =
     (let orig = join_host_port (show_ip a) (show_nat port);
          d = (if fst vr = via_direct then DirectDialer else TunnelDialer)
      in if fst vr = via_drop then [Recorded (l3_event client a port vr False ''dropped by routing policy'' 0)]
         else Dial d orig (fst (D d orig) = None) #
           (case fst (D d orig) of
              Some e \<Rightarrow> [Recorded (l3_event client a port vr False e (snd (D d orig)))]
            | None \<Rightarrow> [Recorded (l3_event client a port vr True [] (snd (D d orig))), Relay]))"

lemma via_distinct [simp]:
  "via_tunnel \<noteq> []" "via_direct \<noteq> []" "via_drop \<noteq> []" "via_tunnel \<noteq> via_drop" "via_direct \<noteq> via_drop"
  "via_drop \<noteq> via_direct" "via_drop \<noteq> via_tunnel" "via_tunnel \<noteq> via_direct" "via_direct \<noteq> via_tunnel"
  by (simp_all add: via_tunnel_def via_direct_def via_drop_def)

lemma path_spec_via: "fst (path_spec eng f g a) \<noteq> []"
  by (simp add: path_spec_def split: option.split path.split)

abbreviation live_path :: "engine option \<Rightarrow> manager \<Rightarrow> manager \<Rightarrow> ip \<Rightarrow> string \<times> string" where
  "live_path eng user block \<equiv>
     path_spec eng (\<lambda>x. match_ip_detail user (Some x)) (\<lambda>x. match_ip_detail block (Some x))"

lemma transparent_path_live:
  "transparent_path (live_transparent U eng user block) (show_ip a) = live_path eng user block a"
proof -
  have "live_path eng user block (IP6 (to16 a)) = live_path eng user block a"
    by (rule user_and_block.path_spec_form) (simp add: ip_equal_norm4 norm4_IP6_to16)
  then have "decide_path (Some (live_decider U eng user block)) (Some (IP6 (to16 a))) = live_path eng user block a"
    by (simp only: live_decider_def user_and_block.decide_path_spec)
  then show ?thesis
    using path_spec_via by (simp add: transparent_path_def live_transparent_def case_prod_beta Let_def)
qed

lemma record_live: "record_l3 (live_transparent U eng user block) e = [Recorded e]"
  by (simp add: record_l3_def live_transparent_def)

lemma transparent_serve_live:
  assumes "port < 65536"
  shows "transparent_serve (live_transparent U eng user block) D client (join_host_port (show_ip a) (show_nat port)) =
    l3_actions D client (live_path eng user block a) a port"
  using assms
  by (simp add: transparent_serve_def split_orig atoi_show_nat transparent_path_live l3_actions_def l3_event_def
      case_prod_beta Let_def record_live split: option.split)

lemma kernel_dst_port: "port < 65536 \<Longrightarrow> port_of_bytes (bytes [port div 256, port mod 256]) = port"
  by (simp add: port_of_bytes_def bytes_def byte_char_of_mod)

lemma original_dst_kernel:
  assumes "to4 loc = Some w" "port < 65536"
  shows "original_dst (Some loc) (kernel_dst d port) fallback = Inr (join_host_port (show_ip (IP4 d)) (show_nat port))"
  using assms by (simp add: kernel_dst_def original_dst_v4 ip4_octets kernel_dst_port)

lemma transparent_handle_live:
  assumes "to4 loc = Some w" "port < 65536"
  shows "transparent_handle (live_transparent U eng user block) D remote (Some loc) (kernel_dst d port) fallback =
    l3_actions D (client_ip_of remote) (live_path eng user block (IP4 d)) (IP4 d) port"
  using assms by (simp add: transparent_handle_def original_dst_kernel transparent_serve_live)

text \<open>
  C14: a redirected connection reaches the destination it was redirected from. For every IPv4
  address and port the kernel reports as the original destination, the transparent proxy takes the
  path of that address - block list, then engine - drops it with one log record, or dials exactly
  that address and port through the dialer of the path, records the outcome once with that host and
  port, and relays if and only if the dial succeeded.
\<close>
theorem redirected_reaches_original:
  assumes "to4 loc = Some w" "port < 65536"
  shows "transparent_handle (live_transparent U eng user block) D remote (Some loc) (kernel_dst d port) fallback =
    l3_actions D (client_ip_of remote) (live_path eng user block (IP4 d)) (IP4 d) port"
  using assms by (rule transparent_handle_live)

theorem redirected_reaches_original_witness:
  "transparent_handle (live_transparent ascii_tables (Some sample_exclude) (new_manager None []) (new_manager None []))
     (\<lambda>d t. (None, 7)) (Some ''192.168.1.5:999'') (Some (IP4 0xC0A80101)) (kernel_dst 0x08080102 443) (Inl ''x'') =
   [Dial TunnelDialer ''8.8.1.2:443'' True,
    Recorded (l3_event ''192.168.1.5'' (IP4 0x08080102) 443 (via_tunnel, []) True [] 7), Relay]"
proof -
  let ?m = "new_manager None []"
  have "to4 (IP4 0xC0A80101) = Some 0xC0A80101" "(443::nat) < 65536"
    by simp_all
  note h = redirected_reaches_original [OF this, where U = ascii_tables and eng = "Some sample_exclude" and user = ?m and
      block = ?m and D = "\<lambda>d t. (None, 7)" and remote = "Some ''192.168.1.5:999''" and d = "0x08080102" and fallback = "Inl ''x''"]
  have p: "live_path (Some sample_exclude) ?m ?m (IP4 0x08080102) = (via_tunnel, [])"
    by code_simp
  have "client_ip_of (Some ''192.168.1.5:999'') = ''192.168.1.5''"
    "join_host_port (show_ip (IP4 0x08080102)) (show_nat 443) = ''8.8.1.2:443''"
    by code_simp+
  then show ?thesis
    unfolding h p by (simp add: l3_actions_def Let_def)
qed



end
