(* ===== verification/Dns_Stub.thy ===== *)
theory Dns_Stub
  imports Socks5_Proxy
begin

text \<open>
  \<open>internal/dnsdoh/server.go\<close>: the local DNS stub. A query that arrives over UDP or TCP is posted to a
  DNS-over-HTTPS server and the answer sent back; a failure is answered with SERVFAIL. Messages are byte
  strings. Parameters: the HTTP exchange (\<open>doh\<close>: an error, or status and body), the parsed URL, which
  addresses can be bound.
\<close>

section \<open>One query\<close>

definition max_dns_message :: nat where "max_dns_message = 4096"

type_synonym doh = "string \<Rightarrow> string + nat \<times> string"

datatype doh_error = QueryTooShort | Exchange string | BadStatus nat | ResponseTooShort

definition resolve :: "doh \<Rightarrow> string \<Rightarrow> doh_error + string" where
  "resolve H q =
     (if length q < 12 then Inl QueryTooShort
      else case H q of
        Inl e \<Rightarrow> Inl (Exchange e)
      | Inr (status, full) \<Rightarrow>
          (let body = take max_dns_message full in
           if status \<noteq> 200 then Inl (BadStatus status)
           else if length body < 12 then Inl ResponseTooShort
           else Inr body))"

definition servfail :: "string \<Rightarrow> string" where
  "servfail q =
     (let id = (if 2 \<le> length q then take 2 q else bytes [0, 0]);
          rd = (if 3 \<le> length q then byte (q ! 2) mod 2 else 0)
      in id @ bytes [128 + rd, 2] @ bytes (replicate 8 0))"

definition answer :: "doh \<Rightarrow> string \<Rightarrow> string" where
  "answer H q = (case resolve H q of Inl e \<Rightarrow> servfail q | Inr r \<Rightarrow> r)"

text \<open>A datagram is read into a buffer of the maximal size; what is longer is cut.\<close>

definition serve_udp :: "doh \<Rightarrow> string \<Rightarrow> string" where
  "serve_udp H datagram = answer H (take max_dns_message datagram)"

text \<open>One TCP connection: the writes it makes for the bytes that arrive before the deadline.\<close>

definition put_uint16 :: "nat \<Rightarrow> string" where
  "put_uint16 n = (let w = (word_of_nat n :: 16 word) in bytes [unat w div 256, unat w mod 256])"

definition uint16 :: "string \<Rightarrow> nat" where
  "uint16 b = byte (b ! 0) * 256 + byte (b ! 1)"

definition handle_tcp :: "doh \<Rightarrow> string \<Rightarrow> string list" where
  "handle_tcp H input =
     (case read_full 2 input of
        None \<Rightarrow> []
      | Some (hdr, s1) \<Rightarrow>
          (let n = uint16 hdr in
           if n = 0 \<or> max_dns_message < n then []
           else case read_full n s1 of
             None \<Rightarrow> []
           | Some (q, s2) \<Rightarrow> (let resp = answer H q in [put_uint16 (length resp), resp])))"

section \<open>Start\<close>

record doh_url =
  du_scheme :: string
  du_host :: string
  du_port :: string

definition bootstrap_addr :: "unicode \<Rightarrow> doh_url \<Rightarrow> string" where
  "bootstrap_addr U u =
     (let host = du_host u; port = (if du_port u = [] then ''443'' else du_port u); name = to_lower U host in
      if parse_ip host \<noteq> None then join_host_port host port
      else if name = ''cloudflare-dns.com'' \<or> name = ''one.one.one.one'' then join_host_port ''1.1.1.1'' port
      else if name = ''dns.google'' then join_host_port ''8.8.8.8'' port
      else if name = ''dns.quad9.net'' \<or> name = ''dns11.quad9.net'' then join_host_port ''9.9.9.9'' port
      else join_host_port host port)"

datatype init_error = BadURL string | NotHttps | BadBootstrap

text \<open>The result is the address all connections go to, and the name the certificate must have.\<close>

definition init_http :: "unicode \<Rightarrow> (string + doh_url) \<Rightarrow> string \<Rightarrow> init_error + string \<times> string" where
  "init_http U parsed addr0 =
     (case parsed of
        Inl e \<Rightarrow> Inl (BadURL e)
      | Inr u \<Rightarrow>
          if du_scheme u \<noteq> ''https'' then Inl NotHttps
          else
            (let addr = (if trim_space addr0 = [] then bootstrap_addr U u else trim_space addr0) in
             case split_host_port addr of
               Inl e \<Rightarrow> Inl BadBootstrap
             | Inr hp \<Rightarrow> Inr (addr, du_host u)))"

datatype bind_result = Bound | Unassigned | BindFailed string

datatype listen_error = UdpFailed string string | TcpFailed string string | NoneAvailable bool

text \<open>The loop over the listen addresses: those bound so far, and whether one was skipped.\<close>

fun listen_loop ::
  "(string \<Rightarrow> bind_result) \<Rightarrow> (string \<Rightarrow> bind_result) \<Rightarrow> string list \<Rightarrow> bool \<Rightarrow> string list \<Rightarrow> listen_error + string list" where
  "listen_loop udp tcp bound skipped [] = (if bound = [] then Inl (NoneAvailable skipped) else Inr bound)"
| "listen_loop udp tcp bound skipped (a # rest) =
     (case udp a of
        BindFailed e \<Rightarrow> Inl (UdpFailed a e)
      | Unassigned \<Rightarrow> listen_loop udp tcp bound True rest
      | Bound \<Rightarrow>
          (case tcp a of
             BindFailed e \<Rightarrow> Inl (TcpFailed a e)
           | Unassigned \<Rightarrow> listen_loop udp tcp bound True rest
           | Bound \<Rightarrow> listen_loop udp tcp (bound @ [a]) skipped rest))"

section \<open>Every query gets one well-framed answer\<close>

lemma servfail_length [simp]: "length (servfail q) = 12"
  by (simp add: servfail_def bytes_def Let_def)

lemma resolve_length: "resolve H q = Inr r \<Longrightarrow> 12 \<le> length r \<and> length r \<le> max_dns_message"
  by (auto simp: resolve_def Let_def not_less split: if_splits sum.splits)

lemma answer_length: "12 \<le> length (answer H q) \<and> length (answer H q) \<le> max_dns_message"
  using resolve_length [of H q] by (auto simp: answer_def max_dns_message_def split: sum.split)

lemma uint16_put: "n < 65536 \<Longrightarrow> uint16 (put_uint16 n) = n"
  by (simp add: uint16_def put_uint16_def Let_def bytes_def byte_char_of_mod unat_of_nat)

lemma put_uint16_length [simp]: "length (put_uint16 n) = 2"
  by (simp add: put_uint16_def Let_def bytes_def)

lemma tcp_query:
  assumes "q \<noteq> []" "length q \<le> max_dns_message"
  shows "handle_tcp H (put_uint16 (length q) @ q @ rest) = [put_uint16 (length (answer H q)), answer H q]"
proof -
  have "read_full 2 (put_uint16 (length q) @ q @ rest) = Some (put_uint16 (length q), q @ rest)"
    by (rule read_full_append) simp
  moreover have "uint16 (put_uint16 (length q)) = length q"
    using assms(2) by (intro uint16_put) (simp add: max_dns_message_def)
  moreover have "read_full (length q) (q @ rest) = Some (q, rest)"
    by (rule read_full_append) simp
  ultimately show ?thesis
    using assms by (simp add: handle_tcp_def Let_def)
qed

lemma servfail_header:
  assumes "3 \<le> length q"
  shows "take 2 (servfail q) = take 2 q \<and> byte (servfail q ! 2) = 128 + byte (q ! 2) mod 2 \<and> byte (servfail q ! 3) = 2"
proof -
  have "byte (q ! 2) mod 2 < 2" by simp
  then have "128 + byte (q ! 2) mod 2 < 256" by linarith
  then show ?thesis
    using assms by (simp add: servfail_def Let_def bytes_def nth_append byte_char_of min_def)
qed

text \<open>
  C27: every answer fits its frame. For a query of 1 to 4096 bytes on TCP the stub writes one frame whose
  two length bytes are the length of the answer that follows, between 12 and 4096, whatever the upstream
  server sends, and bytes after the query are not answered; without a complete query of that size it
  writes nothing. When the exchange fails the answer is a failure response with the identifier and the
  recursion bit of the query.
\<close>
theorem dns_answers_fit:
  assumes "3 \<le> length q" "length q \<le> max_dns_message"
  shows "(\<exists>hdr. handle_tcp H (put_uint16 (length q) @ q @ rest) = [hdr, answer H q] \<and>
      uint16 hdr = length (answer H q)) \<and>
    12 \<le> length (answer H q) \<and> length (answer H q) \<le> max_dns_message \<and> serve_udp H q = answer H q \<and>
    (resolve H q = Inl e \<longrightarrow>
       take 2 (answer H q) = take 2 q \<and> byte (answer H q ! 2) = 128 + byte (q ! 2) mod 2 \<and> byte (answer H q ! 3) = 2) \<and>
    (length s < 2 \<or> uint16 s = 0 \<or> max_dns_message < uint16 s \<or> length s < 2 + uint16 s \<longrightarrow> handle_tcp H s = [])"
proof -
  have "uint16 (put_uint16 (length (answer H q))) = length (answer H q)"
    using answer_length [of H q] by (intro uint16_put) (simp add: max_dns_message_def)
  moreover have "q \<noteq> []"
    using assms(1) by auto
  moreover have "handle_tcp H s = []"
    if "length s < 2 \<or> uint16 s = 0 \<or> max_dns_message < uint16 s \<or> length s < 2 + uint16 s"
    using that by (auto simp: handle_tcp_def read_full_def Let_def uint16_def)
  moreover have "serve_udp H q = answer H q"
    using assms(2) by (simp add: serve_udp_def)
  moreover have "resolve H q = Inl e \<Longrightarrow> answer H q = servfail q"
    by (simp add: answer_def)
  ultimately show ?thesis
    using tcp_query [of q H rest] answer_length [of H q] assms servfail_header [OF assms(1)] by simp
qed

definition sample_query :: string where
  "sample_query = bytes [0xAB, 0xCD, 1, 0, 0, 1, 0, 0, 0, 0, 0, 0, 0, 0, 1, 0, 1]"

theorem dns_answers_fit_witness:
  "handle_tcp (\<lambda>q. Inl ''timeout'') (put_uint16 (length sample_query) @ sample_query @ ''xyz'') =
     [put_uint16 12, servfail sample_query] \<and>
   servfail sample_query = bytes [0xAB, 0xCD, 0x81, 2, 0, 0, 0, 0, 0, 0, 0, 0] \<and>
   handle_tcp (\<lambda>q. Inl ''timeout'') (bytes [0x10, 0x01] @ sample_query) = []"
proof -
  let ?H = "\<lambda>q. Inl ''timeout''"
  have l: "3 \<le> length sample_query" "length sample_query \<le> max_dns_message"
    by (simp_all add: sample_query_def bytes_def max_dns_message_def)
  have "length (bytes [0x10, 0x01] @ sample_query) < 2 + uint16 (bytes [0x10, 0x01] @ sample_query)"
    by code_simp
  then have "handle_tcp ?H (bytes [0x10, 0x01] @ sample_query) = []"
    using dns_answers_fit [OF l, of ?H "[]" "Exchange []" "bytes [0x10, 0x01] @ sample_query"] by blast
  moreover have a: "answer ?H sample_query = servfail sample_query"
    by (simp add: answer_def resolve_def sample_query_def bytes_def)
  moreover have "servfail sample_query = bytes [0xAB, 0xCD, 0x81, 2, 0, 0, 0, 0, 0, 0, 0, 0]"
    by code_simp
  moreover have "sample_query \<noteq> []"
    by (simp add: sample_query_def bytes_def)
  moreover have "length (servfail sample_query) = 12"
    by (rule servfail_length)
  ultimately show ?thesis
    using tcp_query [of sample_query ?H "''xyz''"] l(2) by (simp only: simp_thms)
qed

text \<open>
  An upstream answer of more than 4096 bytes is cut off and sent as if it were complete: nothing marks it
  as truncated.
\<close>

lemma long_answer_cut:
  assumes "12 \<le> length q" "H q = Inr (200, body)" "max_dns_message < length body"
  shows "answer H q = take max_dns_message body \<and> answer H q \<noteq> body \<and> answer H q ! 2 = body ! 2"
proof -
  have "take max_dns_message body \<noteq> body"
    using assms(3) by (metis length_take less_irrefl min.absorb4 min.commute)
  then show ?thesis
    using assms by (simp add: answer_def resolve_def Let_def max_dns_message_def)
qed

section \<open>Listening\<close>

text \<open>Without a hard failure exactly the addresses that are local are served, in order.\<close>

lemma listen_all_local:
  assumes "list_all (\<lambda>a. (\<forall>e. udp a \<noteq> BindFailed e) \<and> (\<forall>e. tcp a \<noteq> BindFailed e)) xs"
  shows "listen_loop udp tcp bound skipped xs =
    (let local_ones = bound @ filter (\<lambda>a. udp a = Bound \<and> tcp a = Bound) xs in
     if local_ones = [] then Inl (NoneAvailable (skipped \<or> xs \<noteq> [])) else Inr local_ones)"
  using assms
  by (induction xs arbitrary: bound skipped) (auto simp: Let_def split: bind_result.split)

text \<open>
  \<open>ListenAndServe\<close> up to its wait for the context: what it needs, what it connects to, and the addresses it
  serves. Later failures of a socket that is not closed are skipped.
\<close>

datatype dns_start_error = DnsNoDialer | DnsNoListen | DnsInit init_error | DnsListen listen_error

record dns_server =
  dn_timeout :: int
  dn_upstream :: "string \<times> string"
  dn_bound :: "string list"

definition dns_listen_and_serve ::
  "unicode \<Rightarrow> bool \<Rightarrow> string list \<Rightarrow> (string + doh_url) \<Rightarrow> string \<Rightarrow> int \<Rightarrow> (string \<Rightarrow> bind_result) \<Rightarrow> (string \<Rightarrow> bind_result) \<Rightarrow>
     dns_start_error + dns_server" where
  "dns_listen_and_serve U has_dialer listen parsed addr timeout udp tcp =
     (if \<not> has_dialer then Inl DnsNoDialer
      else if listen = [] then Inl DnsNoListen
      else case init_http U parsed addr of
        Inl e \<Rightarrow> Inl (DnsInit e)
      | Inr up \<Rightarrow>
          (case listen_loop udp tcp [] False listen of
             Inl e \<Rightarrow> Inl (DnsListen e)
           | Inr bound \<Rightarrow>
               Inr \<lparr>dn_timeout = (if timeout \<le> 0 then 8000000000 else timeout), dn_upstream = up, dn_bound = bound\<rparr>))"

text \<open>What a socket delivers: a datagram or connection, or an error with whether the context has ended.\<close>

datatype arrival = Arrives string | SocketFails bool

fun serve_tcp :: "doh \<Rightarrow> arrival list \<Rightarrow> string list list" where
  "serve_tcp H [] = []"
| "serve_tcp H (Arrives input # as) = handle_tcp H input # serve_tcp H as"
| "serve_tcp H (SocketFails ended # as) = (if ended then [] else serve_tcp H as)"

fun serve_udp_loop :: "doh \<Rightarrow> arrival list \<Rightarrow> string list" where
  "serve_udp_loop H [] = []"
| "serve_udp_loop H (Arrives datagram # as) = serve_udp H datagram # serve_udp_loop H as"
| "serve_udp_loop H (SocketFails ended # as) = (if ended then [] else serve_udp_loop H as)"

text \<open>A stub that runs serves some of the addresses it was given, over one upstream address with host and port.\<close>

lemma listen_loop_bound:
  "listen_loop udp tcp bound skipped xs = Inr ys \<Longrightarrow> ys \<noteq> [] \<and> set ys \<subseteq> set bound \<union> set xs \<and>
     (list_all (\<lambda>a. udp a = Bound \<and> tcp a = Bound) bound \<longrightarrow> list_all (\<lambda>a. udp a = Bound \<and> tcp a = Bound) ys)"
proof (induction xs arbitrary: bound skipped)
  case (Cons a xs)
  then show ?case
    by (auto split: bind_result.splits dest!: Cons.IH)
qed (auto split: if_splits)

lemma dns_stub_running:
  assumes "dns_listen_and_serve U d listen parsed addr timeout udp tcp = Inr s"
  shows "dn_bound s \<noteq> [] \<and> set (dn_bound s) \<subseteq> set listen \<and> (\<forall>a \<in> set (dn_bound s). udp a = Bound \<and> tcp a = Bound) \<and>
    0 < dn_timeout s \<and> is_ok (split_host_port (fst (dn_upstream s)))"
proof -
  obtain up bound where up: "init_http U parsed addr = Inr up" and b: "listen_loop udp tcp [] False listen = Inr bound"
    and s: "s = \<lparr>dn_timeout = (if timeout \<le> 0 then 8000000000 else timeout), dn_upstream = up, dn_bound = bound\<rparr>"
    using assms by (auto simp: dns_listen_and_serve_def split: if_splits sum.splits)
  have "is_ok (split_host_port (fst up))"
    using up by (auto simp: init_http_def Let_def split: sum.splits if_splits)
  then show ?thesis
    using listen_loop_bound [OF b] by (auto simp: s list_all_iff)
qed

text \<open>While the context lasts every connection and datagram is answered, whatever errors come between.\<close>

lemma serve_until_end:
  assumes "SocketFails True \<notin> set as"
  shows "serve_tcp H as = concat (map (\<lambda>a. case a of Arrives i \<Rightarrow> [handle_tcp H i] | SocketFails b \<Rightarrow> []) as)"
    "serve_udp_loop H as = concat (map (\<lambda>a. case a of Arrives i \<Rightarrow> [serve_udp H i] | SocketFails b \<Rightarrow> []) as)"
  using assms by (induction as rule: serve_tcp.induct) auto

end
