(* ===== verification/Conn_Log.thy ===== *)
theory Conn_Log
  imports Go_Strings "HOL-Library.Word" "HOL-Library.Sublist"
begin

text \<open>
  \<open>internal/connlog\<close>: the ring of connection events with age pruning, statistics and
  subscribers. Times are nanoseconds; the clock reading of each operation is an argument.
  Event numbers are 64-bit and wrap. A subscriber is a channel with its undelivered events.
\<close>

section \<open>Data\<close>

definition ViaTunnel :: string where "ViaTunnel = ''tunnel''"
definition ViaDirect :: string where "ViaDirect = ''direct''"
definition ViaDrop :: string where "ViaDrop = ''drop''"
definition ProtoSOCKS :: string where "ProtoSOCKS = ''socks''"
definition ProtoL3 :: string where "ProtoL3 = ''l3''"

text \<open>The zero \<open>time.Time\<close>, 1 January of year 1, on the nanosecond scale of the Unix epoch.\<close>

definition zero_time :: int where
  "zero_time = - 62135596800000000000"

definition default_ttl :: int where
  "default_ttl = 3600000000000"

record event =
  ev_id :: "64 word"
  ev_time :: int
  ev_proto :: string
  ev_client :: string
  ev_target :: string
  ev_host :: string
  ev_port :: int
  ev_via :: string
  ev_rule :: string
  ev_ok :: bool
  ev_error :: string
  ev_ms :: int

record chan =
  ch_id :: nat
  ch_open :: bool
  ch_queue :: "event list"

record conn_log =
  cl_cap :: nat
  cl_ttl :: int
  cl_buf :: "event list"
  cl_seq :: "64 word"
  cl_subs :: "chan list"

section \<open>Operations\<close>

definition new_with_ttl :: "int \<Rightarrow> int \<Rightarrow> conn_log" where
  "new_with_ttl capacity ttl =
     (let c = (if capacity \<le> 0 then 500 else capacity) in
      \<lparr>cl_cap = nat c, cl_ttl = ttl, cl_buf = [], cl_seq = 0, cl_subs = []\<rparr>)"

definition new_log :: "int \<Rightarrow> conn_log" where
  "new_log capacity = new_with_ttl capacity default_ttl"

definition log_capacity :: "conn_log option \<Rightarrow> nat" where
  "log_capacity s = (case s of None \<Rightarrow> 0 | Some x \<Rightarrow> cl_cap x)"

fun skip_old :: "int \<Rightarrow> event list \<Rightarrow> event list" where
  "skip_old cutoff [] = []"
| "skip_old cutoff (e # es) = (if ev_time e < cutoff then skip_old cutoff es else e # es)"

definition prune :: "int \<Rightarrow> conn_log \<Rightarrow> conn_log" where
  "prune now s =
     (if cl_ttl s \<le> 0 \<or> cl_buf s = [] then s
      else s\<lparr>cl_buf := skip_old (now - cl_ttl s) (cl_buf s)\<rparr>)"

definition log_len :: "int \<Rightarrow> conn_log \<Rightarrow> nat \<times> conn_log" where
  "log_len now s = (let s' = prune now s in (length (cl_buf s'), s'))"

definition push :: "event \<Rightarrow> conn_log \<Rightarrow> conn_log" where
  "push e s =
     (if length (cl_buf s) < cl_cap s then s\<lparr>cl_buf := cl_buf s @ [e]\<rparr>
      else s\<lparr>cl_buf := tl (cl_buf s) @ [e]\<rparr>)"

text \<open>The select with a default: a full channel misses the event.\<close>

definition chan_buffer :: nat where
  "chan_buffer = 32"

definition offer :: "event \<Rightarrow> chan \<Rightarrow> chan" where
  "offer e ch =
     (if ch_open ch \<and> length (ch_queue ch) < chan_buffer then ch\<lparr>ch_queue := ch_queue ch @ [e]\<rparr> else ch)"

definition record_event :: "int \<Rightarrow> event \<Rightarrow> conn_log \<Rightarrow> event \<times> conn_log" where
  "record_event now e0 s0 =
     (let s1 = s0\<lparr>cl_seq := cl_seq s0 + 1\<rparr>;
          e1 = e0\<lparr>ev_id := cl_seq s1\<rparr>;
          e = (if ev_time e1 = zero_time then e1\<lparr>ev_time := now\<rparr> else e1);
          s2 = push e (prune (ev_time e) s1)
      in (e, s2\<lparr>cl_subs := map (offer e) (cl_subs s2)\<rparr>))"

definition snapshot :: "int \<Rightarrow> int \<Rightarrow> conn_log \<Rightarrow> event list \<times> conn_log" where
  "snapshot now limit s0 =
     (let s = prune now s0; n = length (cl_buf s);
          l = (if limit \<le> 0 \<or> int n < limit then n else nat limit)
      in (drop (n - l) (cl_buf s), s))"

record log_stats =
  ls_total :: nat
  ls_vpn :: nat
  ls_direct :: nat
  ls_ok :: nat
  ls_fail :: nat

fun count_stats :: "int \<Rightarrow> event list \<Rightarrow> log_stats \<Rightarrow> log_stats" where
  "count_stats since [] st = st"
| "count_stats since (e # es) st =
     (if since \<noteq> zero_time \<and> ev_time e < since then count_stats since es st
      else
        let st1 = st\<lparr>ls_total := ls_total st + 1\<rparr>;
            st2 = (if ev_via e = ViaDirect then st1\<lparr>ls_direct := ls_direct st1 + 1\<rparr>
                   else if ev_via e = ViaDrop then st1
                   else st1\<lparr>ls_vpn := ls_vpn st1 + 1\<rparr>);
            st3 = (if ev_ok e then st2\<lparr>ls_ok := ls_ok st2 + 1\<rparr> else st2\<lparr>ls_fail := ls_fail st2 + 1\<rparr>)
        in count_stats since es st3)"

definition log_stats_since :: "int \<Rightarrow> int \<Rightarrow> conn_log \<Rightarrow> log_stats \<times> conn_log" where
  "log_stats_since now since s0 =
     (let s = prune now s0 in
      (count_stats since (cl_buf s) \<lparr>ls_total = 0, ls_vpn = 0, ls_direct = 0, ls_ok = 0, ls_fail = 0\<rparr>, s))"

definition subscribe :: "nat \<Rightarrow> conn_log \<Rightarrow> conn_log" where
  "subscribe i s = s\<lparr>cl_subs := cl_subs s @ [\<lparr>ch_id = i, ch_open = True, ch_queue = []\<rparr>]\<rparr>"

definition unsubscribe :: "nat \<Rightarrow> conn_log \<Rightarrow> conn_log" where
  "unsubscribe i s =
     s\<lparr>cl_subs := map (\<lambda>ch. if ch_id ch = i then ch\<lparr>ch_open := False\<rparr> else ch) (cl_subs s)\<rparr>"

text \<open>The receiving side of a channel.\<close>

definition receive :: "nat \<Rightarrow> conn_log \<Rightarrow> conn_log" where
  "receive i s =
     s\<lparr>cl_subs := map (\<lambda>ch. if ch_id ch = i then ch\<lparr>ch_queue := tl (ch_queue ch)\<rparr> else ch) (cl_subs s)\<rparr>"

record fields =
  fl_proto :: string
  fl_client :: string
  fl_target :: string
  fl_host :: string
  fl_port :: int
  fl_via :: string
  fl_rule :: string
  fl_ok :: bool
  fl_error :: string
  fl_ms :: int

definition event_of :: "unicode \<Rightarrow> fields \<Rightarrow> event" where
  "event_of U f =
     (let p = to_lower U (fl_proto f);
          proto = (if p \<noteq> ProtoSOCKS \<and> p \<noteq> ProtoL3 then fl_proto f else p);
          v = to_lower U (fl_via f);
          via = (if v \<in> {ViaTunnel, ViaDirect, ViaDrop} then v else ViaTunnel)
      in \<lparr>ev_id = 0, ev_time = zero_time, ev_proto = proto, ev_client = fl_client f, ev_target = fl_target f,
          ev_host = fl_host f, ev_port = fl_port f, ev_via = via, ev_rule = fl_rule f, ev_ok = fl_ok f,
          ev_error = fl_error f, ev_ms = fl_ms f\<rparr>)"

definition from_fields :: "unicode \<Rightarrow> int \<Rightarrow> fields \<Rightarrow> conn_log \<Rightarrow> event \<times> conn_log" where
  "from_fields U now f s = record_event now (event_of U f) s"

definition hook :: "unicode \<Rightarrow> int \<Rightarrow> fields \<Rightarrow> conn_log \<Rightarrow> conn_log" where
  "hook U now f s = snd (from_fields U now f s)"

section \<open>Histories\<close>

datatype log_op =
    LRecord fields
  | LLen
  | LSnapshot int
  | LStats int
  | LSubscribe nat
  | LUnsubscribe nat
  | LReceive nat

text \<open>One operation at a clock reading, with the events recorded so far as a ghost.\<close>

fun log_step :: "unicode \<Rightarrow> int \<times> log_op \<Rightarrow> conn_log \<times> event list \<Rightarrow> conn_log \<times> event list" where
  "log_step U (now, LRecord f) (s, all) = (case from_fields U now f s of (e, s') \<Rightarrow> (s', all @ [e]))"
| "log_step U (now, LLen) (s, all) = (snd (log_len now s), all)"
| "log_step U (now, LSnapshot k) (s, all) = (snd (snapshot now k s), all)"
| "log_step U (now, LStats since) (s, all) = (snd (log_stats_since now since s), all)"
| "log_step U (now, LSubscribe i) (s, all) = (subscribe i s, all)"
| "log_step U (now, LUnsubscribe i) (s, all) = (unsubscribe i s, all)"
| "log_step U (now, LReceive i) (s, all) = (receive i s, all)"

definition log_run :: "unicode \<Rightarrow> (int \<times> log_op) list \<Rightarrow> conn_log \<times> event list \<Rightarrow> conn_log \<times> event list" where
  "log_run U ops w = fold (log_step U) ops w"

section \<open>Pruning and the ring\<close>

definition lastn :: "nat \<Rightarrow> 'a list \<Rightarrow> 'a list" where
  "lastn n xs = drop (length xs - n) xs"

lemma lastn_snoc: "0 < n \<Longrightarrow> lastn n (xs @ [x]) = (if length xs < n then xs else tl (lastn n xs)) @ [x]"
  by (auto simp: lastn_def drop_Suc [symmetric] tl_drop drop_tl Suc_diff_le not_less)

lemma length_lastn [simp]: "length (lastn n xs) = min n (length xs)"
  by (simp add: lastn_def)

lemma lastn_all: "length xs \<le> n \<Longrightarrow> lastn n xs = xs"
  by (simp add: lastn_def)

definition fresh :: "int \<Rightarrow> event list \<Rightarrow> event list" where
  "fresh c es = filter (\<lambda>e. c \<le> ev_time e) es"

lemma skip_old_fresh: "sorted (map ev_time es) \<Longrightarrow> skip_old c es = fresh c es"
  by (induction es) (auto simp: fresh_def filter_id_conv intro!: sym [OF filter_True])

lemma fresh_fresh: "c \<le> d \<Longrightarrow> fresh d (fresh c es) = fresh d es"
  by (auto simp: fresh_def intro!: filter_cong)

lemma fresh_tl:
  assumes "sorted (map ev_time es)" "length (fresh c es) < length es"
  shows "fresh c (tl es) = fresh c es"
proof (cases es)
  case (Cons e t)
  have "ev_time e < c"
  proof (rule ccontr)
    assume "\<not> ev_time e < c"
    then have "fresh c es = es" using assms(1) by (force simp: fresh_def Cons filter_id_conv)
    with assms(2) show False by simp
  qed
  with Cons show ?thesis by (simp add: fresh_def)
qed simp

lemma sorted_fresh: "sorted (map ev_time es) \<Longrightarrow> sorted (map ev_time (fresh c es))"
  unfolding fresh_def by (rule sorted_filter)

lemma sorted_lastn: "sorted (map ev_time es) \<Longrightarrow> sorted (map ev_time (lastn n es))"
  by (simp add: lastn_def drop_map [symmetric] sorted_wrt_drop)

text \<open>The ring holds the fresh part of the last events, for some cutoff it has reached.\<close>

definition ring_inv :: "int \<Rightarrow> conn_log \<times> event list \<Rightarrow> bool" where
  "ring_inv now w \<longleftrightarrow>
     (case w of (s, all) \<Rightarrow>
        0 < cl_cap s \<and> sorted (map ev_time all) \<and> (\<forall>e \<in> set all. ev_time e \<le> now) \<and>
        (if 0 < cl_ttl s then \<exists>c \<le> now - cl_ttl s. cl_buf s = fresh c (lastn (cl_cap s) all)
         else cl_buf s = lastn (cl_cap s) all))"

definition ring_exact :: "int \<Rightarrow> conn_log \<times> event list \<Rightarrow> bool" where
  "ring_exact now w \<longleftrightarrow>
     (case w of (s, all) \<Rightarrow>
        cl_buf s = (if 0 < cl_ttl s then fresh (now - cl_ttl s) (lastn (cl_cap s) all) else lastn (cl_cap s) all))"

lemma prune_fields [simp]:
  "cl_cap (prune now s) = cl_cap s" "cl_ttl (prune now s) = cl_ttl s" "cl_seq (prune now s) = cl_seq s"
  "cl_subs (prune now s) = cl_subs s"
  by (simp_all add: prune_def)

lemma ring_invD:
  assumes "ring_inv t (s, all)"
  shows "0 < cl_cap s" "sorted (map ev_time all)" "\<And>e. e \<in> set all \<Longrightarrow> ev_time e \<le> t"
    "\<not> 0 < cl_ttl s \<Longrightarrow> cl_buf s = lastn (cl_cap s) all"
  using assms by (auto simp: ring_inv_def)

lemma prune_exact:
  assumes "ring_inv t (s, all)" "t \<le> now"
  shows "ring_exact now (prune now s, all)"
proof (cases "0 < cl_ttl s")
  case True
  then obtain c where c: "c \<le> t - cl_ttl s" "cl_buf s = fresh c (lastn (cl_cap s) all)"
    using assms(1) by (auto simp: ring_inv_def)
  have so: "sorted (map ev_time (cl_buf s))"
    using ring_invD(2) [OF assms(1)] by (simp add: c(2) sorted_fresh sorted_lastn)
  have "c \<le> now - cl_ttl s" using c(1) assms(2) by simp
  then have "fresh (now - cl_ttl s) (cl_buf s) = fresh (now - cl_ttl s) (lastn (cl_cap s) all)"
    unfolding c(2) by (rule fresh_fresh)
  with True show ?thesis
    by (auto simp: ring_exact_def prune_def skip_old_fresh [OF so] fresh_def)
next
  case False
  then show ?thesis using ring_invD(4) [OF assms(1)] by (simp add: ring_exact_def prune_def)
qed

lemma exact_inv:
  assumes "ring_exact now (s, all)" "0 < cl_cap s" "sorted (map ev_time all)"
    "\<And>e. e \<in> set all \<Longrightarrow> ev_time e \<le> now"
  shows "ring_inv now (s, all)"
  using assms by (auto simp: ring_inv_def ring_exact_def)

lemma prune_inv:
  assumes "ring_inv t (s, all)" "t \<le> now"
  shows "ring_inv now (prune now s, all)"
proof (rule exact_inv [OF prune_exact [OF assms]])
  show "ev_time e \<le> now" if "e \<in> set all" for e using ring_invD(3) [OF assms(1) that] assms(2) by simp
qed (simp_all add: ring_invD [OF assms(1)])

lemma set_tl: "set (tl xs) \<subseteq> set xs"
  by (cases xs) auto

lemma push_exact:
  assumes "ring_exact now (s, all)" "ring_inv now (s, all)" "ev_time e = now"
  shows "ring_exact now (push e s, all @ [e])"
proof -
  let ?n = "cl_cap s" and ?L = "lastn (cl_cap s) all"
  have n: "0 < ?n" and so: "sorted (map ev_time ?L)"
    using ring_invD(1,2) [OF assms(2)] by (simp_all add: sorted_lastn)
  note snoc = lastn_snoc [OF n, of all e]
  show ?thesis
  proof (cases "0 < cl_ttl s")
    case False
    then have b: "cl_buf s = ?L" using assms(1) by (simp add: ring_exact_def)
    show ?thesis
    proof (cases "length all < ?n")
      case True
      then show ?thesis using False b snoc by (simp add: ring_exact_def push_def lastn_all)
    next
      case full: False
      then show ?thesis using False b snoc by (simp add: ring_exact_def push_def)
    qed
  next
    case ttl: True
    let ?c = "now - cl_ttl s"
    have b: "cl_buf s = fresh ?c ?L" using assms(1) ttl by (simp add: ring_exact_def)
    have fe: "fresh ?c (xs @ [e]) = fresh ?c xs @ [e]" for xs
      using ttl assms(3) by (simp add: fresh_def)
    have len: "length (fresh ?c ?L) \<le> length ?L" by (simp add: fresh_def del: length_lastn)
    have tl_fresh: "fresh ?c (tl ?L) = tl (fresh ?c ?L)" if "length (fresh ?c ?L) = length ?L"
    proof -
      have "fresh ?c ?L = ?L" using that unfolding fresh_def by (metis filter_id_conv length_filter_less less_irrefl)
      then have "\<forall>x \<in> set ?L. ?c \<le> ev_time x" by (simp add: fresh_def filter_id_conv)
      then have "fresh ?c (tl ?L) = tl ?L" using set_tl by (fastforce simp: fresh_def filter_id_conv)
      with \<open>fresh ?c ?L = ?L\<close> show ?thesis by simp
    qed
    show ?thesis
    proof (cases "length all < ?n")
      case True
      then show ?thesis using ttl b snoc len fe by (simp add: ring_exact_def push_def lastn_all)
    next
      case False
      then have L: "length ?L = ?n" by simp
      show ?thesis
      proof (cases "length (fresh ?c ?L) = length ?L")
        case True
        then show ?thesis using ttl b snoc False L fe tl_fresh by (simp add: ring_exact_def push_def)
      next
        case less: False
        then have "length (fresh ?c ?L) < length ?L" using le_neq_implies_less [OF len] by blast
        then have "fresh ?c (tl ?L) = fresh ?c ?L" "length (cl_buf s) < ?n"
          using fresh_tl [OF so] L b by simp_all
        then show ?thesis using ttl b snoc False fe by (simp add: ring_exact_def push_def)
      qed
    qed
  qed
qed

lemma ring_exact_cong:
  "cl_buf s' = cl_buf s \<Longrightarrow> cl_cap s' = cl_cap s \<Longrightarrow> cl_ttl s' = cl_ttl s \<Longrightarrow>
     ring_exact now (s', all) = ring_exact now (s, all)"
  by (simp add: ring_exact_def)

lemma ring_inv_cong:
  "cl_buf s' = cl_buf s \<Longrightarrow> cl_cap s' = cl_cap s \<Longrightarrow> cl_ttl s' = cl_ttl s \<Longrightarrow>
     ring_inv now (s', all) = ring_inv now (s, all)"
  by (simp add: ring_inv_def)

lemma ring_inv_mono:
  assumes "ring_inv t (s, all)" "t \<le> now"
  shows "ring_inv now (s, all)"
proof -
  have "ev_time e \<le> now" if "e \<in> set all" for e using ring_invD(3) [OF assms(1) that] assms(2) by simp
  moreover have "\<exists>d \<le> now - cl_ttl s. cl_buf s = fresh d (lastn (cl_cap s) all)"
    if "c \<le> t - cl_ttl s" "cl_buf s = fresh c (lastn (cl_cap s) all)" for c
    using that assms(2) by (intro exI [of _ c]) simp
  ultimately show ?thesis using assms(1) by (auto simp: ring_inv_def split: if_splits)
qed

lemma record_inv:
  assumes "ring_inv t (s, all)" "t \<le> now" "from_fields U now f s = (e, s')"
  shows "ring_inv now (s', all @ [e])" "ev_id e = cl_seq s + 1" "cl_seq s' = cl_seq s + 1"
    "cl_cap s' = cl_cap s" "cl_ttl s' = cl_ttl s"
proof -
  let ?s1 = "s\<lparr>cl_seq := cl_seq s + 1\<rparr>"
  have e: "ev_time e = now" "ev_id e = cl_seq s + 1"
    and s': "s' = (push e (prune now ?s1))\<lparr>cl_subs := map (offer e) (cl_subs (push e (prune now ?s1)))\<rparr>"
    using assms(3) by (auto simp: from_fields_def record_event_def event_of_def Let_def)
  have inv1: "ring_inv t (?s1, all)" using assms(1) by (simp add: ring_inv_def)
  note ex = prune_exact [OF inv1 assms(2)] and inv = prune_inv [OF inv1 assms(2)]
  have ex': "ring_exact now (s', all @ [e])"
    using push_exact [OF ex inv e(1)] by (simp add: s' ring_exact_def push_def)
  have cap: "cl_cap s' = cl_cap s" "cl_ttl s' = cl_ttl s" "cl_seq s' = cl_seq s + 1"
    by (simp_all add: s' push_def)
  have "ev_time x \<le> now" if "x \<in> set (all @ [e])" for x
    using that ring_invD(3) [OF inv] e(1) by auto
  moreover have "sorted (map ev_time (all @ [e]))"
    using ring_invD(2,3) [OF inv] e(1) by (simp add: sorted_append)
  ultimately show "ring_inv now (s', all @ [e])"
    using ring_invD(1) [OF assms(1)] cap by (intro exact_inv [OF ex']) simp_all
  show "ev_id e = cl_seq s + 1" "cl_seq s' = cl_seq s + 1" "cl_cap s' = cl_cap s" "cl_ttl s' = cl_ttl s"
    using e cap by simp_all
qed

definition numbered :: "conn_log \<times> event list \<Rightarrow> bool" where
  "numbered w \<longleftrightarrow>
     cl_seq (fst w) = of_nat (length (snd w)) \<and>
     map ev_id (snd w) = map of_nat [1..<length (snd w) + 1]"

lemma log_step_inv:
  assumes "ring_inv t w" "t \<le> fst o1" "numbered w"
  shows "ring_inv (fst o1) (log_step U o1 w) \<and> numbered (log_step U o1 w) \<and>
    cl_cap (fst (log_step U o1 w)) = cl_cap (fst w) \<and> cl_ttl (fst (log_step U o1 w)) = cl_ttl (fst w)"
proof -
  obtain now opn s all where o: "o1 = (now, opn)" "w = (s, all)" by (metis surj_pair)
  have inv: "ring_inv t (s, all)" and le: "t \<le> now" using assms o by auto
  show ?thesis
  proof (cases opn)
    case (LRecord f)
    obtain e s' where r: "from_fields U now f s = (e, s')" by (metis surj_pair)
    from record_inv [OF inv le r] assms(3) show ?thesis
      by (simp add: o LRecord r numbered_def add.commute)
  next
    case (LSubscribe i)
    then show ?thesis using ring_inv_mono [OF inv le] ring_inv_cong [of "subscribe i s" s] assms(3)
      by (simp add: o subscribe_def numbered_def)
  next
    case (LUnsubscribe i)
    then show ?thesis using ring_inv_mono [OF inv le] ring_inv_cong [of "unsubscribe i s" s] assms(3)
      by (simp add: o unsubscribe_def numbered_def)
  next
    case (LReceive i)
    then show ?thesis using ring_inv_mono [OF inv le] ring_inv_cong [of "receive i s" s] assms(3)
      by (simp add: o receive_def numbered_def)
  qed (use prune_inv [OF inv le] assms(3) in
      \<open>simp_all add: o log_len_def snapshot_def log_stats_since_def Let_def numbered_def\<close>)
qed

lemma log_run_inv:
  "ring_inv t w \<Longrightarrow> sorted (t # map fst ops) \<Longrightarrow> numbered w \<Longrightarrow>
     ring_inv (last (t # map fst ops)) (log_run U ops w) \<and> numbered (log_run U ops w) \<and>
     cl_cap (fst (log_run U ops w)) = cl_cap (fst w) \<and> cl_ttl (fst (log_run U ops w)) = cl_ttl (fst w)"
proof (induction ops arbitrary: t w)
  case (Cons x ops)
  have s: "ring_inv (fst x) (log_step U x w)" "numbered (log_step U x w)"
    "cl_cap (fst (log_step U x w)) = cl_cap (fst w)" "cl_ttl (fst (log_step U x w)) = cl_ttl (fst w)"
    using log_step_inv [OF Cons.prems(1) _ Cons.prems(3), of x U] Cons.prems(2) by simp_all
  have "sorted (fst x # map fst ops)" using Cons.prems(2) by simp
  from Cons.IH [OF s(1) this s(2)] s(3,4) show ?case by (simp add: log_run_def)
qed (simp add: log_run_def)

lemma new_log_inv: "ring_inv t (new_with_ttl cap ttl, []) \<and> numbered (new_with_ttl cap ttl, [])"
  by (auto simp: ring_inv_def new_with_ttl_def Let_def numbered_def lastn_def fresh_def)

section \<open>Properties of the log\<close>

definition kept :: "int \<Rightarrow> conn_log \<Rightarrow> event list \<Rightarrow> event list" where
  "kept now s all =
     (if 0 < cl_ttl s then fresh (now - cl_ttl s) (lastn (cl_cap s) all) else lastn (cl_cap s) all)"

text \<open>
  C37: what the connection log shows. After any sequence of operations under a clock that does
  not go back, Snapshot returns exactly the events among the last "capacity" recorded ones
  that are not older than the TTL (or the last of those, under a limit), in the order of
  recording; and the events carry the numbers 1, 2, 3, ... (modulo 2^64) without a gap.
\<close>

theorem snapshot_shows_recent_events:
  assumes "sorted (map fst ops @ [now])"
    and "log_run U ops (new_with_ttl capacity ttl, []) = (s, all)"
  shows "fst (snapshot now limit s) =
      (if limit \<le> 0 then kept now s all else lastn (nat limit) (kept now s all)) \<and>
    length (fst (snapshot now limit s)) \<le> cl_cap s \<and>
    map ev_id all = map of_nat [1..<length all + 1]"
proof -
  obtain t where t: "sorted (t # map fst ops @ [now])"
  proof (cases ops)
    case Nil
    then show ?thesis using that [of now] by simp
  next
    case (Cons x xs)
    then show ?thesis using that [of "fst x"] assms(1) by simp
  qed
  then have so: "sorted (t # map fst ops)" and "\<forall>x \<in> set (t # map fst ops). x \<le> now"
    by (auto simp: sorted_append)
  then have le: "last (t # map fst ops) \<le> now" using last_in_set [of "t # map fst ops"] by blast
  have i: "ring_inv (last (t # map fst ops)) (s, all)" and n: "numbered (s, all)"
    using log_run_inv [of t "(new_with_ttl capacity ttl, [])" ops U] new_log_inv [of t capacity ttl] so assms(2)
    by simp_all
  have k: "cl_buf (prune now s) = kept now s all"
    using prune_exact [OF i le] by (simp add: ring_exact_def kept_def)
  have len: "length (kept now s all) \<le> cl_cap s"
    by (auto simp: kept_def fresh_def intro: order_trans [OF length_filter_le])
  have "fst (snapshot now limit s) =
      (if limit \<le> 0 then kept now s all else lastn (nat limit) (kept now s all))"
    by (auto simp: snapshot_def k Let_def lastn_def)
  moreover have "length (fst (snapshot now limit s)) \<le> cl_cap s" using len by (simp add: snapshot_def k Let_def)
  ultimately show ?thesis using n by (simp add: numbered_def)
qed

definition sample_fields :: fields where
  "sample_fields = \<lparr>fl_proto = ''SOCKS'', fl_client = ''10.0.0.2'', fl_target = ''a:1'', fl_host = ''a'',
     fl_port = 1, fl_via = ''direct'', fl_rule = [], fl_ok = True, fl_error = [], fl_ms = 3\<rparr>"

theorem snapshot_shows_recent_events_witness:
  "let (s, all) = log_run ascii_tables
         [(5, LRecord sample_fields), (7, LRecord sample_fields), (9, LRecord sample_fields)] (new_with_ttl 2 3, [])
   in map ev_id (fst (snapshot 11 0 s)) = [3] \<and> map ev_id (fst (snapshot 10 0 s)) = [2, 3]"
proof -
  let ?ops = "[(5, LRecord sample_fields), (7, LRecord sample_fields), (9, LRecord sample_fields)]"
  let ?w = "log_run ascii_tables ?ops (new_with_ttl 2 3, [])"
  have r: "?w = (fst ?w, snd ?w)" by simp
  have "fst (snapshot 11 0 (fst ?w)) = kept 11 (fst ?w) (snd ?w)"
    "fst (snapshot 10 0 (fst ?w)) = kept 10 (fst ?w) (snd ?w)"
    using snapshot_shows_recent_events [OF _ r, of 11 0] snapshot_shows_recent_events [OF _ r, of 10 0] by simp_all
  moreover have "map ev_id (kept 11 (fst ?w) (snd ?w)) = [3]" "map ev_id (kept 10 (fst ?w) (snd ?w)) = [2, 3]"
    by code_simp+
  ultimately show ?thesis by (simp add: case_prod_beta)
qed

section \<open>Subscribers\<close>

definition chan_ok :: "event list \<Rightarrow> chan \<Rightarrow> bool" where
  "chan_ok all ch \<longleftrightarrow> length (ch_queue ch) \<le> chan_buffer \<and> subseq (ch_queue ch) all"

lemma chan_ok_offer: "chan_ok all ch \<Longrightarrow> chan_ok (all @ [e]) (offer e ch)"
  by (auto simp: chan_ok_def offer_def intro: subseq_append list_emb_append_mono subseq_order.trans)

lemma subseq_tl: "subseq (tl xs) xs"
  by (cases xs) auto

lemma chan_ok_receive: "chan_ok all ch \<Longrightarrow> chan_ok all (ch\<lparr>ch_queue := tl (ch_queue ch)\<rparr>)"
  unfolding chan_ok_def using subseq_tl [of "ch_queue ch"] subseq_order.trans by fastforce

lemma log_step_chans:
  assumes "list_all (chan_ok (snd w)) (cl_subs (fst w))"
  shows "list_all (chan_ok (snd (log_step U o1 w))) (cl_subs (fst (log_step U o1 w)))"
proof -
  obtain now opn s all where o: "o1 = (now, opn)" "w = (s, all)" by (metis surj_pair)
  have a: "\<And>ch. ch \<in> set (cl_subs s) \<Longrightarrow> chan_ok all ch" using assms by (simp add: o list_all_iff)
  show ?thesis
  proof (cases opn)
    case (LRecord f)
    obtain e s' where r: "from_fields U now f s = (e, s')" by (metis surj_pair)
    then have "cl_subs s' = map (offer e) (cl_subs s)"
      by (auto simp: from_fields_def record_event_def Let_def push_def)
    with a chan_ok_offer show ?thesis by (auto simp: o LRecord r list_all_iff)
  next
    case (LReceive i)
    then show ?thesis using a chan_ok_receive by (auto simp: o receive_def list_all_iff)
  qed (use a in \<open>auto simp: o log_len_def snapshot_def log_stats_since_def subscribe_def unsubscribe_def
        Let_def list_all_iff chan_ok_def chan_buffer_def\<close>)
qed

lemma log_run_chans:
  "list_all (chan_ok (snd w)) (cl_subs (fst w)) \<Longrightarrow>
     list_all (chan_ok (snd (log_run U ops w))) (cl_subs (fst (log_run U ops w)))"
proof (induction ops arbitrary: w)
  case (Cons x ops)
  from Cons.IH [OF log_step_chans [OF Cons.prems]] show ?case by (simp add: log_run_def)
qed (simp add: log_run_def)

text \<open>
  A slow or absent reader never holds up the proxies and never sees anything wrong: after
  any sequence of operations the pending events of every subscriber are at most 32 and are
  events that were recorded, in the order of recording and without repetition.
\<close>

theorem subscribers_see_recorded_events:
  "let (s, all) = log_run U ops (new_with_ttl capacity ttl, [])
   in list_all (\<lambda>ch. length (ch_queue ch) \<le> 32 \<and> subseq (ch_queue ch) all) (cl_subs s)"
  using log_run_chans [of "(new_with_ttl capacity ttl, [])" U ops]
  by (simp add: case_prod_beta chan_ok_def [abs_def] chan_buffer_def new_with_ttl_def Let_def)

end
