(* ===== verification/Go_Json.thy ===== *)
theory Go_Json
  imports Go_Net_Text
begin

text \<open>
  Package \<open>encoding/json\<close>, as far as the program uses it. Writing: \<open>Marshal\<close> of the values the handlers send, with
  the escapes of HTML and the replacement of bytes that are not UTF-8. Reading: the scanner as a machine over tokens
  with a stack of open arrays and objects, bounded in depth, and the assignment of a value to the fields of a
  struct. Not modelled: the texts of errors, and cells of a slice that an earlier, longer array under the same key
  has left behind it.
\<close>

section \<open>UTF-8\<close>

text \<open>How many bytes a first byte announces, and the range of the second (package \<open>unicode/utf8\<close>).\<close>

definition more_bytes :: "char \<Rightarrow> nat" where
  "more_bytes a =
     (if byte a < 0xC2 then 0 else if byte a < 0xE0 then 1 else if byte a < 0xF0 then 2 else if byte a < 0xF5 then 3 else 0)"

definition second_ok :: "char \<Rightarrow> char \<Rightarrow> bool" where
  "second_ok a b \<longleftrightarrow>
     (if byte a = 0xE0 then 0xA0 else if byte a = 0xF0 then 0x90 else 0x80) \<le> byte b \<and>
     byte b \<le> (if byte a = 0xED then 0x9F else if byte a = 0xF4 then 0x8F else 0xBF)"

definition continues :: "char \<Rightarrow> bool" where
  "continues c \<longleftrightarrow> 0x80 \<le> byte c \<and> byte c \<le> 0xBF"

text \<open>The size of the rune at the front, 0 when the bytes there are none.\<close>

fun rune_size :: "string \<Rightarrow> nat" where
  "rune_size [] = 0"
| "rune_size (a # s) =
     (if byte a < 0x80 then 1
      else if more_bytes a = 0 \<or> length s < more_bytes a \<or> \<not> second_ok a (hd s) \<or>
        \<not> list_all continues (take (more_bytes a - 1) (tl s)) then 0
      else Suc (more_bytes a))"

definition replacement :: string where
  "replacement = map char_of [0xEF, 0xBF, 0xBD :: nat]"

text \<open>A string as \<open>range\<close> goes through it: its runes, and single bytes where there is none.\<close>

function runes :: "string \<Rightarrow> string list" where
  "runes [] = []"
| "runes (c # s) = take (max 1 (rune_size (c # s))) (c # s) # runes (drop (max 1 (rune_size (c # s))) (c # s))"
  by pat_completeness auto
termination by (relation "measure length") auto

definition valid_rune :: "string \<Rightarrow> string" where
  "valid_rune r = (if rune_size r = 0 then replacement else r)"

definition to_valid :: "string \<Rightarrow> string" where
  "to_valid s = concat (map valid_rune (runes s))"

text \<open>\<open>utf8.AppendRune\<close>.\<close>

definition encode_rune :: "nat \<Rightarrow> string" where
  "encode_rune r =
     (if r < 0x80 then [char_of r]
      else if r < 0x800 then map char_of [0xC0 + r div 64, 0x80 + r mod 64]
      else if 0xD800 \<le> r \<and> r < 0xE000 \<or> 0x110000 \<le> r then replacement
      else if r < 0x10000 then map char_of [0xE0 + r div 4096, 0x80 + r div 64 mod 64, 0x80 + r mod 64]
      else map char_of [0xF0 + r div 262144, 0x80 + r div 4096 mod 64, 0x80 + r div 64 mod 64, 0x80 + r mod 64])"

lemma rune_size_append: "0 < rune_size r \<Longrightarrow> rune_size r = length r \<Longrightarrow> rune_size (r @ t) = length r"
  by (cases r; cases "tl r") (auto split: if_splits)

lemma rune_size_le: "rune_size s \<le> length s"
  by (cases s) auto

lemma rune_size_take: "rune_size (take (rune_size s) s) = rune_size s"
proof (cases s)
  case (Cons a t)
  show ?thesis
  proof (cases "byte a < 0x80 \<or> rune_size s = 0")
    case False
    let ?m = "more_bytes a"
    have n: "rune_size s = Suc ?m" "\<not> (?m = 0 \<or> length t < ?m \<or> \<not> second_ok a (hd t) \<or>
        \<not> list_all continues (take (?m - 1) (tl t)))" "\<not> byte a < 0x80"
      using False unfolding Cons rune_size.simps by (auto split: if_splits)
    moreover have "tl (take ?m t) = take (?m - 1) (tl t)"
      by (cases t; cases ?m) simp_all
    ultimately show ?thesis
      unfolding n(1) Cons take_Suc_Cons rune_size.simps by simp
  next
    case True
    then consider "rune_size s = 0" | "byte a < 0x80" "rune_size s = 1"
      by (auto simp: Cons)
    then show ?thesis
      by cases (simp_all add: Cons)
  qed
qed simp

lemma rune_size_ascii: "byte c < 0x80 \<Longrightarrow> rune_size (c # s) = 1"
  by simp

lemma rune_size_single: "\<not> byte c < 0x80 \<Longrightarrow> rune_size [c] = 0"
  by auto

lemma rune_size_bad: "rune_size (c # s) = 0 \<Longrightarrow> \<not> byte c < 0x80"
  by auto

declare rune_size.simps(2) [simp del]

lemma runes_cases: "r \<in> set (runes s) \<Longrightarrow> 0 < rune_size r \<and> rune_size r = length r \<or> (\<exists>c. r = [c] \<and> rune_size r = 0)"
proof (induction s rule: runes.induct)
  case (2 c s)
  let ?n = "rune_size (c # s)"
  from "2.prems" consider "r = take (max 1 ?n) (c # s)" | "r \<in> set (runes (drop (max 1 ?n) (c # s)))"
    by auto
  then show ?case
  proof cases
    case 1
    show ?thesis
    proof (cases "?n = 0")
      case True
      then show ?thesis
        using 1 rune_size_single [OF rune_size_bad [OF True]] by simp
    next
      case False
      then have "r = take ?n (c # s)"
        using 1 by (simp add: max_def)
      then show ?thesis
        using False rune_size_take [of "c # s"] rune_size_le [of "c # s"] by simp
    qed
  next
    case 2
    then show ?thesis
      by (rule "2.IH")
  qed
qed simp

lemma rune_bytes_high:
  assumes "rune_size r = length r" "1 < length r" "c \<in> set r"
  shows "0x80 \<le> byte c"
proof -
  obtain a s where r: "r = a # s" "s \<noteq> []"
    using assms(2) by (cases r) auto
  then have a: "0x80 \<le> byte a" "more_bytes a = length s" "second_ok a (hd s)"
    "list_all continues (take (more_bytes a - 1) (tl s))"
    using assms(1) by (auto simp: rune_size.simps split: if_splits)
  then have "list_all continues (tl s)"
    by simp
  moreover have "0x80 \<le> byte (hd s)"
    using a(3) by (auto simp: second_ok_def split: if_splits)
  moreover have "set r = {a, hd s} \<union> set (tl s)"
    using r by (cases s) auto
  ultimately show ?thesis
    using assms(3) a(1) by (auto simp: list_all_iff continues_def)
qed

lemma concat_runes: "concat (runes s) = s"
  by (induction s rule: runes.induct) auto

lemma runes_ascii: "is_ascii s \<Longrightarrow> runes s = map (\<lambda>c. [c]) s"
  by (induction s) (auto simp: is_ascii_def rune_size_ascii)

lemma to_valid_ascii: "is_ascii s \<Longrightarrow> to_valid s = s"
proof -
  assume a: "is_ascii s"
  then have "map valid_rune (runes s) = map (\<lambda>c. [c]) s"
    by (auto simp: runes_ascii valid_rune_def is_ascii_iff rune_size_ascii)
  then show ?thesis
    by (simp add: to_valid_def)
qed

section \<open>Writing\<close>

datatype json = JStr string | JBool bool | JInt int | JArr "json list" | JObj "(string \<times> json) list"

definition json_char :: "char \<Rightarrow> string" where
  "json_char c =
     (if c = CHR 0x22 \<or> c = CHR 0x5C then [CHR 0x5C, c]
      else if byte c = 8 then [CHR 0x5C, CHR ''b'']
      else if byte c = 12 then [CHR 0x5C, CHR ''f'']
      else if byte c = 10 then [CHR 0x5C, CHR ''n'']
      else if byte c = 13 then [CHR 0x5C, CHR ''r'']
      else if byte c = 9 then [CHR 0x5C, CHR ''t'']
      else if byte c < 32 \<or> c = CHR ''<'' \<or> c = CHR ''>'' \<or> c = CHR ''&''
      then [CHR 0x5C] @ ''u00'' @ [hex_char (byte c div 16), hex_char (byte c mod 16)]
      else [c])"

definition quote_rune :: "string \<Rightarrow> string" where
  "quote_rune r =
     (if rune_size r = 0 then [CHR 0x5C] @ ''ufffd''
      else if rune_size r = 1 then json_char (hd r)
      else if r = encode_rune 0x2028 then [CHR 0x5C] @ ''u2028''
      else if r = encode_rune 0x2029 then [CHR 0x5C] @ ''u2029''
      else r)"

definition json_quote :: "string \<Rightarrow> string" where
  "json_quote s = [CHR 0x22] @ concat (map quote_rune (runes s)) @ [CHR 0x22]"

fun marshal :: "json \<Rightarrow> string" where
  "marshal (JStr s) = json_quote s"
| "marshal (JBool b) = (if b then ''true'' else ''false'')"
| "marshal (JInt i) = show_int i"
| "marshal (JArr vs) = ''['' @ join '','' (map marshal vs) @ '']''"
| "marshal (JObj fs) = ''{'' @ join '','' (map (\<lambda>f. json_quote (fst f) @ '':'' @ marshal (snd f)) fs) @ ''}''"

section \<open>Reading strings\<close>

text \<open>\<open>getu4\<close>: the code of an escape at the front.\<close>

definition read_u4 :: "string \<Rightarrow> nat option" where
  "read_u4 s =
     (case s of
        b # u # p # q # x # y # t \<Rightarrow>
          if b = CHR 0x5C \<and> u = CHR ''u'' \<and> list_all is_hex [p, q, x, y] then Some (hexs_val [p, q, x, y]) else None
      | _ \<Rightarrow> None)"

text \<open>\<open>utf16.DecodeRune\<close> of an escape and the one that follows it.\<close>

definition surrogate_pair :: "nat \<Rightarrow> string \<Rightarrow> nat option" where
  "surrogate_pair r s =
     (case read_u4 s of
        None \<Rightarrow> None
      | Some r2 \<Rightarrow>
          if 0xD800 \<le> r \<and> r < 0xDC00 \<and> 0xDC00 \<le> r2 \<and> r2 < 0xE000
          then Some (0x10000 + (r - 0xD800) * 1024 + (r2 - 0xDC00)) else None)"

definition unescape :: "char \<Rightarrow> char option" where
  "unescape e =
     (if e = CHR 0x22 \<or> e = CHR 0x5C \<or> e = CHR ''/'' then Some e
      else if e = CHR ''b'' then Some (char_of (8 :: nat))
      else if e = CHR ''f'' then Some (char_of (12 :: nat))
      else if e = CHR ''n'' then Some (char_of (10 :: nat))
      else if e = CHR ''r'' then Some (char_of (13 :: nat))
      else if e = CHR ''t'' then Some (char_of (9 :: nat))
      else None)"

definition put_front :: "string \<Rightarrow> (string \<times> string) option \<Rightarrow> (string \<times> string) option" where
  "put_front p r = map_option (\<lambda>(t, rest). (p @ t, rest)) r"

lemma put_front_simps [simp]: "put_front p None = None" "put_front p (Some (t, rest)) = Some (p @ t, rest)"
  by (simp_all add: put_front_def)

lemma put_front_Some: "put_front p r = Some (t, rest) \<longleftrightarrow> (\<exists>u. r = Some (u, rest) \<and> t = p @ u)"
  by (auto simp: put_front_def)

text \<open>The rest of a string literal after its opening quote, and what follows it.\<close>

function string_body :: "string \<Rightarrow> (string \<times> string) option" where
  "string_body [] = None"
| "string_body (c # s) =
     (if c = CHR 0x22 then Some ([], s)
      else if c = CHR 0x5C then
        (case s of
           [] \<Rightarrow> None
         | e # t \<Rightarrow>
             if e = CHR ''u'' then
               (case read_u4 (c # s) of
                  None \<Rightarrow> None
                | Some r \<Rightarrow>
                    (case surrogate_pair r (drop 6 (c # s)) of
                       Some d \<Rightarrow> put_front (encode_rune d) (string_body (drop 12 (c # s)))
                     | None \<Rightarrow> put_front (encode_rune r) (string_body (drop 6 (c # s)))))
             else
               (case unescape e of
                  None \<Rightarrow> None
                | Some d \<Rightarrow> put_front [d] (string_body t)))
      else if byte c < 32 then None
      else if rune_size (c # s) = 0 then put_front replacement (string_body s)
      else put_front (take (rune_size (c # s)) (c # s)) (string_body (drop (rune_size (c # s)) (c # s))))"
  by pat_completeness auto
termination by (relation "measure length") auto

lemma string_body_shorter: "string_body s = Some (t, rest) \<Longrightarrow> length rest < length s"
proof (induction s arbitrary: t rule: string_body.induct)
  case (2 c s)
  show ?case
    using "2.prems" "2.IH"
    by (auto simp: put_front_Some split: if_splits list.splits option.splits) (meson le_less_trans diff_le_self less_SucI less_le_trans)+
qed simp

declare string_body.simps(2) [simp del]

lemma string_body_escape:
  "unescape e = Some d \<Longrightarrow> string_body (CHR 0x5C # e # t) = put_front [d] (string_body t)"
  by (subst string_body.simps) (auto simp: unescape_def)

lemma read_u4_escape:
  assumes "is_hex p" "is_hex q" "is_hex x" "is_hex y"
  shows "read_u4 (CHR 0x5C # CHR ''u'' # p # q # x # y # t) = Some (hexs_val [p, q, x, y])"
  using assms by (simp add: read_u4_def)

lemma string_body_u4:
  assumes "list_all is_hex [p, q, x, y]" "\<not> (0xD800 \<le> hexs_val [p, q, x, y] \<and> hexs_val [p, q, x, y] < 0xDC00)"
  shows "string_body (CHR 0x5C # CHR ''u'' # p # q # x # y # t) = put_front (encode_rune (hexs_val [p, q, x, y])) (string_body t)"
proof -
  have "surrogate_pair (hexs_val [p, q, x, y]) t = None"
    using assms(2) by (auto simp: surrogate_pair_def split: option.split)
  then show ?thesis
    using assms(1) by (subst string_body.simps) (simp add: read_u4_escape numeral_eq_Suc)
qed

lemma string_body_char: "byte c < 0x80 \<Longrightarrow> string_body (json_char c @ t) = put_front [c] (string_body t)"
proof -
  assume ascii: "byte c < 0x80"
  have b: "char_of (byte c) = c"
    by (simp add: byte_def)
  have n: "CHR 0x5C \<noteq> CHR 0x22"
    by simp
  let ?u = "byte c < 32 \<or> c = CHR ''<'' \<or> c = CHR ''>'' \<or> c = CHR ''&''"
  consider (q) "c = CHR 0x22 \<or> c = CHR 0x5C" | (e) "c \<noteq> CHR 0x22" "c \<noteq> CHR 0x5C" "byte c \<in> {8, 9, 10, 12, 13}"
    | (u) "c \<noteq> CHR 0x22" "c \<noteq> CHR 0x5C" "byte c \<notin> {8, 9, 10, 12, 13}" ?u
    | (p) "c \<noteq> CHR 0x22" "c \<noteq> CHR 0x5C" "byte c \<notin> {8, 9, 10, 12, 13}" "\<not> ?u"
    by blast
  then show ?thesis
  proof cases
    case q
    then have "unescape c = Some c" "json_char c = [CHR 0x5C, c]"
      by (auto simp: unescape_def json_char_def)
    then show ?thesis
      by (simp add: string_body_escape)
  next
    case e
    have x: "unescape (CHR ''b'') = Some (char_of (8 :: nat))" "unescape (CHR ''f'') = Some (char_of (12 :: nat))"
      "unescape (CHR ''n'') = Some (char_of (10 :: nat))" "unescape (CHR ''r'') = Some (char_of (13 :: nat))"
      "unescape (CHR ''t'') = Some (char_of (9 :: nat))"
      by (simp_all add: unescape_def)
    have "\<exists>x. unescape x = Some (char_of (byte c)) \<and> json_char c = [CHR 0x5C, x]"
      using e x by (auto simp: json_char_def simp del: b)
    then obtain x where "unescape x = Some c" "json_char c = [CHR 0x5C, x]"
      unfolding b by blast
    then show ?thesis
      by (simp add: string_body_escape)
  next
    case u
    let ?h = "hex_char (byte c div 16)" and ?l = "hex_char (byte c mod 16)"
    have h: "is_hex ?h" "is_hex ?l" "hex_val ?h = byte c div 16" "hex_val ?l = byte c mod 16"
      using ascii by (simp_all add: hex_char_props)
    have z: "is_hex (CHR ''0'')" "hex_val (CHR ''0'') = 0"
      by code_simp+
    have v: "hexs_val [CHR ''0'', CHR ''0'', ?h, ?l] = byte c"
      using h z by (simp add: hexs_val_def)
    have "string_body (CHR 0x5C # CHR ''u'' # CHR ''0'' # CHR ''0'' # ?h # ?l # t) = put_front (encode_rune (byte c)) (string_body t)"
      using string_body_u4 [of "CHR ''0''" "CHR ''0''" ?h ?l t] ascii h z unfolding v by simp
    then show ?thesis
      using u ascii b by (simp add: json_char_def encode_rune_def)
  next
    case p
    then have "json_char c = [c]"
      by (simp add: json_char_def)
    then show ?thesis
      using p ascii by (simp add: string_body.simps(2) rune_size_ascii)
  qed
qed

lemma string_body_fixed:
  "string_body ([CHR 0x5C] @ ''ufffd'' @ t) = put_front replacement (string_body t)"
  "string_body ([CHR 0x5C] @ ''u2028'' @ t) = put_front (encode_rune 0x2028) (string_body t)"
  "string_body ([CHR 0x5C] @ ''u2029'' @ t) = put_front (encode_rune 0x2029) (string_body t)"
proof -
  have h: "list_all is_hex ''fffd'' \<and> list_all is_hex ''2028'' \<and> list_all is_hex ''2029''"
    by code_simp
  have v: "hexs_val ''fffd'' = 0xFFFD" "hexs_val ''2028'' = 0x2028" "hexs_val ''2029'' = 0x2029"
    by code_simp+
  have r: "encode_rune 0xFFFD = replacement"
    by code_simp
  show "string_body ([CHR 0x5C] @ ''ufffd'' @ t) = put_front replacement (string_body t)"
    using string_body_u4 [of "CHR ''f''" "CHR ''f''" "CHR ''f''" "CHR ''d''" t] h unfolding v r
    by (simp)
  show "string_body ([CHR 0x5C] @ ''u2028'' @ t) = put_front (encode_rune 0x2028) (string_body t)"
    using string_body_u4 [of "CHR ''2''" "CHR ''0''" "CHR ''2''" "CHR ''8''" t] h unfolding v
    by (simp)
  show "string_body ([CHR 0x5C] @ ''u2029'' @ t) = put_front (encode_rune 0x2029) (string_body t)"
    using string_body_u4 [of "CHR ''2''" "CHR ''0''" "CHR ''2''" "CHR ''9''" t] h unfolding v
    by (simp)
qed

lemma string_body_rune:
  assumes "r \<in> set (runes s)"
  shows "string_body (quote_rune r @ t) = put_front (valid_rune r) (string_body t)"
proof (cases "rune_size r \<le> 1")
  case True
  show ?thesis
  proof (cases "rune_size r = 0")
    case True
    then show ?thesis
      using string_body_fixed(1) [of t] by (simp add: quote_rune_def valid_rune_def)
  next
    case False
    then have "rune_size r = 1" "length r = 1"
      using True runes_cases [OF assms] by linarith+
    then obtain c where c: "r = [c]"
      by (metis One_nat_def length_0_conv length_Suc_conv)
    then have "byte c < 0x80"
      using \<open>rune_size r = 1\<close> rune_size_single by force
    then show ?thesis
      using string_body_char [of c t] \<open>rune_size r = 1\<close> by (simp add: c quote_rune_def valid_rune_def)
  qed
next
  case False
  then have n: "rune_size r = length r" "1 < length r"
    using runes_cases [OF assms] by auto
  then obtain c q where r: "r = c # q"
    by (cases r) auto
  have c: "\<not> byte c < 0x80"
    using n rune_size_ascii [of c q] by (auto simp: r)
  then have ne: "c \<noteq> CHR 0x22" "c \<noteq> CHR 0x5C" "\<not> byte c < 32"
    by (auto simp: byte_def)
  have "rune_size (r @ t) = length r"
    using n by (intro rune_size_append) linarith+
  then have "string_body (r @ t) = put_front r (string_body t)"
    using ne n(2) unfolding r append_Cons string_body.simps by simp
  moreover have "rune_size r \<noteq> 0" "rune_size r \<noteq> 1"
    using n by linarith+
  ultimately show ?thesis
    using string_body_fixed(2,3) [of t] by (simp add: quote_rune_def valid_rune_def)
qed

lemma string_body_runes:
  "set rs \<subseteq> set (runes s) \<Longrightarrow>
    string_body (concat (map quote_rune rs) @ CHR 0x22 # rest) = Some (concat (map valid_rune rs), rest)"
proof (induction rs)
  case Nil
  then show ?case
    by (simp add: string_body.simps)
next
  case (Cons r rs)
  then have "r \<in> set (runes s)" "set rs \<subseteq> set (runes s)"
    by simp_all
  then show ?case
    using Cons.IH string_body_rune by simp
qed

text \<open>Reading a quoted string gives it back, with its bytes that are not UTF-8 replaced.\<close>

lemma string_body_quote: "string_body (tl (json_quote s) @ rest) = Some (to_valid s, rest)"
  using string_body_runes [OF order_refl, of s rest] by (simp add: json_quote_def to_valid_def)

text \<open>No quoted string holds a character that ends a script or a line.\<close>

lemma json_char_plain:
  "c \<in> set (json_char d) \<Longrightarrow> 32 \<le> byte c \<and> c \<noteq> CHR ''<''"
proof -
  assume c: "c \<in> set (json_char d)"
  have h: "32 \<le> byte (hex_char n) \<and> hex_char n \<noteq> CHR ''<''" if "n < 16" for n
  proof -
    have "is_hex (hex_char n)"
      using that by (rule hex_char_props)
    then show ?thesis
      by (auto simp: is_hex_def is_digit_def byte_def)
  qed
  have b: "32 \<le> byte (CHR 0x22)" "32 \<le> byte (CHR 0x5C)" "32 \<le> byte (CHR ''b'')" "32 \<le> byte (CHR ''f'')"
    "32 \<le> byte (CHR ''n'')" "32 \<le> byte (CHR ''r'')" "32 \<le> byte (CHR ''t'')" "32 \<le> byte (CHR ''u'')" "32 \<le> byte (CHR ''0'')"
    by (simp_all add: byte_def)
  have d: "byte d div 16 < 16" "byte d mod 16 < 16"
    using byte_less [of d] by (simp_all add: less_mult_imp_div_less)
  show ?thesis
    using c b h [OF d(1)] h [OF d(2)] by (auto simp: json_char_def split: if_splits)
qed

lemma json_quote_plain: "c \<in> set (json_quote s) \<Longrightarrow> 32 \<le> byte c \<and> c \<noteq> CHR ''<''"
proof -
  have f: "\<forall>c \<in> set (CHR 0x5C # ''ufffdu2028u2029''). 32 \<le> byte c \<and> c \<noteq> CHR ''<''"
    by code_simp
  have "32 \<le> byte c \<and> c \<noteq> CHR ''<''" if "r \<in> set (runes s)" "c \<in> set (quote_rune r)" for r
  proof (cases "rune_size r \<le> 1")
    case True
    then have "c \<in> set (CHR 0x5C # ''ufffdu2028u2029'') \<or> c \<in> set (json_char (hd r))"
      using that(2) by (auto simp: quote_rune_def split: if_splits)
    then show ?thesis
      using f json_char_plain by blast
  next
    case False
    then have n: "rune_size r = length r" "1 < length r"
      using runes_cases [OF that(1)] by auto
    have "c \<in> set (CHR 0x5C # ''ufffdu2028u2029'') \<or> c \<in> set r"
      using that(2) False by (auto simp: quote_rune_def split: if_splits)
    moreover have "byte (CHR ''<'') < 0x80"
      by (simp add: byte_def)
    ultimately show ?thesis
      using f rune_bytes_high [OF n, of c] by force
  qed
  moreover have "32 \<le> byte (CHR 0x22) \<and> CHR 0x22 \<noteq> CHR ''<''"
    by (simp add: byte_def)
  ultimately show "c \<in> set (json_quote s) \<Longrightarrow> 32 \<le> byte c \<and> c \<noteq> CHR ''<''"
    by (auto simp: json_quote_def)
qed

section \<open>The scanner\<close>

datatype jvalue =
    VNull
  | VBool bool
  | VNum string
  | VStr string
  | VArr "jvalue list"
  | VObj "(string \<times> jvalue) list"

text \<open>A token is a sign or a value without parts; a number keeps its text.\<close>

datatype token = Sign char | Lit jvalue

definition some_digits :: "string \<Rightarrow> (string \<times> string) option" where
  "some_digits s = (if takeWhile is_digit s = [] then None else Some (takeWhile is_digit s, dropWhile is_digit s))"

definition number_int :: "string \<Rightarrow> (string \<times> string) option" where
  "number_int s = (if has_prefix s ''0'' then Some (''0'', tl s) else some_digits s)"

definition number_frac :: "string \<Rightarrow> (string \<times> string) option" where
  "number_frac s = (if has_prefix s ''.'' then put_front ''.'' (some_digits (tl s)) else Some ([], s))"

definition number_exp :: "string \<Rightarrow> (string \<times> string) option" where
  "number_exp s =
     (if has_prefix s ''e'' \<or> has_prefix s ''E'' then
        (if has_prefix (tl s) ''+'' \<or> has_prefix (tl s) ''-'' then put_front (take 2 s) (some_digits (drop 2 s))
         else put_front (take 1 s) (some_digits (tl s)))
      else Some ([], s))"

definition read_number :: "string \<Rightarrow> (string \<times> string) option" where
  "read_number s =
     (case number_int (if has_prefix s ''-'' then tl s else s) of
        None \<Rightarrow> None
      | Some (i, s1) \<Rightarrow>
          put_front ((if has_prefix s ''-'' then ''-'' else []) @ i)
            (case number_frac s1 of
               None \<Rightarrow> None
             | Some (f, s2) \<Rightarrow> put_front f (number_exp s2)))"

definition is_json_space :: "char \<Rightarrow> bool" where
  "is_json_space c \<longleftrightarrow> c = CHR '' '' \<or> c = CHR 0x09 \<or> c = CHR 0x0D \<or> c = CHR 0x0A"

definition read_word :: "string \<Rightarrow> jvalue \<Rightarrow> string \<Rightarrow> (token \<times> string) option" where
  "read_word w v s = (if has_prefix s w then Some (Lit v, drop (length w) s) else None)"

definition next_token :: "string \<Rightarrow> (token \<times> string) option" where
  "next_token s0 =
     (case dropWhile is_json_space s0 of
        [] \<Rightarrow> None
      | c # s \<Rightarrow>
          if c \<in> set ''{}[],:'' then Some (Sign c, s)
          else if c = CHR 0x22 then map_option (\<lambda>(x, rest). (Lit (VStr x), rest)) (string_body s)
          else if c = CHR ''t'' then read_word ''true'' (VBool True) (c # s)
          else if c = CHR ''f'' then read_word ''false'' (VBool False) (c # s)
          else if c = CHR ''n'' then read_word ''null'' VNull (c # s)
          else map_option (\<lambda>(x, rest). (Lit (VNum x), rest)) (read_number (c # s)))"

text \<open>
  The machine: what it waits for, and the open arrays and objects with the values read so far; in an object a
  key may wait for its value. At most 10000 may be open.
\<close>

datatype mode = Want | WantOrEnd | Key | KeyOrEnd | Colon string | Have jvalue

datatype frame = InArr "jvalue list" | InObj "(string \<times> jvalue) list" | InKey string "(string \<times> jvalue) list"

definition max_nesting :: nat where
  "max_nesting = 10000"

fun after_value :: "char \<Rightarrow> jvalue \<Rightarrow> frame list \<Rightarrow> (mode \<times> frame list) option" where
  "after_value c v (InArr vs # st) =
     (if c = CHR '','' then Some (Want, InArr (vs @ [v]) # st)
      else if c = CHR '']'' then Some (Have (VArr (vs @ [v])), st) else None)"
| "after_value c v (InKey k fs # st) =
     (if c = CHR '','' then Some (Key, InObj (fs @ [(k, v)]) # st)
      else if c = CHR ''}'' then Some (Have (VObj (fs @ [(k, v)])), st) else None)"
| "after_value c v st = None"

fun json_step :: "token \<Rightarrow> mode \<Rightarrow> frame list \<Rightarrow> (mode \<times> frame list) option" where
  "json_step (Lit v) m st =
     (if m = Want \<or> m = WantOrEnd then Some (Have v, st)
      else case (v, m) of
        (VStr k, Key) \<Rightarrow> Some (Colon k, st)
      | (VStr k, KeyOrEnd) \<Rightarrow> Some (Colon k, st)
      | _ \<Rightarrow> None)"
| "json_step (Sign c) m st =
     (if (m = Want \<or> m = WantOrEnd) \<and> c = CHR ''['' then
        (if length st < max_nesting then Some (WantOrEnd, InArr [] # st) else None)
      else if (m = Want \<or> m = WantOrEnd) \<and> c = CHR ''{'' then
        (if length st < max_nesting then Some (KeyOrEnd, InObj [] # st) else None)
      else case (m, st) of
        (WantOrEnd, InArr vs # st') \<Rightarrow> if c = CHR '']'' then Some (Have (VArr vs), st') else None
      | (KeyOrEnd, InObj fs # st') \<Rightarrow> if c = CHR ''}'' then Some (Have (VObj fs), st') else None
      | (Colon k, InObj fs # st') \<Rightarrow> if c = CHR '':'' then Some (Want, InKey k fs # st') else None
      | (Have v, st') \<Rightarrow> after_value c v st'
      | _ \<Rightarrow> None)"

lemma some_digits_shorter: "some_digits s = Some (d, rest) \<Longrightarrow> length rest < length s"
proof -
  assume d: "some_digits s = Some (d, rest)"
  have "length (takeWhile is_digit s) + length (dropWhile is_digit s) = length s"
    by (metis length_append takeWhile_dropWhile_id)
  then show ?thesis
    using d by (cases "takeWhile is_digit s") (auto simp: some_digits_def)
qed

lemma has_prefix_single: "has_prefix s [c] \<longleftrightarrow> (\<exists>t. s = c # t)"
  by (auto simp: has_prefix_iff)

lemma read_number_shorter: "read_number s = Some (x, rest) \<Longrightarrow> length rest < length s"
proof -
  assume "read_number s = Some (x, rest)"
  then obtain i s1 f s2 e where p: "number_int (if has_prefix s ''-'' then tl s else s) = Some (i, s1)"
    "number_frac s1 = Some (f, s2)" "number_exp s2 = Some (e, rest)"
    by (auto simp: read_number_def put_front_Some split: option.splits)
  have int: "length v < length u" if "number_int u = Some (j, v)" for u j v
    using that by (auto simp: number_int_def has_prefix_single split: if_splits dest!: some_digits_shorter)
  have "length rest \<le> length s2"
    using p(3) by (auto simp: number_exp_def put_front_Some split: if_splits dest!: some_digits_shorter)
  moreover have "length s2 \<le> length s1"
    using p(2) by (auto simp: number_frac_def put_front_Some split: if_splits dest!: some_digits_shorter)
  moreover have "length s1 < length (if has_prefix s ''-'' then tl s else s)"
    using int [OF p(1)] .
  moreover have "length (if has_prefix s ''-'' then tl s else s) \<le> length s"
    by simp
  ultimately show ?thesis
    by linarith
qed

lemma next_token_shorter: "next_token s = Some (t, rest) \<Longrightarrow> length rest < length s"
proof -
  assume n: "next_token s = Some (t, rest)"
  have le: "length (dropWhile is_json_space s) \<le> length s"
    by (rule length_dropWhile_le)
  obtain c u where c: "dropWhile is_json_space s = c # u"
    using n by (auto simp: next_token_def split: list.splits)
  have w: "length rest < Suc (length u)" if "read_word (a # w) v (b # u) = Some (t, rest)" for a b w v
    using that by (auto simp: read_word_def split: if_splits)
  have "length rest < length (c # u)"
    using n by (auto simp: next_token_def c split: if_splits dest!: string_body_shorter read_number_shorter w)
  then show ?thesis
    using le by (simp add: c)
qed

function read_json :: "mode \<Rightarrow> frame list \<Rightarrow> string \<Rightarrow> (jvalue \<times> string) option" where
  "read_json m st s =
     (case (m, st) of
        (Have v, []) \<Rightarrow> Some (v, s)
      | _ \<Rightarrow>
          (case next_token s of
             None \<Rightarrow> None
           | Some (t, rest) \<Rightarrow>
               (case json_step t m st of
                  None \<Rightarrow> None
                | Some (m1, st1) \<Rightarrow> read_json m1 st1 rest)))"
  by pat_completeness auto
termination
  by (relation "measure (\<lambda>(m, st, s). length s)") (auto dest: next_token_shorter)

declare read_json.simps [simp del]

section \<open>Reading what was written\<close>

fun value_of :: "json \<Rightarrow> jvalue" where
  "value_of (JStr s) = VStr (to_valid s)"
| "value_of (JBool b) = VBool b"
| "value_of (JInt i) = VNum (show_int i)"
| "value_of (JArr vs) = VArr (map value_of vs)"
| "value_of (JObj fs) = VObj (map (\<lambda>f. (to_valid (fst f), value_of (snd f))) fs)"

fun json_fits :: "nat \<Rightarrow> json \<Rightarrow> bool" where
  "json_fits n (JArr vs) \<longleftrightarrow> n < max_nesting \<and> (\<forall>v \<in> set vs. json_fits (Suc n) v)"
| "json_fits n (JObj fs) \<longleftrightarrow> n < max_nesting \<and> (\<forall>f \<in> set fs. json_fits (Suc n) (snd f))"
| "json_fits n v \<longleftrightarrow> True"

text \<open>A text that does not continue a number.\<close>

definition ends_number :: "string \<Rightarrow> bool" where
  "ends_number s \<longleftrightarrow> (\<forall>c t. s = c # t \<longrightarrow> \<not> is_digit c \<and> c \<noteq> CHR ''.'' \<and> c \<noteq> CHR ''e'' \<and> c \<noteq> CHR ''E'')"

lemma ends_number_sign [simp]: "ends_number (CHR '','' # s)" "ends_number (CHR '']'' # s)" "ends_number (CHR ''}'' # s)" "ends_number []"
  by (auto simp: ends_number_def is_digit_def byte_def)

lemma takeWhile_digits:
  assumes "list_all is_digit ds" "ends_number rest"
  shows "takeWhile is_digit (ds @ rest) = ds" "dropWhile is_digit (ds @ rest) = rest"
proof -
  have "takeWhile is_digit rest = []" "dropWhile is_digit rest = rest"
    using assms(2) by (cases rest; auto simp: ends_number_def)+
  then show "takeWhile is_digit (ds @ rest) = ds" "dropWhile is_digit (ds @ rest) = rest"
    using assms(1) by (simp_all add: takeWhile_append dropWhile_append list_all_iff)
qed

lemma number_int_show_nat:
  assumes "ends_number rest"
  shows "number_int (show_nat n @ rest) = Some (show_nat n, rest)"
proof (cases "has_prefix (show_nat n @ rest) ''0''")
  case True
  then have "hd (show_nat n) = CHR ''0''"
    by (cases "show_nat n") (auto simp: has_prefix_single)
  then have "n = 0"
    by (rule show_nat_hd_zero)
  then have "show_nat n = ''0''"
    by (simp add: show_nat.simps digit_char_0)
  then show ?thesis
    by (simp add: number_int_def has_prefix_single)
next
  case False
  then show ?thesis
    using takeWhile_digits [OF show_nat_digits assms] by (simp add: number_int_def some_digits_def)
qed

lemma read_number_show_int:
  assumes "ends_number rest"
  shows "read_number (show_int i @ rest) = Some (show_int i, rest)"
proof -
  have e: "number_frac rest = Some ([], rest)" "number_exp rest = Some ([], rest)"
    using assms by (auto simp: number_frac_def number_exp_def has_prefix_single ends_number_def)
  have "\<not> has_prefix (show_nat n @ rest) ''-''" for n
    using show_nat_digits [of n] by (cases "show_nat n") (auto simp: has_prefix_single is_digit_def byte_def)
  then show ?thesis
    using e by (auto simp: show_int_def read_number_def number_int_show_nat [OF assms] has_prefix_single)
qed

lemma next_token_quote: "next_token (json_quote s @ rest) = Some (Lit (VStr (to_valid s)), rest)"
proof -
  have q: "json_quote s = CHR 0x22 # tl (json_quote s)"
    by (simp add: json_quote_def)
  have "next_token (CHR 0x22 # tl (json_quote s) @ rest) = Some (Lit (VStr (to_valid s)), rest)"
    by (simp add: next_token_def is_json_space_def string_body_quote)
  then show ?thesis
    by (subst q) simp
qed

lemma next_token_bool: "next_token (marshal (JBool b) @ rest) = Some (Lit (VBool b), rest)"
  by (simp add: next_token_def is_json_space_def read_word_def has_prefix_def)

lemma show_int_hd: "\<exists>c t. show_int i = c # t \<and> (is_digit c \<or> c = CHR ''-'')"
proof (cases "i < 0")
  case False
  then show ?thesis
    using show_nat_digits [of "nat i"] show_nat_ne [of "nat i"] by (cases "show_nat (nat i)") (auto simp: show_int_def)
qed (simp add: show_int_def)

lemma next_token_int: "ends_number rest \<Longrightarrow> next_token (show_int i @ rest) = Some (Lit (VNum (show_int i)), rest)"
proof -
  assume e: "ends_number rest"
  obtain c t where c: "show_int i = c # t" "is_digit c \<or> c = CHR ''-''"
    using show_int_hd by blast
  have "\<not> is_digit d" if "d \<in> set ''{}[],:tfn '' \<union> {CHR 0x22, CHR 0x09, CHR 0x0D, CHR 0x0A}" for d
    using that by (auto simp: is_digit_def byte_def)
  then have n: "c \<notin> set ''{}[],:tfn '' \<union> {CHR 0x22, CHR 0x09, CHR 0x0D, CHR 0x0A}"
    using c(2) by auto
  have r: "read_number (c # t @ rest) = Some (c # t, rest)"
    using read_number_show_int [OF e, of i] by (simp add: c(1))
  show ?thesis
    unfolding c(1) append_Cons next_token_def using n r by (simp add: is_json_space_def)
qed

lemma next_token_sign:
  "next_token (''{'' @ s) = Some (Sign CHR ''{'', s)" "next_token (''}'' @ s) = Some (Sign CHR ''}'', s)"
  "next_token (''['' @ s) = Some (Sign CHR ''['', s)" "next_token ('']'' @ s) = Some (Sign CHR '']'', s)"
  "next_token ('','' @ s) = Some (Sign CHR '','', s)" "next_token ('':'' @ s) = Some (Sign CHR '':'', s)"
  by (simp_all add: next_token_def is_json_space_def)

lemma read_json_token:
  assumes "next_token s = Some (t, rest)" "json_step t m st = Some (m1, st1)" "st \<noteq> [] \<or> (\<forall>v. m \<noteq> Have v)"
  shows "read_json m st s = read_json m1 st1 rest"
  using assms by (subst read_json.simps) (auto split: mode.splits list.splits)

lemma read_json_done [simp]: "read_json (Have v) [] s = Some (v, s)"
  by (subst read_json.simps) simp

definition wants :: "mode \<Rightarrow> bool" where
  "wants m \<longleftrightarrow> m = Want \<or> m = WantOrEnd"

lemma read_json_lit:
  assumes "next_token s = Some (Lit v, rest)" "wants m"
  shows "read_json m st s = read_json (Have v) st rest"
  by (rule read_json_token [OF assms(1)]) (use assms(2) in \<open>auto simp: wants_def\<close>)

text \<open>A value reads back whatever is open around it; the parts of an array or object one by one.\<close>

definition value_reads :: "json \<Rightarrow> bool" where
  "value_reads v \<longleftrightarrow>
     (\<forall>m st rest. wants m \<longrightarrow> json_fits (length st) v \<longrightarrow> ends_number rest \<longrightarrow>
        read_json m st (marshal v @ rest) = read_json (Have (value_of v)) st rest)"

lemma value_readsD:
  "value_reads v \<Longrightarrow> wants m \<Longrightarrow> json_fits (length st) v \<Longrightarrow> ends_number rest \<Longrightarrow>
    read_json m st (marshal v @ rest) = read_json (Have (value_of v)) st rest"
  by (simp add: value_reads_def)

lemma read_elements:
  assumes "vs \<noteq> []" "\<forall>v \<in> set vs. value_reads v" "\<forall>v \<in> set vs. json_fits (Suc (length st)) v" "wants m"
  shows "read_json m (InArr ws # st) (join '','' (map marshal vs) @ '']'' @ rest) =
    read_json (Have (VArr (ws @ map value_of vs))) st rest"
  using assms
proof (induction vs arbitrary: ws m rule: list_nonempty_induct)
  case (single v)
  have "read_json m (InArr ws # st) (marshal v @ '']'' @ rest) = read_json (Have (value_of v)) (InArr ws # st) ('']'' @ rest)"
    using single by (intro value_readsD) simp_all
  also have "\<dots> = read_json (Have (VArr (ws @ [value_of v]))) st rest"
    by (rule read_json_token [OF next_token_sign(4)]) simp_all
  finally show ?case
    by simp
next
  case (cons v vs)
  have "read_json m (InArr ws # st) (marshal v @ '','' @ join '','' (map marshal vs) @ '']'' @ rest) =
      read_json (Have (value_of v)) (InArr ws # st) ('','' @ join '','' (map marshal vs) @ '']'' @ rest)"
    using cons.prems by (intro value_readsD) simp_all
  also have "\<dots> = read_json Want (InArr (ws @ [value_of v]) # st) (join '','' (map marshal vs) @ '']'' @ rest)"
    by (rule read_json_token [OF next_token_sign(5)]) simp_all
  also have "\<dots> = read_json (Have (VArr ((ws @ [value_of v]) @ map value_of vs))) st rest"
    using cons.prems by (intro cons.IH) (simp_all add: wants_def)
  finally show ?case
    using cons.hyps by (cases vs) simp_all
qed

definition marshal_field :: "string \<times> json \<Rightarrow> string" where
  "marshal_field f = json_quote (fst f) @ '':'' @ marshal (snd f)"

lemma read_field:
  assumes "value_reads (snd f)" "json_fits (Suc (length st)) (snd f)" "m = Key \<or> m = KeyOrEnd" "ends_number rest"
  shows "read_json m (InObj gs # st) (marshal_field f @ rest) =
    read_json (Have (value_of (snd f))) (InKey (to_valid (fst f)) gs # st) rest"
proof -
  have "read_json m (InObj gs # st) (json_quote (fst f) @ '':'' @ marshal (snd f) @ rest) =
      read_json (Colon (to_valid (fst f))) (InObj gs # st) ('':'' @ marshal (snd f) @ rest)"
    by (rule read_json_token [OF next_token_quote]) (use assms(3) in auto)
  also have "\<dots> = read_json Want (InKey (to_valid (fst f)) gs # st) (marshal (snd f) @ rest)"
    by (rule read_json_token [OF next_token_sign(6)]) simp_all
  also have "\<dots> = read_json (Have (value_of (snd f))) (InKey (to_valid (fst f)) gs # st) rest"
    using assms by (intro value_readsD) (simp_all add: wants_def)
  finally show ?thesis
    by (simp add: marshal_field_def)
qed

lemma read_fields:
  assumes "fs \<noteq> []" "\<forall>f \<in> set fs. value_reads (snd f)" "\<forall>f \<in> set fs. json_fits (Suc (length st)) (snd f)"
    and "m = Key \<or> m = KeyOrEnd"
  shows "read_json m (InObj gs # st) (join '','' (map marshal_field fs) @ ''}'' @ rest) =
    read_json (Have (VObj (gs @ map (\<lambda>f. (to_valid (fst f), value_of (snd f))) fs))) st rest"
  using assms
proof (induction fs arbitrary: gs m rule: list_nonempty_induct)
  case (single f)
  have "read_json m (InObj gs # st) (marshal_field f @ ''}'' @ rest) =
      read_json (Have (value_of (snd f))) (InKey (to_valid (fst f)) gs # st) (''}'' @ rest)"
    using single by (intro read_field) simp_all
  also have "\<dots> = read_json (Have (VObj (gs @ [(to_valid (fst f), value_of (snd f))]))) st rest"
    by (rule read_json_token [OF next_token_sign(2)]) simp_all
  finally show ?case
    by simp
next
  case (cons f fs)
  let ?x = "(to_valid (fst f), value_of (snd f))"
  have "read_json m (InObj gs # st) (marshal_field f @ '','' @ join '','' (map marshal_field fs) @ ''}'' @ rest) =
      read_json (Have (value_of (snd f))) (InKey (to_valid (fst f)) gs # st) ('','' @ join '','' (map marshal_field fs) @ ''}'' @ rest)"
    using cons.prems by (intro read_field) simp_all
  also have "\<dots> = read_json Key (InObj (gs @ [?x]) # st) (join '','' (map marshal_field fs) @ ''}'' @ rest)"
    by (rule read_json_token [OF next_token_sign(5)]) simp_all
  also have "\<dots> = read_json (Have (VObj ((gs @ [?x]) @ map (\<lambda>f. (to_valid (fst f), value_of (snd f))) fs))) st rest"
    using cons.prems by (intro cons.IH) simp_all
  finally show ?case
    using cons.hyps by (cases fs) simp_all
qed

lemma value_reads_all: "value_reads v"
proof (induction v rule: marshal.induct)
  case (1 s)
  show ?case
    by (simp add: value_reads_def read_json_lit [OF next_token_quote])
next
  case (2 b)
  show ?case
    using read_json_lit [OF next_token_bool, of _ _ b] by (simp add: value_reads_def)
next
  case (3 i)
  show ?case
    by (simp add: value_reads_def read_json_lit [OF next_token_int])
next
  case (4 vs)
  show ?case
    unfolding value_reads_def
  proof (intro allI impI)
    fix m and st :: "frame list" and rest
    assume m: "wants m" and fits: "json_fits (length st) (JArr vs)"
    let ?t = "join '','' (map marshal vs) @ '']'' @ rest"
    have "read_json m st (''['' @ ?t) = read_json WantOrEnd (InArr [] # st) ?t"
      by (rule read_json_token [OF next_token_sign(3)]) (use m fits in \<open>auto simp: wants_def\<close>)
    also have "\<dots> = read_json (Have (VArr (map value_of vs))) st rest"
    proof (cases "vs = []")
      case True
      then show ?thesis
        using read_json_token [OF next_token_sign(4), of WantOrEnd "InArr [] # st" "Have (VArr [])" st rest] by simp
    next
      case False
      then show ?thesis
        using read_elements [OF False, of st WantOrEnd "[]" rest] 4 fits by (simp add: wants_def)
    qed
    finally show "read_json m st (marshal (JArr vs) @ rest) = read_json (Have (value_of (JArr vs))) st rest"
      by simp
  qed
next
  case (5 fs)
  have field: "marshal (JObj fs) = ''{'' @ join '','' (map marshal_field fs) @ ''}''"
    by (simp add: marshal_field_def [abs_def])
  show ?case
    unfolding value_reads_def
  proof (intro allI impI)
    fix m and st :: "frame list" and rest
    assume m: "wants m" and fits: "json_fits (length st) (JObj fs)"
    let ?t = "join '','' (map marshal_field fs) @ ''}'' @ rest"
    have "read_json m st (''{'' @ ?t) = read_json KeyOrEnd (InObj [] # st) ?t"
      by (rule read_json_token [OF next_token_sign(1)]) (use m fits in \<open>auto simp: wants_def\<close>)
    also have "\<dots> = read_json (Have (value_of (JObj fs))) st rest"
    proof (cases "fs = []")
      case True
      then show ?thesis
        using read_json_token [OF next_token_sign(2), of KeyOrEnd "InObj [] # st" "Have (VObj [])" st rest] by simp
    next
      case False
      then show ?thesis
        using read_fields [OF False, of st KeyOrEnd "[]" rest] 5 fits by simp
    qed
    finally show "read_json m st (marshal (JObj fs) @ rest) = read_json (Have (value_of (JObj fs))) st rest"
      unfolding field by simp
  qed
qed

definition read_value :: "string \<Rightarrow> (jvalue \<times> string) option" where
  "read_value s = read_json Want [] s"

text \<open>What \<open>Marshal\<close> writes reads as the value it was given, up to bytes that are not UTF-8.\<close>

lemma read_marshal: "json_fits 0 v \<Longrightarrow> ends_number rest \<Longrightarrow> read_value (marshal v @ rest) = Some (value_of v, rest)"
  using value_readsD [OF value_reads_all, of Want "[]" v rest] by (simp add: read_value_def wants_def)

section \<open>Decoding into a struct\<close>

text \<open>
  A struct as the list of its fields under the names of their tags, with their values before and after; an absent
  slice is \<open>nil\<close>. A key selects the field of its name, or the first that differs from it in case only; Unicode
  folds two more runes to ASCII letters.
\<close>

datatype slot =
    IsString string
  | IsInt int
  | IsStrings "string list option"
  | IsStruct "(string \<times> slot) list"

definition fold_rune :: "string \<Rightarrow> string" where
  "fold_rune r =
     (if r = encode_rune 0x17F then ''S''
      else if r = encode_rune 0x212A then ''K''
      else map (\<lambda>c. if 97 \<le> byte c \<and> byte c \<le> 122 then char_of (byte c - 32) else c) r)"

definition fold_name :: "string \<Rightarrow> string" where
  "fold_name s = concat (map fold_rune (runes s))"

definition field_of :: "string \<Rightarrow> (string \<times> 'a) list \<Rightarrow> string option" where
  "field_of k fs =
     (if k \<in> fst ` set fs then Some k
      else map_option fst (find (\<lambda>f. fold_name (fst f) = fold_name k) fs))"

definition set_field :: "string \<Rightarrow> 'a \<Rightarrow> (string \<times> 'a) list \<Rightarrow> (string \<times> 'a) list" where
  "set_field k x fs = map (\<lambda>f. if fst f = k then (k, x) else f) fs"

definition get_field :: "string \<Rightarrow> (string \<times> 'a) list \<Rightarrow> 'a" where
  "get_field k fs = the (map_of fs k)"

definition assign_string :: "jvalue \<Rightarrow> string \<Rightarrow> string \<times> bool" where
  "assign_string v old = (case v of VNull \<Rightarrow> (old, True) | VStr s \<Rightarrow> (s, True) | _ \<Rightarrow> (old, False))"

fun assign_strings :: "jvalue list \<Rightarrow> string list \<Rightarrow> string list \<times> bool" where
  "assign_strings [] olds = ([], True)"
| "assign_strings (v # vs) olds =
     (case (assign_string v (case olds of [] \<Rightarrow> [] | x # xs \<Rightarrow> x), assign_strings vs (tl olds)) of
        ((s, ok), (ss, oks)) \<Rightarrow> (s # ss, ok \<and> oks))"

text \<open>A value of another type leaves what it was meant for as it is and is reported at the end.\<close>

fun assign :: "jvalue \<Rightarrow> slot \<Rightarrow> slot \<times> bool"
  and assign_fields :: "(string \<times> jvalue) list \<Rightarrow> (string \<times> slot) list \<Rightarrow> (string \<times> slot) list \<times> bool" where
  "assign v (IsString old) = (case assign_string v old of (s, ok) \<Rightarrow> (IsString s, ok))"
| "assign v (IsInt old) =
     (case v of
        VNull \<Rightarrow> (IsInt old, True)
      | VNum n \<Rightarrow> (case atoi n of None \<Rightarrow> (IsInt old, False) | Some i \<Rightarrow> (IsInt i, True))
      | _ \<Rightarrow> (IsInt old, False))"
| "assign v (IsStrings old) =
     (case v of
        VNull \<Rightarrow> (IsStrings None, True)
      | VArr vs \<Rightarrow> (case assign_strings vs (case old of None \<Rightarrow> [] | Some ss \<Rightarrow> ss) of (ss, ok) \<Rightarrow> (IsStrings (Some ss), ok))
      | _ \<Rightarrow> (IsStrings old, False))"
| "assign v (IsStruct fs) =
     (case v of
        VNull \<Rightarrow> (IsStruct fs, True)
      | VObj kvs \<Rightarrow> (case assign_fields kvs fs of (gs, ok) \<Rightarrow> (IsStruct gs, ok))
      | _ \<Rightarrow> (IsStruct fs, False))"
| "assign_fields [] fs = (fs, True)"
| "assign_fields ((k, v) # kvs) fs =
     (case field_of k fs of
        None \<Rightarrow> assign_fields kvs fs
      | Some n \<Rightarrow>
          (case assign v (get_field n fs) of
             (x, ok) \<Rightarrow> (case assign_fields kvs (set_field n x fs) of (gs, oks) \<Rightarrow> (gs, ok \<and> oks))))"

text \<open>How a call of \<open>Decode\<close> or \<open>Unmarshal\<close> ends.\<close>

datatype outcome = DecodeOk | DecodeType | DecodeSyntax | DecodeEOF

definition assign_outcome :: "jvalue \<Rightarrow> slot \<Rightarrow> slot \<times> outcome" where
  "assign_outcome v x = (case assign v x of (y, ok) \<Rightarrow> (y, if ok then DecodeOk else DecodeType))"

text \<open>\<open>Decoder.Decode\<close> takes the first value of its input and leaves the rest; \<open>Unmarshal\<close> takes all of it.\<close>

definition decode :: "string \<Rightarrow> slot \<Rightarrow> slot \<times> outcome" where
  "decode s x =
     (if list_all is_json_space s then (x, DecodeEOF)
      else case read_value s of
        None \<Rightarrow> (x, DecodeSyntax)
      | Some (v, rest) \<Rightarrow> assign_outcome v x)"

definition unmarshal :: "string \<Rightarrow> slot \<Rightarrow> slot \<times> outcome" where
  "unmarshal s x =
     (case read_value s of
        None \<Rightarrow> (x, DecodeSyntax)
      | Some (v, rest) \<Rightarrow> if list_all is_json_space rest then assign_outcome v x else (x, DecodeSyntax))"

text \<open>The string, number or strings of a field.\<close>

definition string_at :: "string \<Rightarrow> slot \<Rightarrow> string" where
  "string_at k x = (case x of IsStruct fs \<Rightarrow> (case map_of fs k of Some (IsString s) \<Rightarrow> s | _ \<Rightarrow> []) | _ \<Rightarrow> [])"

definition int_at :: "string \<Rightarrow> slot \<Rightarrow> int" where
  "int_at k x = (case x of IsStruct fs \<Rightarrow> (case map_of fs k of Some (IsInt i) \<Rightarrow> i | _ \<Rightarrow> 0) | _ \<Rightarrow> 0)"

definition strings_at :: "string \<Rightarrow> slot \<Rightarrow> string list option" where
  "strings_at k x = (case x of IsStruct fs \<Rightarrow> (case map_of fs k of Some (IsStrings ss) \<Rightarrow> ss | _ \<Rightarrow> None) | _ \<Rightarrow> None)"

definition struct_at :: "string \<Rightarrow> slot \<Rightarrow> slot" where
  "struct_at k x = (case x of IsStruct fs \<Rightarrow> (case map_of fs k of Some y \<Rightarrow> y | None \<Rightarrow> IsStruct []) | _ \<Rightarrow> IsStruct [])"

lemma marshal_not_blank: "\<not> list_all is_json_space (marshal v)"
proof -
  have "\<exists>c t. marshal v = c # t \<and> \<not> is_json_space c"
  proof (cases v)
    case (JInt i)
    have "\<not> is_digit c" if "is_json_space c" for c
      using that by (auto simp: is_json_space_def is_digit_def byte_def)
    then show ?thesis
      using show_int_hd [of i] by (auto simp: JInt is_json_space_def is_digit_def byte_def)
  qed (auto simp: json_quote_def is_json_space_def)
  then show ?thesis
    by auto
qed

lemma decode_marshal: "json_fits 0 v \<Longrightarrow> ends_number rest \<Longrightarrow> decode (marshal v @ rest) x = assign_outcome (value_of v) x"
  by (simp add: decode_def marshal_not_blank read_marshal)

lemma unmarshal_marshal: "json_fits 0 v \<Longrightarrow> unmarshal (marshal v) x = assign_outcome (value_of v) x"
  using read_marshal [of v "[]"] by (simp add: unmarshal_def)

lemma field_of_own: "k \<in> fst ` set fs \<Longrightarrow> field_of k fs = Some k"
  by (simp add: field_of_def)

lemma assign_strings_new: "assign_strings (map (\<lambda>s. VStr (to_valid s)) ss) [] = (map to_valid ss, True)"
  by (induction ss) (simp_all add: assign_string_def)

end
