(* ===== verification/Health_Metrics.thy ===== *)
theory Health_Metrics
  imports Conn_Log Socks5_Proxy Go_Json
begin

text \<open>
  HTTP replies as the handlers of this program build them, and three small parts: the health endpoints
  (\<open>internal/health/health.go\<close>), the counters and their Prometheus text (\<open>internal/metrics/metrics.go\<close>),
  and the resolver's choice of a name server (\<open>internal/netdns/resolver.go\<close>).
\<close>

section \<open>Replies\<close>

datatype body = Json json | Plain string | NoBody

record reply =
  ry_status :: nat
  ry_body :: body

definition write_json :: "nat \<Rightarrow> json \<Rightarrow> reply" where
  "write_json code v = \<lparr>ry_status = code, ry_body = Json v\<rparr>"

definition write_err :: "nat \<Rightarrow> string \<Rightarrow> reply" where
  "write_err code msg = write_json code (JObj [(''error'', JStr msg)])"

definition plain :: "nat \<Rightarrow> string \<Rightarrow> reply" where
  "plain code t = \<lparr>ry_status = code, ry_body = Plain t\<rparr>"

definition not_found :: reply where
  "not_found = plain 404 (''404 page not found'' @ [CHR 0x0A])"

section \<open>Health\<close>

record health =
  he_tunnel :: "bool option"
  he_gateway :: "bool option"
  he_required :: bool
  he_started :: bool

definition mark_started :: "health \<Rightarrow> health" where
  "mark_started s = s\<lparr>he_started := True\<rparr>"

definition handle_live :: "health \<Rightarrow> reply" where
  "handle_live s =
     (if \<not> he_started s then plain 503 (''starting'' @ [CHR 0x0A]) else plain 200 (''ok'' @ [CHR 0x0A]))"

definition handle_ready :: "health \<Rightarrow> reply" where
  "handle_ready s =
     (let tunnel_ok = (case he_tunnel s of None \<Rightarrow> True | Some b \<Rightarrow> b);
          gw_ok = (\<not> he_required s \<or> (case he_gateway s of None \<Rightarrow> True | Some b \<Rightarrow> b))
      in if \<not> tunnel_ok \<or> \<not> gw_ok then
           write_json 503 (JObj [(''ready'', JBool False), (''tunnel'', JBool tunnel_ok), (''gateway'', JBool gw_ok)])
         else
           write_json 200
             (JObj [(''ready'', JBool True), (''tunnel'', JBool True), (''gateway'', JBool (\<not> he_required s \<or> gw_ok))]))"

definition handle_root :: "string \<Rightarrow> reply" where
  "handle_root path =
     (if path \<noteq> ''/'' then not_found
      else plain 200
        (''outline-gate'' @ [CHR 0x0A] @ ''health: /healthz /readyz'' @ [CHR 0x0A] @ ''ui: /ui/'' @ [CHR 0x0A] @
         ''version: /api/v1/version'' @ [CHR 0x0A]))"

definition health_mux :: "health \<Rightarrow> string \<Rightarrow> reply" where
  "health_mux H path =
     (if path = ''/healthz'' then handle_live H
      else if path = ''/readyz'' then handle_ready H
      else handle_root path)"

text \<open>Ready means ready: the status and the body never disagree.\<close>

lemma ready_reply:
  "handle_ready s =
     (let t = (he_tunnel s \<noteq> Some False); g = (he_required s \<longrightarrow> he_gateway s \<noteq> Some False) in
      write_json (if t \<and> g then 200 else 503)
        (JObj [(''ready'', JBool (t \<and> g)), (''tunnel'', JBool t), (''gateway'', JBool g)]))"
  by (cases "he_tunnel s"; cases "he_gateway s") (auto simp: handle_ready_def Let_def)

section \<open>Counters\<close>

record registry =
  mr_tunnel_ok :: "64 word"
  mr_tunnel_fail :: "64 word"
  mr_direct_ok :: "64 word"
  mr_direct_fail :: "64 word"
  mr_drop :: "64 word"
  mr_socks :: "64 word"
  mr_l3 :: "64 word"
  mr_dns_ok :: "64 word"
  mr_dns_err :: "64 word"
  mr_probe_ok :: "64 word"
  mr_probe_fail :: "64 word"
  mr_refresh_ok :: "64 word"
  mr_refresh_fail :: "64 word"
  mr_refresh_changed :: "64 word"

definition new_registry :: registry where
  "new_registry =
     \<lparr>mr_tunnel_ok = 0, mr_tunnel_fail = 0, mr_direct_ok = 0, mr_direct_fail = 0, mr_drop = 0, mr_socks = 0, mr_l3 = 0,
      mr_dns_ok = 0, mr_dns_err = 0, mr_probe_ok = 0, mr_probe_fail = 0, mr_refresh_ok = 0, mr_refresh_fail = 0,
      mr_refresh_changed = 0\<rparr>"

definition count_proto :: "string \<Rightarrow> registry \<Rightarrow> registry" where
  "count_proto proto r =
     (if proto = ''socks'' then r\<lparr>mr_socks := mr_socks r + 1\<rparr>
      else if proto = ''l3'' then r\<lparr>mr_l3 := mr_l3 r + 1\<rparr> else r)"

definition count_via :: "string \<Rightarrow> bool \<Rightarrow> registry \<Rightarrow> registry" where
  "count_via via ok r =
     (if via = ''direct'' then
        (if ok then r\<lparr>mr_direct_ok := mr_direct_ok r + 1\<rparr> else r\<lparr>mr_direct_fail := mr_direct_fail r + 1\<rparr>)
      else if via = ''drop'' then r\<lparr>mr_drop := mr_drop r + 1\<rparr>
      else if ok then r\<lparr>mr_tunnel_ok := mr_tunnel_ok r + 1\<rparr> else r\<lparr>mr_tunnel_fail := mr_tunnel_fail r + 1\<rparr>)"

definition observe_connection :: "string \<Rightarrow> string \<Rightarrow> bool \<Rightarrow> registry option \<Rightarrow> registry option" where
  "observe_connection proto via ok = map_option (\<lambda>r. count_via via ok (count_proto proto r))"

definition observe_probe :: "bool \<Rightarrow> registry option \<Rightarrow> registry option" where
  "observe_probe ok =
     map_option (\<lambda>r. if ok then r\<lparr>mr_probe_ok := mr_probe_ok r + 1\<rparr> else r\<lparr>mr_probe_fail := mr_probe_fail r + 1\<rparr>)"

definition observe_refresh :: "bool \<Rightarrow> bool \<Rightarrow> registry option \<Rightarrow> registry option" where
  "observe_refresh ok changed =
     map_option (\<lambda>r.
       if \<not> ok then r\<lparr>mr_refresh_fail := mr_refresh_fail r + 1\<rparr>
       else (let r1 = r\<lparr>mr_refresh_ok := mr_refresh_ok r + 1\<rparr> in
             if changed then r1\<lparr>mr_refresh_changed := mr_refresh_changed r1 + 1\<rparr> else r1))"

text \<open>The series of a counter come out of a Go map, in any order; here in the order of the source.\<close>

definition write_counter :: "string \<Rightarrow> string \<Rightarrow> (string \<times> 64 word) list \<Rightarrow> string" where
  "write_counter name help series =
     ''# HELP '' @ name @ '' '' @ help @ [CHR 0x0A] @ ''# TYPE '' @ name @ '' counter'' @ [CHR 0x0A] @
     concat (map (\<lambda>(l, v). name @ ''{'' @ l @ ''} '' @ show_int (sint v) @ [CHR 0x0A]) series)"

definition label :: "string \<Rightarrow> string \<Rightarrow> string" where
  "label k v = k @ ''='' @ [CHR 0x22] @ v @ [CHR 0x22]"

definition write_prometheus :: "string \<Rightarrow> registry option \<Rightarrow> string" where
  "write_prometheus uptime r0 =
     (case r0 of
        None \<Rightarrow> []
      | Some r \<Rightarrow>
          ''# HELP outline_gate_up Process up (1).'' @ [CHR 0x0A] @ ''# TYPE outline_gate_up gauge'' @ [CHR 0x0A] @
          ''outline_gate_up 1'' @ [CHR 0x0A] @
          ''# HELP outline_gate_uptime_seconds Seconds since process start.'' @ [CHR 0x0A] @
          ''# TYPE outline_gate_uptime_seconds gauge'' @ [CHR 0x0A] @
          ''outline_gate_uptime_seconds '' @ uptime @ [CHR 0x0A] @
          write_counter ''outline_gate_connections_total'' ''Proxy connection attempts''
            [(label ''via'' ''tunnel'' @ '','' @ label ''result'' ''ok'', mr_tunnel_ok r),
             (label ''via'' ''tunnel'' @ '','' @ label ''result'' ''fail'', mr_tunnel_fail r),
             (label ''via'' ''direct'' @ '','' @ label ''result'' ''ok'', mr_direct_ok r),
             (label ''via'' ''direct'' @ '','' @ label ''result'' ''fail'', mr_direct_fail r),
             (label ''via'' ''drop'' @ '','' @ label ''result'' ''policy'', mr_drop r)] @
          write_counter ''outline_gate_accepts_total'' ''Accepted client connections by proto''
            [(label ''proto'' ''socks'', mr_socks r), (label ''proto'' ''l3'', mr_l3 r)] @
          write_counter ''outline_gate_dns_refresh_total'' ''Bypass domain DNS refresh outcomes''
            [(label ''result'' ''ok'', mr_dns_ok r), (label ''result'' ''error'', mr_dns_err r)] @
          write_counter ''outline_gate_tunnel_probe_total'' ''Outline tunnel probe outcomes''
            [(label ''result'' ''ok'', mr_probe_ok r), (label ''result'' ''fail'', mr_probe_fail r)] @
          write_counter ''outline_gate_ssconf_refresh_total'' ''ssconf:// refresh outcomes''
            [(label ''result'' ''ok'', mr_refresh_ok r), (label ''result'' ''fail'', mr_refresh_fail r),
             (label ''result'' ''changed'', mr_refresh_changed r)])"

definition metrics_handler :: "string \<Rightarrow> string \<Rightarrow> registry option \<Rightarrow> reply" where
  "metrics_handler meth uptime r =
     (if meth \<noteq> ''GET'' \<and> meth \<noteq> ''HEAD'' then plain 405 (''method not allowed'' @ [CHR 0x0A])
      else plain 200 (write_prometheus uptime r))"

text \<open>The hook of main: every recorded connection is stored, and counted when metrics are on.\<close>

definition fields_of :: "conn_event \<Rightarrow> fields" where
  "fields_of e =
     \<lparr>fl_proto = ce_proto e, fl_client = ce_client e, fl_target = ce_target e, fl_host = ce_host e,
      fl_port = ce_port e, fl_via = ce_via e, fl_rule = ce_rule e, fl_ok = ce_ok e, fl_error = ce_error e,
      fl_ms = ce_ms e\<rparr>"

definition conn_hook ::
  "unicode \<Rightarrow> int \<Rightarrow> conn_event \<Rightarrow> conn_log \<times> registry option \<Rightarrow> conn_log \<times> registry option" where
  "conn_hook U now e w =
     (snd (from_fields U now (fields_of e) (fst w)), observe_connection (ce_proto e) (ce_via e) (ce_ok e) (snd w))"

text \<open>A trace of a proxy, recorded through the hook with the clock readings of its records.\<close>

fun record_all ::
  "unicode \<Rightarrow> (int \<times> conn_event) list \<Rightarrow> conn_log \<times> registry option \<Rightarrow> conn_log \<times> registry option" where
  "record_all U [] w = w"
| "record_all U ((now, e) # es) w = record_all U es (conn_hook U now e w)"

section \<open>The counters count\<close>

definition via_counters :: "registry \<Rightarrow> 64 word list" where
  "via_counters r = [mr_tunnel_ok r, mr_tunnel_fail r, mr_direct_ok r, mr_direct_fail r, mr_drop r]"

definition count_of :: "('a \<Rightarrow> bool) \<Rightarrow> 'a list \<Rightarrow> 64 word" where
  "count_of P xs = word_of_nat (length (filter P xs))"

lemma count_of_simps [simp]:
  "count_of P [] = 0" "count_of P (x # xs) = (if P x then 1 + count_of P xs else count_of P xs)"
  by (simp_all add: count_of_def)

lemma record_all_counts:
  "\<exists>r'. snd (record_all U es (s, Some r)) = Some r' \<and>
     mr_tunnel_ok r' = mr_tunnel_ok r + count_of (\<lambda>e. ce_via e \<notin> {''direct'', ''drop''} \<and> ce_ok e) (map snd es) \<and>
     mr_tunnel_fail r' = mr_tunnel_fail r + count_of (\<lambda>e. ce_via e \<notin> {''direct'', ''drop''} \<and> \<not> ce_ok e) (map snd es) \<and>
     mr_direct_ok r' = mr_direct_ok r + count_of (\<lambda>e. ce_via e = ''direct'' \<and> ce_ok e) (map snd es) \<and>
     mr_direct_fail r' = mr_direct_fail r + count_of (\<lambda>e. ce_via e = ''direct'' \<and> \<not> ce_ok e) (map snd es) \<and>
     mr_drop r' = mr_drop r + count_of (\<lambda>e. ce_via e = ''drop'') (map snd es) \<and>
     mr_socks r' = mr_socks r + count_of (\<lambda>e. ce_proto e = ''socks'') (map snd es) \<and>
     mr_l3 r' = mr_l3 r + count_of (\<lambda>e. ce_proto e = ''l3'') (map snd es)"
proof (induction U es "(s, Some r)" arbitrary: s r rule: record_all.induct)
  case (2 U now e es)
  have "snd (conn_hook U now e (s, Some r)) = Some (count_via (ce_via e) (ce_ok e) (count_proto (ce_proto e) r))"
    by (simp add: conn_hook_def observe_connection_def)
  then have h: "conn_hook U now e (s, Some r) =
      (fst (conn_hook U now e (s, Some r)), Some (count_via (ce_via e) (ce_ok e) (count_proto (ce_proto e) r)))"
    by (simp add: prod_eq_iff)
  show ?case
    unfolding record_all.simps(2) list.map snd_conv using 2 [OF h] h
    by (auto simp: count_via_def count_proto_def)
qed simp

lemma count_of_cases:
  "count_of (\<lambda>x. P x \<and> Q x) xs + count_of (\<lambda>x. P x \<and> \<not> Q x) xs = count_of P xs"
  "count_of (\<lambda>x. \<not> P x) xs + count_of P xs = of_nat (length xs)"
  by (induction xs) (auto simp: algebra_simps)

lemma count_of_disjoint: "(\<And>x. \<not> (P x \<and> Q x)) \<Longrightarrow> count_of P xs + count_of Q xs = count_of (\<lambda>x. P x \<or> Q x) xs"
  by (induction xs) (auto simp: algebra_simps)

lemma record_all_seq: "cl_seq (fst (record_all U es w)) = cl_seq (fst w) + of_nat (length es)"
proof (induction U es w rule: record_all.induct)
  case (2 U now e es w)
  have "cl_seq (snd (from_fields U now f s)) = cl_seq s + 1" for f s
    by (simp add: from_fields_def record_event_def Let_def push_def prune_def)
  then show ?case
    using 2 by (simp add: conn_hook_def algebra_simps)
qed simp

text \<open>
  C38: every connection is logged once and counted once. After any recorded connections, from the start of
  the process: the log has numbered all of them; the five counters by path and result are the numbers of
  connections with that path and result and add up to all of them, and the two counters of accepted
  connections are those of SOCKS and of redirected ones - all modulo 2^64, as the machine counts.
\<close>
theorem every_connection_counted:
  "\<exists>r. snd (record_all U es (new_log capacity, Some new_registry)) = Some r \<and>
     cl_seq (fst (record_all U es (new_log capacity, Some new_registry))) = of_nat (length es) \<and>
     sum_list (via_counters r) = of_nat (length es) \<and>
     mr_direct_ok r = count_of (\<lambda>e. ce_via e = ''direct'' \<and> ce_ok e) (map snd es) \<and>
     mr_direct_fail r = count_of (\<lambda>e. ce_via e = ''direct'' \<and> \<not> ce_ok e) (map snd es) \<and>
     mr_drop r = count_of (\<lambda>e. ce_via e = ''drop'') (map snd es) \<and>
     mr_tunnel_ok r = count_of (\<lambda>e. ce_via e \<notin> {''direct'', ''drop''} \<and> ce_ok e) (map snd es) \<and>
     mr_tunnel_fail r = count_of (\<lambda>e. ce_via e \<notin> {''direct'', ''drop''} \<and> \<not> ce_ok e) (map snd es) \<and>
     mr_socks r = count_of (\<lambda>e. ce_proto e = ''socks'') (map snd es) \<and>
     mr_l3 r = count_of (\<lambda>e. ce_proto e = ''l3'') (map snd es)"
proof -
  let ?es = "map snd es" and ?w = "record_all U es (new_log capacity, Some new_registry)"
  obtain r where r: "snd ?w = Some r"
     "mr_tunnel_ok r = count_of (\<lambda>e. ce_via e \<notin> {''direct'', ''drop''} \<and> ce_ok e) ?es"
     "mr_tunnel_fail r = count_of (\<lambda>e. ce_via e \<notin> {''direct'', ''drop''} \<and> \<not> ce_ok e) ?es"
     "mr_direct_ok r = count_of (\<lambda>e. ce_via e = ''direct'' \<and> ce_ok e) ?es"
     "mr_direct_fail r = count_of (\<lambda>e. ce_via e = ''direct'' \<and> \<not> ce_ok e) ?es"
     "mr_drop r = count_of (\<lambda>e. ce_via e = ''drop'') ?es"
     "mr_socks r = count_of (\<lambda>e. ce_proto e = ''socks'') ?es" "mr_l3 r = count_of (\<lambda>e. ce_proto e = ''l3'') ?es"
    using record_all_counts [of U es "new_log capacity" new_registry] by (auto simp: new_registry_def)
  have "sum_list (via_counters r) =
      (mr_tunnel_ok r + mr_tunnel_fail r) + ((mr_direct_ok r + mr_direct_fail r) + mr_drop r)"
    by (simp add: via_counters_def algebra_simps)
  also have "\<dots> = count_of (\<lambda>e. ce_via e \<notin> {''direct'', ''drop''}) ?es +
      (count_of (\<lambda>e. ce_via e = ''direct'') ?es + count_of (\<lambda>e. ce_via e = ''drop'') ?es)"
    unfolding r(2-6) count_of_cases(1) by simp
  also have "count_of (\<lambda>e. ce_via e = ''direct'') ?es + count_of (\<lambda>e. ce_via e = ''drop'') ?es =
      count_of (\<lambda>e. ce_via e \<in> {''direct'', ''drop''}) ?es"
    by (subst count_of_disjoint) auto
  also have "count_of (\<lambda>e. ce_via e \<notin> {''direct'', ''drop''}) ?es + \<dots> = of_nat (length es)"
    using count_of_cases(2) [of "\<lambda>e. ce_via e \<in> {''direct'', ''drop''}" ?es] by simp
  finally have total: "sum_list (via_counters r) = of_nat (length es)" .
  have "cl_seq (fst ?w) = of_nat (length es)"
    by (simp add: record_all_seq new_log_def new_with_ttl_def)
  then show ?thesis
    using r total by blast
qed

section \<open>Name servers\<close>

definition dns_servers :: "string list" where
  "dns_servers = [''1.1.1.1:53'', ''8.8.8.8:53'', ''77.88.8.8:53'']"

text \<open>The first server that can be dialled, whatever address was asked for, otherwise the last error.\<close>

fun dial_servers :: "(string \<Rightarrow> string + 'c) \<Rightarrow> string \<Rightarrow> string list \<Rightarrow> string + 'c" where
  "dial_servers dial prev [] = Inl prev"
| "dial_servers dial prev (ns # rest) =
     (case dial ns of Inr c \<Rightarrow> Inr c | Inl e \<Rightarrow> dial_servers dial e rest)"

definition dial_ns :: "(string \<Rightarrow> string + 'c) \<Rightarrow> string \<Rightarrow> string + 'c" where
  "dial_ns dial address = dial_servers dial [] dns_servers"

text \<open>What the program makes of \<open>net.Resolver\<close> and \<open>net.Dialer\<close>; how those resolve a name is a parameter, \<open>go\<close>.\<close>

record 'c resolver =
  rv_prefer_go :: bool
  rv_dial :: "string \<Rightarrow> string + 'c"

record 'c host_dialer =
  hd_timeout :: int
  hd_resolver :: "'c resolver"

definition host_resolver :: "(string \<Rightarrow> string + 'c) \<Rightarrow> 'c resolver" where
  "host_resolver dial = \<lparr>rv_prefer_go = True, rv_dial = dial_ns dial\<rparr>"

definition resolving_dialer :: "(string \<Rightarrow> string + 'c) \<Rightarrow> 'c host_dialer" where
  "resolving_dialer dial = \<lparr>hd_timeout = 15 * 1000000000, hd_resolver = host_resolver dial\<rparr>"

definition lookup_ip :: "('c resolver \<Rightarrow> string \<Rightarrow> string \<Rightarrow> 'e + ip list) \<Rightarrow> (string \<Rightarrow> string + 'c) \<Rightarrow> string \<Rightarrow> 'e + ip list" where
  "lookup_ip go dial host = go (host_resolver dial) ''ip'' host"

text \<open>The resolver reaches a name server whenever one of the three can be dialled, whatever server it asked for.\<close>

lemma dial_servers_first:
  "dial_servers dial prev ns =
     (case find (\<lambda>n. \<exists>c. dial n = Inr c) ns of
        Some n \<Rightarrow> dial n
      | None \<Rightarrow> (if ns = [] then Inl prev else dial (last ns)))"
  by (induction dial prev ns rule: dial_servers.induct) (auto split: sum.splits option.splits)

lemma resolver_dials:
  "rv_dial (host_resolver dial) a =
     (case find (\<lambda>n. \<exists>c. dial n = Inr c) dns_servers of
        Some n \<Rightarrow> dial n
      | None \<Rightarrow> dial ''77.88.8.8:53'')"
  unfolding host_resolver_def dial_ns_def dial_servers_first by (simp add: dns_servers_def)

end
