(* ===== verification/Go_Base64.thy ===== *)
theory Go_Base64
  imports Go_Net_Text
begin

text \<open>
  Packages \<open>encoding/base64\<close> and \<open>encoding/hex\<close>: the two alphabets, with and without padding, and
  lower case hexadecimal. As in Go the decoder skips line ends anywhere, and does not check the
  bits that the last character has too many.
\<close>

section \<open>Alphabets\<close>

datatype b64_alphabet = StdAlphabet | UrlAlphabet

fun b64_62 :: "b64_alphabet \<Rightarrow> char" where
  "b64_62 StdAlphabet = CHR ''+''"
| "b64_62 UrlAlphabet = CHR ''-''"

fun b64_63 :: "b64_alphabet \<Rightarrow> char" where
  "b64_63 StdAlphabet = CHR ''/''"
| "b64_63 UrlAlphabet = CHR ''_''"

definition b64_char :: "b64_alphabet \<Rightarrow> nat \<Rightarrow> char" where
  "b64_char al n =
     (if n < 26 then char_of (65 + n) else if n < 52 then char_of (71 + n) else if n < 62 then char_of (n - 4)
      else if n = 62 then b64_62 al else b64_63 al)"

definition b64_val :: "b64_alphabet \<Rightarrow> char \<Rightarrow> nat option" where
  "b64_val al c =
     (if 65 \<le> byte c \<and> byte c \<le> 90 then Some (byte c - 65)
      else if 97 \<le> byte c \<and> byte c \<le> 122 then Some (byte c - 71)
      else if is_digit c then Some (byte c + 4)
      else if c = b64_62 al then Some 62 else if c = b64_63 al then Some 63 else None)"

lemma b64_val_char [simp]:
  assumes "n < 64"
  shows "b64_val al (b64_char al n) = Some n"
proof -
  consider "n < 26" | "26 \<le> n" "n < 52" | "52 \<le> n" "n < 62" | "n = 62" | "n = 63"
    using assms by linarith
  then show ?thesis
  proof cases
    case 1
    then show ?thesis by (simp add: b64_val_def b64_char_def byte_char_of)
  next
    case 2
    then show ?thesis by (simp add: b64_val_def b64_char_def byte_char_of)
  next
    case 3
    define k where "k = n - 52"
    have k: "n = 52 + k" "k < 10" unfolding k_def using 3 by linarith+
    from k show ?thesis by (simp add: b64_val_def b64_char_def byte_char_of is_digit_def)
  qed (cases al; simp add: b64_val_def b64_char_def is_digit_def byte_def)+
qed

lemma b64_val_less: "b64_val al c = Some n \<Longrightarrow> n < 64"
  by (auto simp: b64_val_def is_digit_def split: if_splits)

definition b64_set :: "b64_alphabet \<Rightarrow> char set" where
  "b64_set al = {c. b64_val al c \<noteq> None}"

lemma b64_char_in: "n < 64 \<Longrightarrow> b64_char al n \<in> b64_set al"
  by (simp add: b64_set_def)

lemma b64_not_special:
  "CHR ''='' \<notin> b64_set al" "CHR 0x0A \<notin> b64_set al" "CHR 0x0D \<notin> b64_set al" "CHR '' '' \<notin> b64_set al"
  "CHR ''@'' \<notin> b64_set al" "CHR '':'' \<notin> b64_set al"
  by (cases al; simp add: b64_set_def b64_val_def is_digit_def byte_def)+

section \<open>Encoding\<close>

definition b64_pad :: "bool \<Rightarrow> nat \<Rightarrow> string" where
  "b64_pad pad n = (if pad then replicate n CHR ''='' else [])"

fun b64_encode :: "b64_alphabet \<Rightarrow> bool \<Rightarrow> string \<Rightarrow> string" where
  "b64_encode al pad [] = []"
| "b64_encode al pad [a] = [b64_char al (byte a div 4), b64_char al (byte a mod 4 * 16)] @ b64_pad pad 2"
| "b64_encode al pad [a, b] =
     [b64_char al (byte a div 4), b64_char al (byte a mod 4 * 16 + byte b div 16), b64_char al (byte b mod 16 * 4)] @
     b64_pad pad 1"
| "b64_encode al pad (a # b # c # r) =
     [b64_char al (byte a div 4), b64_char al (byte a mod 4 * 16 + byte b div 16),
      b64_char al (byte b mod 16 * 4 + byte c div 64), b64_char al (byte c mod 64)] @ b64_encode al pad r"

section \<open>Decoding\<close>

definition b64_byte1 :: "nat \<Rightarrow> nat \<Rightarrow> char" where "b64_byte1 w x = char_of (w * 4 + x div 16)"
definition b64_byte2 :: "nat \<Rightarrow> nat \<Rightarrow> char" where "b64_byte2 x y = char_of (x mod 16 * 16 + y div 4)"
definition b64_byte3 :: "nat \<Rightarrow> nat \<Rightarrow> char" where "b64_byte3 y z = char_of (y mod 4 * 64 + z)"

fun b64_quanta :: "b64_alphabet \<Rightarrow> bool \<Rightarrow> string \<Rightarrow> string option" where
  "b64_quanta al pad [] = Some []"
| "b64_quanta al pad [a] = None"
| "b64_quanta al pad [a, b] =
     (case (b64_val al a, b64_val al b) of
        (Some w, Some x) \<Rightarrow> if pad then None else Some [b64_byte1 w x]
      | _ \<Rightarrow> None)"
| "b64_quanta al pad [a, b, c] =
     (case (b64_val al a, b64_val al b, b64_val al c) of
        (Some w, Some x, Some y) \<Rightarrow> if pad then None else Some [b64_byte1 w x, b64_byte2 x y]
      | _ \<Rightarrow> None)"
| "b64_quanta al pad (a # b # c # d # r) =
     (case (b64_val al a, b64_val al b) of
        (Some w, Some x) \<Rightarrow>
          (case (b64_val al c, b64_val al d) of
             (Some y, Some z) \<Rightarrow>
               map_option (\<lambda>t. b64_byte1 w x # b64_byte2 x y # b64_byte3 y z # t) (b64_quanta al pad r)
           | (Some y, None) \<Rightarrow>
               if pad \<and> d = CHR ''='' \<and> r = [] then Some [b64_byte1 w x, b64_byte2 x y] else None
           | (None, _) \<Rightarrow>
               if pad \<and> c = CHR ''='' \<and> d = CHR ''='' \<and> r = [] then Some [b64_byte1 w x] else None)
      | _ \<Rightarrow> None)"

definition b64_decode :: "b64_alphabet \<Rightarrow> bool \<Rightarrow> string \<Rightarrow> string option" where
  "b64_decode al pad s = b64_quanta al pad (filter (\<lambda>c. c \<noteq> CHR 0x0A \<and> c \<noteq> CHR 0x0D) s)"

lemma byte_div: "byte c div 16 < 16" "byte c div 64 < 4" "byte c div 4 < 64"
  using less_mult_imp_div_less [of "byte c" 16 16] less_mult_imp_div_less [of "byte c" 4 64]
    less_mult_imp_div_less [of "byte c" 64 4] byte_less [of c] by simp_all

lemma b64_bytes [simp]:
  "b64_byte1 (byte a div 4) (byte a mod 4 * 16 + byte b div 16) = a"
  "b64_byte1 (byte a div 4) (byte a mod 4 * 16) = a"
  "b64_byte2 (byte a mod 4 * 16 + byte b div 16) (byte b mod 16 * 4 + byte c div 64) = b"
  "b64_byte2 (byte a mod 4 * 16 + byte b div 16) (byte b mod 16 * 4) = b"
  "b64_byte3 (byte b mod 16 * 4 + byte c div 64) (byte c mod 64) = c"
proof -
  note l = byte_div
  have "byte a div 4 * 4 + (byte a mod 4 * 16 + byte b div 16) div 16 = byte a"
    using l(1) [of b] by simp
  then show "b64_byte1 (byte a div 4) (byte a mod 4 * 16 + byte b div 16) = a"
    unfolding b64_byte1_def by (simp only: byte_def char_of_char)
  have "(byte a mod 4 * 16 + byte b div 16) mod 16 * 16 + (byte b mod 16 * 4 + byte c div 64) div 4 = byte b"
    using l(1) [of b] l(2) [of c] by simp
  then show "b64_byte2 (byte a mod 4 * 16 + byte b div 16) (byte b mod 16 * 4 + byte c div 64) = b"
    unfolding b64_byte2_def by (simp only: byte_def char_of_char)
  have "(byte a mod 4 * 16 + byte b div 16) mod 16 * 16 + (byte b mod 16 * 4) div 4 = byte b"
    using l(1) [of b] by simp
  then show "b64_byte2 (byte a mod 4 * 16 + byte b div 16) (byte b mod 16 * 4) = b"
    unfolding b64_byte2_def by (simp only: byte_def char_of_char)
  have "(byte b mod 16 * 4 + byte c div 64) mod 4 * 64 + byte c mod 64 = byte c"
    using l(2) [of c] by simp
  then show "b64_byte3 (byte b mod 16 * 4 + byte c div 64) (byte c mod 64) = c"
    unfolding b64_byte3_def by (simp only: byte_def char_of_char)
  have "byte a div 4 * 4 + (byte a mod 4 * 16) div 16 = byte a"
    by simp
  then show "b64_byte1 (byte a div 4) (byte a mod 4 * 16) = a"
    unfolding b64_byte1_def by (simp only: byte_def char_of_char)
qed

lemma b64_sextets [simp]:
  "byte a div 4 < 64" "byte a mod 4 * 16 < 64" "byte b mod 16 * 4 < 64" "byte c mod 64 < 64"
  "byte a mod 4 * 16 + byte b div 16 < 64" "byte b mod 16 * 4 + byte c div 64 < 64"
proof -
  have two: "x * 16 + y < 64" if "x < 4" "y < 16" for x y :: nat
    using that by linarith
  have three: "x * 4 + y < 64" if "x < 16" "y < 4" for x y :: nat
    using that by linarith
  show "byte a div 4 < 64" "byte c mod 64 < 64"
    by (rule byte_div, simp)
  show "byte a mod 4 * 16 < 64" "byte b mod 16 * 4 < 64"
    using two [of "byte a mod 4" 0] three [of "byte b mod 16" 0] by simp_all
  show "byte a mod 4 * 16 + byte b div 16 < 64" "byte b mod 16 * 4 + byte c div 64 < 64"
    by (rule two three; simp add: byte_div)+
qed

lemma b64_val_equals [simp]: "b64_val al CHR ''='' = None"
  using b64_not_special(1) [of al] by (simp add: b64_set_def)

lemma b64_quanta_encode: "b64_quanta al pad (b64_encode al pad s) = Some s"
  by (induction al pad s rule: b64_encode.induct) (simp_all add: b64_pad_def numeral_2_eq_2)

lemma b64_encode_set: "set (b64_encode al pad s) \<subseteq> b64_set al \<union> (if pad then {CHR ''=''} else {})"
  by (induction al pad s rule: b64_encode.induct) (auto simp: b64_pad_def b64_char_in)

theorem b64_roundtrip [simp]: "b64_decode al pad (b64_encode al pad s) = Some s"
proof -
  have "filter (\<lambda>c. c \<noteq> CHR 0x0A \<and> c \<noteq> CHR 0x0D) (b64_encode al pad s) = b64_encode al pad s"
    using b64_encode_set [of al pad s] b64_not_special [of al] by (intro filter_True) (auto split: if_splits)
  then show ?thesis
    by (simp add: b64_decode_def b64_quanta_encode)
qed

lemma b64_encode_length: "length (b64_encode al True s) mod 4 = 0"
  by (induction al True s rule: b64_encode.induct) (simp_all add: b64_pad_def)

lemma b64_set_graph: "c \<in> b64_set al \<Longrightarrow> is_graph c"
  by (cases al) (auto simp: b64_set_def b64_val_def is_graph_def is_digit_def byte_def split: if_splits)

lemma b64_encode_graph: "c \<in> set (b64_encode al pad s) \<Longrightarrow> is_graph c"
  using b64_encode_set [of al pad s] b64_set_graph by (auto simp: is_graph_def byte_def split: if_splits)

lemma trim_b64 [simp]: "trim_space (b64_encode al pad s) = b64_encode al pad s"
proof (cases "b64_encode al pad s = []")
  case False
  then show ?thesis
    using b64_encode_graph [of _ al pad s] by (intro trim_space_graph) auto
qed simp

section \<open>Hexadecimal\<close>

definition hex_encode :: "string \<Rightarrow> string" where
  "hex_encode s = concat (map (\<lambda>c. [hex_char (byte c div 16), hex_char (byte c mod 16)]) s)"

lemma hex_encode_length [simp]: "length (hex_encode s) = 2 * length s"
  by (induction s) (simp_all add: hex_encode_def)

lemma hex_char_is_hex: "d < 16 \<Longrightarrow> is_hex (hex_char d)"
  by (simp add: is_hex_def is_digit_def hex_char_def byte_char_of)

lemma hex_encode_set: "c \<in> set (hex_encode s) \<Longrightarrow> is_hex c"
  using byte_div by (auto simp: hex_encode_def hex_char_is_hex)

end
