(* ===== verification/Tunnel_Mux.thy ===== *)
theory Tunnel_Mux
  imports Go_Net Gate_Config
begin

text \<open>
  \<open>internal/tunnel/mux.go\<close>, the switch between the two tunnel backends, and \<open>switchBackend\<close> of
  \<open>cmd/outline-gate/main.go\<close>, which brings AmneziaWG up or down around it and saves the choice.
  Dialers are a type parameter; the functions the switch asks (ready, server address) read the
  live state \<open>'w\<close> of the backends. Whether AmneziaWG comes up is a parameter of each switch.
\<close>

section \<open>The switch\<close>

definition normalize_backend :: "unicode \<Rightarrow> string \<Rightarrow> string" where
  "normalize_backend U name =
     (let s = to_lower U (trim_space name) in
      if s \<in> {'''', ''outline'', ''ss'', ''ss://'', ''outline-ss''} then ''outline''
      else if s \<in> {''amnezia'', ''awg'', ''amneziawg'', ''amneziavpn'', ''vpn''} then ''amnezia''
      else s)"

record ('d, 'w) mux =
  mx_outline :: "'d option"
  mx_amnezia :: "'d option"
  mx_outline_ready :: "('w \<Rightarrow> bool) option"
  mx_amnezia_ready :: "('w \<Rightarrow> bool) option"
  mx_outline_ip :: "('w \<Rightarrow> ip option) option"
  mx_amnezia_ip :: "('w \<Rightarrow> ip option) option"
  mx_backend :: string

definition new_mux ::
  "'d option \<Rightarrow> 'd option \<Rightarrow> ('w \<Rightarrow> bool) option \<Rightarrow> ('w \<Rightarrow> bool) option \<Rightarrow>
   ('w \<Rightarrow> ip option) option \<Rightarrow> ('w \<Rightarrow> ip option) option \<Rightarrow> ('d, 'w) mux" where
  "new_mux od ad ordy ardy oip aip =
     \<lparr>mx_outline = od, mx_amnezia = ad, mx_outline_ready = ordy, mx_amnezia_ready = ardy,
      mx_outline_ip = oip, mx_amnezia_ip = aip, mx_backend = ''outline''\<rparr>"

definition backend_of :: "('d, 'w) mux \<Rightarrow> string" where
  "backend_of m = (if mx_backend m = [] then ''outline'' else mx_backend m)"

datatype mux_error = UnknownBackend string | AmneziaNotConfigured

definition mux_set_backend :: "unicode \<Rightarrow> string \<Rightarrow> ('d, 'w) mux \<Rightarrow> mux_error option \<times> ('d, 'w) mux" where
  "mux_set_backend U name0 m =
     (let name = normalize_backend U name0 in
      if name \<noteq> ''outline'' \<and> name \<noteq> ''amnezia'' then (Some (UnknownBackend name), m)
      else if name = ''amnezia'' \<and> mx_amnezia m = None then (Some AmneziaNotConfigured, m)
      else (None, m\<lparr>mx_backend := name\<rparr>))"

definition active :: "('d, 'w) mux \<Rightarrow> 'd option" where
  "active m = (if backend_of m = ''amnezia'' then mx_amnezia m else mx_outline m)"

text \<open>\<open>Inl\<close> is the error of a switch without a dialer; \<open>dial\<close> is the dial of the chosen one.\<close>

definition mux_dial :: "('d \<Rightarrow> 'a \<Rightarrow> 'r) \<Rightarrow> ('d, 'w) mux \<Rightarrow> 'a \<Rightarrow> string + 'r" where
  "mux_dial dial m a = (case active m of None \<Rightarrow> Inl ''tunnel dialer not ready'' | Some d \<Rightarrow> Inr (dial d a))"

definition mux_ready :: "('d, 'w) mux \<Rightarrow> 'w \<Rightarrow> bool" where
  "mux_ready m w =
     (case if backend_of m = ''amnezia'' then mx_amnezia_ready m else mx_outline_ready m of
        None \<Rightarrow> False | Some f \<Rightarrow> f w)"

definition mux_server_ip :: "('d, 'w) mux \<Rightarrow> 'w \<Rightarrow> ip option" where
  "mux_server_ip m w =
     (case if backend_of m = ''amnezia'' then mx_amnezia_ip m else mx_outline_ip m of
        None \<Rightarrow> None | Some f \<Rightarrow> f w)"

section \<open>The wiring of main, and a switch at run time\<close>

text \<open>The live state: the Outline client, and AmneziaWG when its configuration could be loaded.\<close>

record live =
  lv_outline_ready :: bool
  lv_outline_ip :: "ip option"
  lv_awg :: "(bool \<times> ip option) option"

datatype backend_dialer = OutlineDialer | AmneziaDialer

definition main_mux :: "bool \<Rightarrow> (backend_dialer, live) mux" where
  "main_mux configured =
     new_mux (Some OutlineDialer) (if configured then Some AmneziaDialer else None)
       (Some lv_outline_ready) (Some (\<lambda>w. case lv_awg w of None \<Rightarrow> False | Some a \<Rightarrow> fst a))
       (Some lv_outline_ip) (Some (\<lambda>w. case lv_awg w of None \<Rightarrow> None | Some a \<Rightarrow> snd a))"

datatype switch_effect = RebuildPush | ClearPath "ip option"

record switcher =
  sw_mux :: "(backend_dialer, live) mux"
  sw_live :: live
  sw_fs :: fs
  sw_effects :: "switch_effect list"

definition set_awg :: "bool \<Rightarrow> live \<Rightarrow> live" where
  "set_awg b w = w\<lparr>lv_awg := map_option (\<lambda>a. (b, snd a)) (lv_awg w)\<rparr>"

datatype switch_error = NoAmneziaConf | UpFailed string | MuxRefused mux_error | NoSuchBackend string

text \<open>A failed save is only logged.\<close>

definition finish_switch :: "unicode \<Rightarrow> faults \<Rightarrow> string \<Rightarrow> switcher \<Rightarrow> switcher" where
  "finish_switch U F path s =
     s\<lparr>sw_fs := final_fs (sw_fs s) (fst (persist_backend U F path (backend_of (sw_mux s)) (sw_fs s))),
       sw_effects := sw_effects s @ [RebuildPush, ClearPath (mux_server_ip (sw_mux s) (sw_live s))]\<rparr>"

definition switch_backend ::
  "unicode \<Rightarrow> faults \<Rightarrow> string \<Rightarrow> string option \<Rightarrow> string \<Rightarrow> switcher \<Rightarrow> switch_error option \<times> switcher" where
  "switch_backend U F path up name0 s =
     (let name = normalize_backend U name0 in
      if name = ''amnezia'' then
        (if lv_awg (sw_live s) = None then (Some NoAmneziaConf, s)
         else case up of
           Some e \<Rightarrow>
             (Some (UpFailed e),
              s\<lparr>sw_live := set_awg False (sw_live s), sw_mux := snd (mux_set_backend U ''outline'' (sw_mux s))\<rparr>)
         | None \<Rightarrow>
             (case mux_set_backend U ''amnezia'' (sw_mux s) of
                (Some e, m) \<Rightarrow> (Some (MuxRefused e), s\<lparr>sw_live := set_awg False (sw_live s)\<rparr>)
              | (None, m) \<Rightarrow>
                  (None, finish_switch U F path (s\<lparr>sw_live := set_awg True (sw_live s), sw_mux := m\<rparr>))))
      else if name = ''outline'' then
        (None, finish_switch U F path
           (s\<lparr>sw_mux := snd (mux_set_backend U ''outline'' (sw_mux s)), sw_live := set_awg False (sw_live s)\<rparr>))
      else (Some (NoSuchBackend name), s))"

inductive switch_run :: "unicode \<Rightarrow> bool \<Rightarrow> switcher \<Rightarrow> bool" for U conf where
  start: "lv_awg w = None \<longleftrightarrow> \<not> conf \<Longrightarrow> (\<And>a. lv_awg w = Some a \<Longrightarrow> \<not> fst a) \<Longrightarrow>
    switch_run U conf \<lparr>sw_mux = main_mux conf, sw_live = w, sw_fs = fs, sw_effects = es\<rparr>"
| switch: "switch_run U conf s \<Longrightarrow> switch_run U conf (snd (switch_backend U F path up name s))"
| outline: "switch_run U conf s \<Longrightarrow>
    switch_run U conf (s\<lparr>sw_live := (sw_live s)\<lparr>lv_outline_ready := b, lv_outline_ip := a\<rparr>\<rparr>)"

section \<open>Names\<close>

lemma to_lower_names:
  "to_lower U (trim_space ''outline'') = ''outline''" "to_lower U (trim_space ''amnezia'') = ''amnezia''"
  "to_lower U ''outline'' = ''outline''" "to_lower U ''amnezia'' = ''amnezia''"
  by code_simp+

lemma normalize_names [simp]: "normalize_backend U ''outline'' = ''outline''" "normalize_backend U ''amnezia'' = ''amnezia''"
  by (simp_all add: normalize_backend_def to_lower_names)

text \<open>Every name the configuration accepts, the switch reads the same way.\<close>

lemma config_name_normalizes: "norm_backend U b = Some x \<Longrightarrow> normalize_backend U b = x"
  by (auto simp: norm_backend_def normalize_backend_def Let_def split: if_splits)

lemma set_outline [simp]: "mux_set_backend U ''outline'' m = (None, m\<lparr>mx_backend := ''outline''\<rparr>)"
  by (simp add: mux_set_backend_def)

lemma set_amnezia [simp]:
  "mux_set_backend U ''amnezia'' m =
     (if mx_amnezia m = None then (Some AmneziaNotConfigured, m) else (None, m\<lparr>mx_backend := ''amnezia''\<rparr>))"
  by (simp add: mux_set_backend_def)

section \<open>One backend at a time\<close>

definition awg_up :: "live \<Rightarrow> bool" where
  "awg_up w \<longleftrightarrow> (case lv_awg w of None \<Rightarrow> False | Some a \<Rightarrow> fst a)"

definition switch_inv :: "bool \<Rightarrow> switcher \<Rightarrow> bool" where
  "switch_inv conf s \<longleftrightarrow>
     (\<exists>b \<in> {''outline'', ''amnezia''}. sw_mux s = (main_mux conf)\<lparr>mx_backend := b\<rparr> \<and>
        (b = ''amnezia'' \<longleftrightarrow> awg_up (sw_live s))) \<and>
     (lv_awg (sw_live s) = None \<longleftrightarrow> \<not> conf)"

lemma set_awg_simps [simp]:
  "lv_awg (set_awg b w) = map_option (\<lambda>a. (b, snd a)) (lv_awg w)"
  "lv_outline_ready (set_awg b w) = lv_outline_ready w" "lv_outline_ip (set_awg b w) = lv_outline_ip w"
  "awg_up (set_awg b w) \<longleftrightarrow> b \<and> lv_awg w \<noteq> None"
  by (auto simp: set_awg_def awg_up_def split: option.split)

lemma finish_switch_simps [simp]:
  "sw_mux (finish_switch U F path s) = sw_mux s" "sw_live (finish_switch U F path s) = sw_live s"
  by (simp_all add: finish_switch_def)

lemma main_mux_backend [simp]:
  "mx_amnezia (main_mux conf) = (if conf then Some AmneziaDialer else None)"
  "(main_mux conf)\<lparr>mx_backend := ''outline''\<rparr> = main_mux conf"
  by (simp_all add: main_mux_def new_mux_def)

lemma switch_inv_kept:
  assumes "switch_inv conf s"
  shows "switch_inv conf (snd (switch_backend U F path up name s))"
proof -
  obtain b where b: "sw_mux s = (main_mux conf)\<lparr>mx_backend := b\<rparr>" "b \<in> {''outline'', ''amnezia''}"
    "b = ''amnezia'' \<longleftrightarrow> awg_up (sw_live s)" "lv_awg (sw_live s) = None \<longleftrightarrow> \<not> conf"
    using assms by (auto simp: switch_inv_def)
  consider (a) "normalize_backend U name = ''amnezia''" | (o) "normalize_backend U name = ''outline''"
    | (x) "normalize_backend U name \<notin> {''amnezia'', ''outline''}"
    by blast
  then show ?thesis
  proof cases
    case a
    show ?thesis
    proof (cases "lv_awg (sw_live s) = None")
      case True
      then show ?thesis
        using a assms by (simp add: switch_backend_def)
    next
      case False
      then show ?thesis
        using a b by (cases up) (auto simp: switch_backend_def switch_inv_def)
    qed
  next
    case o
    then show ?thesis
      using b by (auto simp: switch_backend_def switch_inv_def)
  next
    case x
    then show ?thesis
      using assms by (simp add: switch_backend_def Let_def)
  qed
qed

lemma switch_run_inv: "switch_run U conf s \<Longrightarrow> switch_inv conf s"
proof (induction rule: switch_run.induct)
  case (start w fs es)
  then show ?case
    by (auto simp: switch_inv_def awg_up_def split: option.split intro!: bexI [of _ "''outline''"])
next
  case (switch s F path up name)
  then show ?case
    using switch_inv_kept by blast
next
  case (outline s b a)
  then show ?case
    by (auto simp: switch_inv_def awg_up_def)
qed

text \<open>
  C34: After any sequence of switches - failing ones, unknown names and unconfigured backends
  included - the switch names one of the two backends; it names AmneziaWG exactly while
  AmneziaWG is up, so a failed bring-up always leaves the traffic on Outline; and the dialer
  used, the readiness reported and the server address all are those of the named backend.
\<close>
theorem backend_views_agree:
  assumes "switch_run U conf s"
  shows "(if backend_of (sw_mux s) = ''amnezia''
     then \<exists>a. lv_awg (sw_live s) = Some (True, a) \<and> mux_dial dial (sw_mux s) t = Inr (dial AmneziaDialer t) \<and>
       mux_ready (sw_mux s) (sw_live s) \<and> mux_server_ip (sw_mux s) (sw_live s) = a
     else backend_of (sw_mux s) = ''outline'' \<and> \<not> awg_up (sw_live s) \<and>
       mux_dial dial (sw_mux s) t = Inr (dial OutlineDialer t) \<and>
       mux_ready (sw_mux s) (sw_live s) = lv_outline_ready (sw_live s) \<and>
       mux_server_ip (sw_mux s) (sw_live s) = lv_outline_ip (sw_live s))"
proof -
  obtain b where b: "sw_mux s = (main_mux conf)\<lparr>mx_backend := b\<rparr>" "b \<in> {''outline'', ''amnezia''}"
    "b = ''amnezia'' \<longleftrightarrow> awg_up (sw_live s)" "lv_awg (sw_live s) = None \<longleftrightarrow> \<not> conf"
    using switch_run_inv [OF assms] by (auto simp: switch_inv_def)
  have m: "backend_of (sw_mux s) = b"
    using b(2) by (auto simp: b(1) backend_of_def)
  show ?thesis
  proof (cases "b = ''amnezia''")
    case True
    then obtain a where a: "lv_awg (sw_live s) = Some (True, a)"
      using b(3) by (auto simp: awg_up_def split: option.splits)
    then have conf
      using b(4) by simp
    then show ?thesis
      using True m a b(1)
      by (simp add: mux_dial_def active_def mux_ready_def mux_server_ip_def) (simp add: main_mux_def new_mux_def)
  next
    case False
    then have "b = ''outline''"
      using b(2) by simp
    then show ?thesis
      using m b(1,3)
      by (simp add: mux_dial_def active_def mux_ready_def mux_server_ip_def) (simp add: main_mux_def new_mux_def)
  qed
qed

definition sample_live :: live where
  "sample_live = \<lparr>lv_outline_ready = True, lv_outline_ip = None, lv_awg = Some (False, None)\<rparr>"

definition sample_switcher :: switcher where
  "sample_switcher = \<lparr>sw_mux = main_mux True, sw_live = sample_live, sw_fs = Map.empty, sw_effects = []\<rparr>"

lemma backend_views_agree_witness:
  "let s = snd (switch_backend ascii_tables no_faults ''b'' None ''AWG'' sample_switcher);
       s' = snd (switch_backend ascii_tables no_faults ''b'' (Some ''handshake'') ''vpn'' s)
   in mux_dial (\<lambda>d t. d) (sw_mux s) ''x:1'' = Inr AmneziaDialer \<and>
      mux_dial (\<lambda>d t. d) (sw_mux s') ''x:1'' = Inr OutlineDialer"
proof -
  let ?s = "snd (switch_backend ascii_tables no_faults ''b'' None ''AWG'' sample_switcher)"
  let ?s' = "snd (switch_backend ascii_tables no_faults ''b'' (Some ''handshake'') ''vpn'' ?s)"
  have "switch_run ascii_tables True sample_switcher"
    unfolding sample_switcher_def by (rule switch_run.start) (auto simp: sample_live_def)
  then have 1: "switch_run ascii_tables True ?s" and 2: "switch_run ascii_tables True ?s'"
    by (blast intro: switch_run.switch)+
  have n: "normalize_backend ascii_tables ''AWG'' = ''amnezia''" "normalize_backend ascii_tables ''vpn'' = ''amnezia''"
    by code_simp+
  have "backend_of (sw_mux ?s) = ''amnezia''" "backend_of (sw_mux ?s') = ''outline''"
    by (simp_all add: switch_backend_def n sample_switcher_def sample_live_def backend_of_def)
      (simp add: main_mux_def new_mux_def)
  then show ?thesis
    using backend_views_agree [OF 1, of "\<lambda>d t. d" "''x:1''"] backend_views_agree [OF 2, of "\<lambda>d t. d" "''x:1''"]
    by (auto simp: Let_def)
qed

section \<open>The choice survives a restart\<close>

lemma backend_text_read:
  assumes "b \<in> {''outline'', ''amnezia''}"
  shows "first_non_comment_line (''# outline-gate tunnel backend'' @ [CHR 0x0A] @ b @ [CHR 0x0A]) = b"
  using assms by (elim insertE emptyE) (simp_all only:, code_simp+)

lemma persist_backend_reads:
  assumes "persist_backend U F path b fs = (tr, None)" "b \<in> {''outline'', ''amnezia''}"
  shows "read_persisted_key (final_fs fs tr) path = b"
proof -
  let ?p = "trim_space path" and ?t = "''# outline-gate tunnel backend'' @ [CHR 0x0A] @ b @ [CHR 0x0A]"
  have "to_lower U (trim_space b) = b"
    using assms(2) to_lower_names by auto
  then have p: "?p \<noteq> []" and run: "run_script F (backend_script ?p ?t) fs = (tr, None)"
    using assms(1) by (auto simp: persist_backend_def Let_def split: if_splits)
  then have "\<exists>d. final_fs fs tr ?p = Some \<lparr>file_data = ?t, file_durable = d\<rparr>"
    by (auto simp: backend_script_def final_fs_def Let_def split: option.splits)
  then show ?thesis
    using p backend_text_read [OF assms(2)] by (auto simp: read_persisted_key_def Let_def)
qed

text \<open>
  C40: After a successful switch whose save succeeds, a process that starts on the same files
  configures exactly the backend that was switched to, whatever \<open>TUNNEL_BACKEND\<close> says, and
  \<open>Validate\<close> and the switch both accept the name.
\<close>
theorem switch_survives_restart:
  assumes "switch_run U conf s" "switch_backend U F path up name s = (None, s')"
    and "snd (persist_backend U F path (backend_of (sw_mux s')) (sw_fs s)) = None"
    and "trim_space (cf_backend_file c) = trim_space path"
  shows "set_backend U env (sw_fs s') c = Inr (c\<lparr>cf_backend := normalize_backend U name\<rparr>) \<and>
    norm_backend U (normalize_backend U name) = Some (normalize_backend U name) \<and> backend_of (sw_mux s') = normalize_backend U name"
proof -
  let ?b = "normalize_backend U name"
  have b: "?b \<in> {''outline'', ''amnezia''}" and m: "backend_of (sw_mux s') = ?b"
    and fs: "sw_fs s' = final_fs (sw_fs s) (fst (persist_backend U F path (backend_of (sw_mux s')) (sw_fs s)))"
    using assms(2) by (auto simp: switch_backend_def finish_switch_def backend_of_def Let_def
        split: if_splits option.splits prod.splits)
  have r: "persist_backend U F path ?b (sw_fs s) = (fst (persist_backend U F path ?b (sw_fs s)), None)"
    using assms(3) m by (simp add: prod_eq_iff)
  then have "trim_space path \<noteq> []"
    by (auto simp: persist_backend_def Let_def split: if_splits)
  moreover have "read_persisted_key (sw_fs s') path = ?b"
    using persist_backend_reads [OF r b] fs m by simp
  moreover have "to_lower U ?b = ?b" "?b \<noteq> []"
    using b to_lower_names by auto
  ultimately show ?thesis
    using assms(4) m norm_backend_fixed [OF b] by (simp add: set_backend_def read_persisted_key_def Let_def)
qed

lemma switch_survives_restart_witness:
  "let s' = snd (switch_backend ascii_tables no_faults ''b'' None '' VPN '' sample_switcher)
   in \<exists>c. set_backend ascii_tables (sample_env []) (sw_fs s') (default_config\<lparr>cf_backend_file := ''b''\<rparr>) = Inr c \<and>
        cf_backend c = ''amnezia''"
proof -
  let ?r = "switch_backend ascii_tables no_faults ''b'' None '' VPN '' sample_switcher"
  have n: "normalize_backend ascii_tables '' VPN '' = ''amnezia''"
    by code_simp
  have run: "switch_run ascii_tables True sample_switcher"
    unfolding sample_switcher_def by (rule switch_run.start) (auto simp: sample_live_def)
  have "fst ?r = None"
    by (simp add: switch_backend_def n sample_switcher_def sample_live_def)
  then have r: "?r = (None, snd ?r)"
    by (simp add: prod_eq_iff)
  have "backend_of (sw_mux (snd ?r)) = ''amnezia''"
    by (simp add: switch_backend_def n sample_switcher_def sample_live_def backend_of_def)
  moreover have "snd (persist_backend ascii_tables no_faults ''b'' ''amnezia'' (sw_fs sample_switcher)) = None"
    unfolding sample_switcher_def switcher.simps by code_simp
  ultimately show ?thesis
    using switch_survives_restart [OF run r, of "default_config\<lparr>cf_backend_file := ''b''\<rparr>" "sample_env []"] n
    by (simp add: Let_def)
qed

end
