(* ===== verification/Outline_Client.thy ===== *)
theory Outline_Client
  imports Go_Net_Text Config_Key
begin

text \<open>
  \<open>internal/outline/client.go\<close>: the client of the Outline transport - its key, the dialer built
  from it, readiness, the failure threshold, the reconnect loop. The third-party transport and
  the key expansion are parameters: what \<open>expand\<close> returns for a key, whether a dialer can be
  built from an expanded key, the server address of a key, the result of a dial through the
  dialer of a key. A dialer is the expanded key it was built from. Callbacks are recorded in
  order. Times are nanoseconds; every reading of the clock is an argument.
\<close>

section \<open>State and environment\<close>

record dial_error =
  de_timeout :: bool
  de_msg :: string

record outline_env =
  ox_expand :: "string \<Rightarrow> string + string"
  ox_new_dialer :: "string \<Rightarrow> string option"
  ox_server_ip :: "string \<Rightarrow> ip option"
  ox_dial :: "string \<Rightarrow> string \<Rightarrow> dial_error option"

datatype outline_event =
    OnUnready
  | OnExpanded string
  | OnProbe bool
  | OnRefresh "string option" bool
  | OnChange bool

record client =
  oc_key :: string
  oc_base :: int
  oc_max :: int
  oc_probe_addr :: string
  oc_probe_interval :: int
  oc_probe_timeout :: int
  oc_probe_fails :: int
  oc_refresh :: int
  oc_dialer :: "string option"
  oc_server :: "ip option"
  oc_expanded :: string
  oc_ready :: bool
  oc_fails :: "32 word"
  oc_wake :: bool
  oc_slots :: nat
  oc_events :: "outline_event list"

definition max_slots :: nat where
  "max_slots = 8"

record options =
  op_key :: string
  op_base :: int
  op_max :: int
  op_probe_addr :: string
  op_probe_interval :: int
  op_probe_timeout :: int
  op_probe_fails :: int
  op_refresh :: int
  op_last :: string

definition second :: int where
  "second = 1000000000"

section \<open>Construction\<close>

definition new_client :: "outline_env \<Rightarrow> options \<Rightarrow> client option" where
  "new_client E p =
     (if trim_space (op_key p) = [] then None
      else
        let base = (if op_base p \<le> 0 then second else op_base p);
            mx = (if op_max p < base then 60 * second else op_max p);
            fails = (if op_probe_fails p \<le> 0 then 2 else op_probe_fails p);
            interval = (if op_probe_addr p \<noteq> [] \<and> op_probe_interval p \<le> 0 then 30 * second
                        else op_probe_interval p);
            timeout = (if op_probe_addr p \<noteq> [] \<and> op_probe_timeout p \<le> 0 then 8 * second
                       else op_probe_timeout p);
            last = trim_space (op_last p)
        in Some \<lparr>oc_key = op_key p, oc_base = base, oc_max = mx, oc_probe_addr = trim_space (op_probe_addr p),
                 oc_probe_interval = interval, oc_probe_timeout = timeout, oc_probe_fails = fails,
                 oc_refresh = op_refresh p, oc_dialer = None, oc_server = ox_server_ip E (op_key p),
                 oc_expanded = (if has_prefix last ''ss://'' then last else []),
                 oc_ready = False, oc_fails = 0, oc_wake = False, oc_slots = 0, oc_events = []\<rparr>)"

section \<open>Connecting\<close>

definition emit :: "outline_event \<Rightarrow> client \<Rightarrow> client" where
  "emit e c = c\<lparr>oc_events := oc_events c @ [e]\<rparr>"

definition kick :: "client \<Rightarrow> client" where
  "kick c = c\<lparr>oc_wake := True\<rparr>"

definition apply_expanded :: "outline_env \<Rightarrow> string \<Rightarrow> client \<Rightarrow> string option \<times> client" where
  "apply_expanded E key c =
     (case ox_new_dialer E key of
        Some e \<Rightarrow> (Some (''outline dialer: '' @ e), c)
      | None \<Rightarrow>
          (let c1 = c\<lparr>oc_dialer := Some key, oc_expanded := key, oc_server := ox_server_ip E key,
                      oc_fails := 0, oc_ready := True\<rparr>
           in (None, if has_prefix key ''ss://'' then emit (OnExpanded key) c1 else c1)))"

definition connect :: "outline_env \<Rightarrow> client \<Rightarrow> string option \<times> client" where
  "connect E c =
     (case ox_expand E (oc_key c) of
        Inl e \<Rightarrow>
          (let failed = Some (''outline expand key: '' @ e); prev = oc_expanded c in
           if prev \<noteq> [] \<and> has_prefix prev ''ss://'' then
             (case apply_expanded E prev c of
                (Some _, c1) \<Rightarrow> (failed, c1\<lparr>oc_ready := False\<rparr>)
              | (None, c1) \<Rightarrow> (None, c1))
           else (failed, c\<lparr>oc_ready := False\<rparr>))
      | Inr key \<Rightarrow>
          (case apply_expanded E key c of
             (Some e, c1) \<Rightarrow> (Some e, c1\<lparr>oc_ready := False\<rparr>)
           | (None, c1) \<Rightarrow> (None, c1)))"

datatype key_check = KeyRequired | KeyLooksRedacted | KeyWrongScheme

definition validate_key :: "string \<Rightarrow> key_check option" where
  "validate_key k0 =
     (let k = trim_space k0 in
      if k = [] then Some KeyRequired
      else if contains k ''***'' \<or> contains_any k [CHR '' '', CHR 0x09, CHR 0x0D, CHR 0x0A] then Some KeyLooksRedacted
      else if \<not> has_prefix k ''ss://'' \<and> \<not> has_prefix k ''ssconf://'' then Some KeyWrongScheme
      else None)"

datatype set_key_error = KeyRejected key_check | ConnectFailed string

definition set_access_key :: "outline_env \<Rightarrow> string \<Rightarrow> client \<Rightarrow> set_key_error option \<times> client" where
  "set_access_key E key0 c =
     (let key = trim_space key0 in
      case validate_key key of
        Some e \<Rightarrow> (Some (KeyRejected e), c)
      | None \<Rightarrow>
          (case connect E (c\<lparr>oc_key := key, oc_ready := False\<rparr>) of
             (Some e, c1) \<Rightarrow> (Some (ConnectFailed e), kick c1)
           | (None, c1) \<Rightarrow> (None, c1)))"

section \<open>Dialing and counting failures\<close>

definition fail_threshold :: "client \<Rightarrow> int" where
  "fail_threshold c = (if 0 < oc_probe_fails c then oc_probe_fails c else 2)"

definition is_transport_failure :: "client \<Rightarrow> dial_error \<Rightarrow> bool" where
  "is_transport_failure c e =
     (if de_timeout e then True
      else
        let sip = (case oc_server c of None \<Rightarrow> [] | Some a \<Rightarrow> show_ip a) in
        if sip \<noteq> [] \<and> contains (de_msg e) sip then True
        else contains (de_msg e) ''i/o timeout'')"

definition note_tunnel_failure :: "client \<Rightarrow> client" where
  "note_tunnel_failure c =
     (let n = oc_fails c + 1; c1 = c\<lparr>oc_fails := n\<rparr> in
      if fail_threshold c \<le> sint n \<and> oc_ready c then kick (emit OnUnready (c1\<lparr>oc_ready := False\<rparr>)) else c1)"

definition note_dial_result :: "dial_error option \<Rightarrow> client \<Rightarrow> client" where
  "note_dial_result r c =
     (case r of
        None \<Rightarrow> c\<lparr>oc_fails := 0\<rparr>
      | Some e \<Rightarrow> if is_transport_failure c e then note_tunnel_failure c else c)"

text \<open>
  Waiting for a slot: with all slots taken by other dials the call ends with the error of its
  context, a parameter. A dial gives its slot back before it returns.
\<close>

definition not_ready_error :: dial_error where
  "not_ready_error = \<lparr>de_timeout = False, de_msg = ''outline dialer not ready''\<rparr>"

definition deadline_exceeded :: dial_error where
  "deadline_exceeded = \<lparr>de_timeout = True, de_msg = ''context deadline exceeded''\<rparr>"

definition dial_context :: "outline_env \<Rightarrow> dial_error \<Rightarrow> string \<Rightarrow> string \<Rightarrow> client \<Rightarrow> dial_error option \<times> client" where
  "dial_context E ctx network address c =
     (if network \<notin> {''tcp'', ''tcp4'', ''tcp6''} then
        (Some \<lparr>de_timeout = False, de_msg = ''unsupported network''\<rparr>, c)
      else if \<not> oc_ready c then (Some not_ready_error, c)
      else if max_slots \<le> oc_slots c then (Some ctx, c)
      else case oc_dialer c of
        None \<Rightarrow> (Some not_ready_error, c)
      | Some d \<Rightarrow> (let r = ox_dial E d address in (r, note_dial_result r c)))"

definition probe :: "outline_env \<Rightarrow> client \<Rightarrow> dial_error option \<times> client" where
  "probe E c =
     (if oc_probe_addr c = [] then (None, c)
      else
        let (r, c1) = dial_context E deadline_exceeded ''tcp'' (oc_probe_addr c) c;
            c2 = emit (OnProbe (r = None)) c1
        in case r of
             None \<Rightarrow> (None, c2)
           | Some e \<Rightarrow> (Some e, if is_transport_failure c2 e then c2 else note_tunnel_failure c2))"

datatype reconnect_error = RConnect string | RProbe dial_error

definition reconnect :: "outline_env \<Rightarrow> client \<Rightarrow> reconnect_error option \<times> client" where
  "reconnect E c =
     (case connect E (c\<lparr>oc_ready := False, oc_fails := 0\<rparr>) of
        (Some e, c1) \<Rightarrow> (Some (RConnect e), kick c1)
      | (None, c1) \<Rightarrow>
          if oc_probe_addr c1 \<noteq> [] then
            (case probe E c1 of
               (Some e, c2) \<Rightarrow> (Some (RProbe e), kick (c2\<lparr>oc_ready := False\<rparr>))
             | (None, c2) \<Rightarrow> (None, kick c2))
          else (None, kick c1))"

definition is_dynamic_key :: "string \<Rightarrow> bool" where
  "is_dynamic_key s = has_prefix (trim_space s) ''ssconf://''"

definition refresh_if_changed :: "outline_env \<Rightarrow> client \<Rightarrow> bool \<times> client" where
  "refresh_if_changed E c =
     (if \<not> is_dynamic_key (oc_key c) then (False, c)
      else case ox_expand E (oc_key c) of
        Inl e \<Rightarrow> (False, emit (OnRefresh (Some e) False) c)
      | Inr expanded \<Rightarrow>
          if expanded = oc_expanded c then (False, emit (OnRefresh None False) c)
          else case apply_expanded E expanded c of
            (Some e, c1) \<Rightarrow> (False, emit (OnRefresh (Some e) False) c1)
          | (None, c1) \<Rightarrow> (True, emit (OnRefresh None True) c1))"

section \<open>MaintainReady\<close>

text \<open>The variables of the loop; \<open>None\<close> is the zero time.\<close>

record loop_state =
  lp_delay :: int
  lp_probe :: "int option"
  lp_refresh :: "int option"
  lp_immediate :: bool

definition start_loop :: "client \<Rightarrow> loop_state" where
  "start_loop c =
     \<lparr>lp_delay = oc_base c, lp_probe = None, lp_refresh = None, lp_immediate = oc_probe_addr c \<noteq> []\<rparr>"

datatype loop_exit = Again | WaitFor int

definition next_wake :: "client \<Rightarrow> int \<Rightarrow> int \<Rightarrow> int \<Rightarrow> int" where
  "next_wake c now last_probe last_refresh =
     (let w0 = 5 * second;
          d1 = oc_probe_interval c - (now - last_probe);
          w1 = (if oc_probe_addr c \<noteq> [] \<and> 0 < oc_probe_interval c \<and> d1 < w0 then (if d1 < 0 then 0 else d1) else w0);
          d2 = oc_refresh c - (now - last_refresh);
          w2 = (if 0 < oc_refresh c \<and> d2 < w1 then (if d2 < 0 then 0 else d2) else w1)
      in if w2 < 10000000 then 10000000 else w2)"

definition double_delay :: "client \<Rightarrow> int \<Rightarrow> int" where
  "double_delay c d = (if oc_max c < d * 2 then oc_max c else d * 2)"

text \<open>A failed round of the not-ready branch: tell the callback, wait, double the delay.\<close>

definition back_off :: "client \<Rightarrow> loop_state \<Rightarrow> loop_exit \<times> client \<times> loop_state" where
  "back_off c l = (WaitFor (lp_delay l), emit (OnChange False) c, l\<lparr>lp_delay := double_delay c (lp_delay l)\<rparr>)"

text \<open>
  The periodic part in its three pieces: the clocks that are still zero start now; the refresh,
  when it is due; the probe, when it is due. The flag says the round \<open>continue\<close>s at once.
\<close>

definition start_clocks :: "int \<Rightarrow> loop_state \<Rightarrow> loop_state" where
  "start_clocks now l =
     l\<lparr>lp_refresh := (case lp_refresh l of None \<Rightarrow> Some now | Some t \<Rightarrow> Some t),
       lp_probe := (case lp_probe l of None \<Rightarrow> Some now | Some t \<Rightarrow> Some t)\<rparr>"

definition refresh_tick :: "outline_env \<Rightarrow> int \<Rightarrow> client \<Rightarrow> loop_state \<Rightarrow> bool \<times> client \<times> loop_state" where
  "refresh_tick E now c l =
     (if 0 < oc_refresh c \<and> oc_refresh c \<le> now - the (lp_refresh l) then
        (let l1 = l\<lparr>lp_refresh := Some now\<rparr> in
         case refresh_if_changed E c of
           (False, c1) \<Rightarrow> (False, c1, l1)
         | (True, c1) \<Rightarrow>
             (let (r, c2) = (if oc_probe_addr c1 \<noteq> [] then probe E c1 else (None, c1)) in
              if r \<noteq> None \<and> \<not> oc_ready c2 then (True, emit (OnChange False) c2, l1)
              else (False, if oc_ready c2 then emit (OnChange True) c2 else c2, l1)))
      else (False, c, l))"

definition probe_tick :: "outline_env \<Rightarrow> int \<Rightarrow> client \<Rightarrow> loop_state \<Rightarrow> bool \<times> client \<times> loop_state" where
  "probe_tick E now c l =
     (if oc_probe_addr c \<noteq> [] \<and> 0 < oc_probe_interval c \<and> oc_probe_interval c \<le> now - the (lp_probe l) then
        (let l1 = l\<lparr>lp_probe := Some now\<rparr>; (r, c1) = probe E c in
         if r \<noteq> None \<and> \<not> oc_ready c1 then (True, emit (OnChange False) c1, l1) else (False, c1, l1))
      else (False, c, l))"

definition periodic :: "outline_env \<Rightarrow> int \<Rightarrow> int \<Rightarrow> client \<Rightarrow> loop_state \<Rightarrow> loop_exit \<times> client \<times> loop_state" where
  "periodic E now wake_now c l =
     (case refresh_tick E now c (start_clocks now l) of
        (True, c1, l1) \<Rightarrow> (Again, c1, l1)
      | (False, c1, l1) \<Rightarrow>
          (case probe_tick E now c1 l1 of
             (True, c2, l2) \<Rightarrow> (Again, c2, l2)
           | (False, c2, l2) \<Rightarrow> (WaitFor (next_wake c2 wake_now (the (lp_probe l2)) (the (lp_refresh l2))), c2, l2)))"

text \<open>
  One round of the loop up to its wait or \<open>continue\<close>. The three clock readings are the one
  after a reconnect or an immediate probe, the one of the periodic part, the one of nextWake.
\<close>

definition maintain_round ::
  "outline_env \<Rightarrow> int \<times> int \<times> int \<Rightarrow> client \<Rightarrow> loop_state \<Rightarrow> loop_exit \<times> client \<times> loop_state" where
  "maintain_round E clocks c l =
     (case clocks of (t1, t2, t3) \<Rightarrow>
        if \<not> oc_ready c then
          (case connect E c of
             (Some e, c1) \<Rightarrow> back_off c1 l
           | (None, c1) \<Rightarrow>
               (let (r, c2) = (if oc_probe_addr c1 \<noteq> [] then probe E c1 else (None, c1)) in
                case r of
                  Some e \<Rightarrow> back_off (c2\<lparr>oc_ready := False\<rparr>) l
                | None \<Rightarrow>
                    periodic E t2 t3 (emit (OnChange True) c2)
                      \<lparr>lp_delay = oc_base c2, lp_probe = Some t1, lp_refresh = Some t1, lp_immediate = False\<rparr>))
        else if lp_immediate l then
          (let l1 = l\<lparr>lp_immediate := False, lp_probe := Some t1\<rparr>; (r, c1) = probe E c in
           if r \<noteq> None \<and> \<not> oc_ready c1 then (Again, emit (OnChange False) c1, l1)
           else periodic E t2 t3 c1 l1)
        else periodic E t2 t3 c l)"

text \<open>
  \<open>wait\<close>: a duration that is not positive does not wait; otherwise the timer fires or a pending
  wake-up is consumed.
\<close>

definition wait_over :: "int \<Rightarrow> bool \<Rightarrow> client \<Rightarrow> client" where
  "wait_over d timer c = (if d \<le> 0 \<or> timer \<or> \<not> oc_wake c then c else c\<lparr>oc_wake := False\<rparr>)"

text \<open>Rounds one after the other, the timer ending every wait: what each round ended with.\<close>

fun maintain_rounds ::
  "outline_env \<Rightarrow> (int \<times> int \<times> int) list \<Rightarrow> client \<Rightarrow> loop_state \<Rightarrow> loop_exit list \<times> client \<times> loop_state" where
  "maintain_rounds E [] c l = ([], c, l)"
| "maintain_rounds E (t # ts) c l =
     (let (x, c1, l1) = maintain_round E t c l; (xs, c2, l2) = maintain_rounds E ts c1 l1 in (x # xs, c2, l2))"

section \<open>Dials in flight, and the steps of the program\<close>

text \<open>
  A dial that takes its slot, and later returns with a result. Between the two, any other
  operation may run: \<open>end_dial\<close> counts against the state it finds.
\<close>

definition begin_dial :: "client \<Rightarrow> client" where
  "begin_dial c =
     (if oc_ready c \<and> oc_slots c < max_slots \<and> oc_dialer c \<noteq> None then c\<lparr>oc_slots := oc_slots c + 1\<rparr> else c)"

definition end_dial :: "dial_error option \<Rightarrow> client \<Rightarrow> client" where
  "end_dial r c = (if oc_slots c = 0 then c else (note_dial_result r c)\<lparr>oc_slots := oc_slots c - 1\<rparr>)"

datatype client_op =
    SetKey string
  | Reconnect
  | Dial string string
  | BeginDial
  | EndDial "dial_error option"
  | Probe

fun client_call :: "outline_env \<Rightarrow> client_op \<Rightarrow> client \<Rightarrow> client" where
  "client_call E (SetKey k) c = snd (set_access_key E k c)"
| "client_call E Reconnect c = snd (reconnect E c)"
| "client_call E (Dial n a) c = snd (dial_context E deadline_exceeded n a c)"
| "client_call E BeginDial c = begin_dial c"
| "client_call E (EndDial r) c = end_dial r c"
| "client_call E Probe c = snd (probe E c)"

inductive client_run :: "outline_env \<Rightarrow> options \<Rightarrow> client \<times> loop_state \<Rightarrow> bool" for E p where
  start: "new_client E p = Some c \<Longrightarrow> client_run E p (c, start_loop c)"
| call: "client_run E p (c, l) \<Longrightarrow> client_run E p (client_call E f c, l)"
| round: "client_run E p (c, l) \<Longrightarrow> maintain_round E t c l = (x, c1, l1) \<Longrightarrow> client_run E p (c1, l1)"
| waited: "client_run E p (c, l) \<Longrightarrow> client_run E p (wait_over d timer c, l)"

section \<open>What every operation keeps\<close>

text \<open>
  What the callbacks and the failure counter keep, every dial and every probe keeps; what
  moreover a new key, a new dialer and the clearing of readiness keep, every operation and every
  round of the loop keeps.
\<close>

locale kept_by_dials =
  fixes E :: outline_env and P :: "client \<Rightarrow> bool"
  assumes emit_kept: "P c \<Longrightarrow> P (emit e c)"
    and failure_kept: "P c \<Longrightarrow> P (note_tunnel_failure c)"
    and success_kept: "P c \<Longrightarrow> P (c\<lparr>oc_fails := 0\<rparr>)"
begin

lemma result_kept: "P c \<Longrightarrow> P (note_dial_result r c)"
  by (simp add: note_dial_result_def failure_kept success_kept split: option.split)

lemma dial_kept: "P c \<Longrightarrow> P (snd (dial_context E ctx n a c))"
  by (simp add: dial_context_def Let_def result_kept split: option.split)

lemma probe_kept: "P c \<Longrightarrow> P (snd (probe E c))"
  by (simp add: probe_def case_prod_beta Let_def emit_kept dial_kept failure_kept split: option.split)

end

locale kept_by_client = kept_by_dials +
  assumes kick_kept: "P c \<Longrightarrow> P (kick c)"
    and unready_kept: "P c \<Longrightarrow> P (c\<lparr>oc_ready := False\<rparr>)"
    and unready_reset_kept: "P c \<Longrightarrow> P (c\<lparr>oc_ready := False, oc_fails := 0\<rparr>)"
    and key_kept: "P c \<Longrightarrow> P (c\<lparr>oc_key := k, oc_ready := False\<rparr>)"
    and apply_kept: "P c \<Longrightarrow> P (snd (apply_expanded E key c))"
begin

lemma connect_kept: "P c \<Longrightarrow> P (snd (connect E c))"
  using apply_kept [of c] apply_kept [THEN unready_kept, of c]
  by (simp add: connect_def case_prod_beta Let_def unready_kept split: sum.split option.split)

lemma set_key_kept: "P c \<Longrightarrow> P (snd (set_access_key E k c))"
  using connect_kept [OF key_kept [of c "trim_space k"]]
  by (simp add: set_access_key_def case_prod_beta Let_def kick_kept split: option.split)

lemma reconnect_kept: "P c \<Longrightarrow> P (snd (reconnect E c))"
  using connect_kept [OF unready_reset_kept [of c]]
  by (simp add: reconnect_def case_prod_beta Let_def kick_kept unready_kept probe_kept split: option.split)

lemma refresh_kept: "P c \<Longrightarrow> P (snd (refresh_if_changed E c))"
  by (simp add: refresh_if_changed_def case_prod_beta Let_def emit_kept apply_kept split: sum.split option.split)

lemma refresh_tick_kept: "P c \<Longrightarrow> P (fst (snd (refresh_tick E now c l)))"
  by (simp add: refresh_tick_def case_prod_beta Let_def emit_kept refresh_kept probe_kept split: bool.split)

lemma probe_tick_kept: "P c \<Longrightarrow> P (fst (snd (probe_tick E now c l)))"
  by (simp add: probe_tick_def case_prod_beta Let_def emit_kept probe_kept)

lemma periodic_kept: "P c \<Longrightarrow> P (fst (snd (periodic E now w c l)))"
  by (simp add: periodic_def case_prod_beta refresh_tick_kept probe_tick_kept split: bool.split)

lemma round_kept: "P c \<Longrightarrow> P (fst (snd (maintain_round E t c l)))"
  by (simp add: maintain_round_def back_off_def case_prod_beta Let_def emit_kept unready_kept connect_kept
      probe_kept periodic_kept split: option.split)

lemma rounds_kept: "P c \<Longrightarrow> P (fst (snd (maintain_rounds E ts c l)))"
  by (induction ts arbitrary: c l) (simp_all add: case_prod_beta Let_def round_kept)

end

section \<open>The settings never change, the slots belong to the dials\<close>

definition settings :: "client \<Rightarrow> int \<times> int \<times> string \<times> int \<times> int \<times> int \<times> int" where
  "settings c =
     (oc_base c, oc_max c, oc_probe_addr c, oc_probe_interval c, oc_probe_timeout c, oc_probe_fails c, oc_refresh c)"

lemma settings_eq_iff:
  "settings c = settings d \<longleftrightarrow>
     oc_base c = oc_base d \<and> oc_max c = oc_max d \<and> oc_probe_addr c = oc_probe_addr d \<and>
     oc_probe_interval c = oc_probe_interval d \<and> oc_probe_timeout c = oc_probe_timeout d \<and>
     oc_probe_fails c = oc_probe_fails d \<and> oc_refresh c = oc_refresh d"
  by (simp add: settings_def)

interpretation fixed: kept_by_client E "\<lambda>c. settings c = s \<and> oc_slots c = n" for E s n
  by unfold_locales
    (auto simp: settings_def emit_def kick_def apply_expanded_def note_tunnel_failure_def Let_def split: option.split)

lemma threshold_of_settings: "settings c = settings d \<Longrightarrow> fail_threshold c = fail_threshold d"
  by (simp add: settings_eq_iff fail_threshold_def)

lemma threshold_pos [simp]: "0 < fail_threshold c"
  by (simp add: fail_threshold_def)

section \<open>A ready client has the dialer of its key and is below the threshold\<close>

definition client_ok :: "client \<Rightarrow> bool" where
  "client_ok c \<longleftrightarrow>
     (oc_ready c \<longrightarrow> oc_dialer c = Some (oc_expanded c) \<and> sint (oc_fails c) < fail_threshold c)"

interpretation serving: kept_by_client E client_ok for E
  by unfold_locales
    (auto simp: client_ok_def emit_def kick_def apply_expanded_def note_tunnel_failure_def fail_threshold_def Let_def
      split: option.split)

lemma new_client_fields:
  assumes "new_client E p = Some c"
  shows "\<not> oc_ready c" and "oc_slots c = 0" and "oc_fails c = 0"
    and "oc_base c = (if op_base p \<le> 0 then second else op_base p)"
    and "oc_max c = (if op_max p < oc_base c then 60 * second else op_max p)"
    and "oc_probe_fails c = (if op_probe_fails p \<le> 0 then 2 else op_probe_fails p)"
proof -
  have "trim_space (op_key p) \<noteq> []" and c: "c = the (new_client E p)"
    using assms by (auto simp: new_client_def)
  then show "\<not> oc_ready c" "oc_slots c = 0" "oc_fails c = 0"
    "oc_base c = (if op_base p \<le> 0 then second else op_base p)"
    "oc_max c = (if op_max p < oc_base c then 60 * second else op_max p)"
    "oc_probe_fails c = (if op_probe_fails p \<le> 0 then 2 else op_probe_fails p)"
    unfolding c by (simp_all add: new_client_def Let_def cong: if_cong)
qed

lemma new_client_ok:
  assumes "new_client E p = Some c"
  shows "client_ok c \<and> oc_slots c = 0 \<and> 0 < oc_base c \<and> 0 < oc_max c"
proof -
  have "0 < oc_base c"
    by (simp add: new_client_fields(4) [OF assms] second_def)
  then show ?thesis
    using new_client_fields(1,2,5) [OF assms] by (simp add: client_ok_def second_def)
qed

lemma client_ok_slots [simp]: "client_ok (c\<lparr>oc_slots := n\<rparr>) = client_ok c"
  by (simp add: client_ok_def fail_threshold_def)

lemma end_dial_ok: "client_ok c \<Longrightarrow> client_ok (end_dial r c)"
  by (cases r) (simp_all add: end_dial_def note_dial_result_def serving.success_kept serving.failure_kept)

lemma end_dial_settings: "settings (end_dial r c) = settings c"
  by (simp add: end_dial_def note_dial_result_def note_tunnel_failure_def settings_def kick_def emit_def Let_def
      split: option.split)

lemma call_ok: "client_ok c \<Longrightarrow> client_ok (client_call E f c)"
  by (cases f)
    (simp_all add: serving.set_key_kept serving.reconnect_kept serving.dial_kept serving.probe_kept end_dial_ok,
     simp add: begin_dial_def)

lemma call_settings: "settings (client_call E f c) = settings c"
  using fixed.set_key_kept [of c "settings c" "oc_slots c" E] fixed.reconnect_kept [of c "settings c" "oc_slots c" E]
    fixed.dial_kept [of c "settings c" "oc_slots c" E] fixed.probe_kept [of c "settings c" "oc_slots c" E]
  by (cases f) (simp_all add: end_dial_settings, simp add: begin_dial_def settings_def)

lemma call_slots:
  assumes "oc_slots c \<le> max_slots"
  shows "oc_slots (client_call E f c) \<le> max_slots"
  using assms fixed.set_key_kept [of c "settings c" "oc_slots c" E]
    fixed.reconnect_kept [of c "settings c" "oc_slots c" E] fixed.dial_kept [of c "settings c" "oc_slots c" E]
    fixed.probe_kept [of c "settings c" "oc_slots c" E]
  by (cases f) (simp_all, auto simp: begin_dial_def end_dial_def)

section \<open>The delays of the loop\<close>

definition delay_ok :: "client \<Rightarrow> int \<Rightarrow> bool" where
  "delay_ok c d \<longleftrightarrow> 0 < d \<and> min (oc_base c) (oc_max c) \<le> d \<and> d \<le> max (oc_base c) (oc_max c)"

lemma delay_ok_settings: "settings c = settings d \<Longrightarrow> delay_ok c = delay_ok d"
  by (auto simp: settings_eq_iff delay_ok_def fun_eq_iff)

lemma double_delay_ok: "delay_ok c d \<Longrightarrow> 0 < oc_max c \<Longrightarrow> delay_ok c (double_delay c d)"
  by (auto simp: delay_ok_def double_delay_def)

lemma next_wake_bounds: "10000000 \<le> next_wake c now a b \<and> next_wake c now a b \<le> 5 * second"
  by (simp add: next_wake_def second_def Let_def)

lemma refresh_tick_delay [simp]: "lp_delay (snd (snd (refresh_tick E now c l))) = lp_delay l"
  by (simp add: refresh_tick_def case_prod_beta Let_def split: bool.split)

lemma probe_tick_delay [simp]: "lp_delay (snd (snd (probe_tick E now c l))) = lp_delay l"
  by (simp add: probe_tick_def case_prod_beta Let_def)

lemma start_clocks_delay [simp]: "lp_delay (start_clocks now l) = lp_delay l"
  by (simp add: start_clocks_def)

lemma periodic_delay [simp]: "lp_delay (snd (snd (periodic E now w c l))) = lp_delay l"
  by (simp add: periodic_def case_prod_beta split: bool.split)

lemma refresh_again: "fst (refresh_tick E now c l) \<Longrightarrow> \<not> oc_ready (fst (snd (refresh_tick E now c l)))"
  by (auto simp: refresh_tick_def case_prod_beta Let_def emit_def split: if_splits bool.splits)

lemma probe_again: "fst (probe_tick E now c l) \<Longrightarrow> \<not> oc_ready (fst (snd (probe_tick E now c l)))"
  by (auto simp: probe_tick_def case_prod_beta Let_def emit_def split: if_splits)

lemma periodic_exit:
  "case fst (periodic E now w c l) of
     Again \<Rightarrow> \<not> oc_ready (fst (snd (periodic E now w c l)))
   | WaitFor d \<Rightarrow> 10000000 \<le> d \<and> d \<le> 5 * second"
  using refresh_again [of E now c "start_clocks now l"]
    probe_again [of E now "fst (snd (refresh_tick E now c (start_clocks now l)))"
      "snd (snd (refresh_tick E now c (start_clocks now l)))"]
  by (simp add: periodic_def case_prod_beta next_wake_bounds split: bool.split)

definition exit_ok :: "client \<Rightarrow> loop_exit \<Rightarrow> client \<Rightarrow> bool" where
  "exit_ok c x c1 \<longleftrightarrow>
     (case x of Again \<Rightarrow> \<not> oc_ready c1
      | WaitFor d \<Rightarrow> delay_ok c d \<or> (10000000 \<le> d \<and> d \<le> 5 * second))"

lemma round_settings: "settings (fst (snd (maintain_round E t c l))) = settings c"
  using fixed.round_kept [of c "settings c" "oc_slots c" E t l] by simp

lemma connect_settings [simp]: "settings (snd (connect E c)) = settings c"
  using fixed.connect_kept [of c "settings c" "oc_slots c" E] by simp

lemma probe_settings [simp]: "settings (snd (probe E c)) = settings c"
  using fixed.probe_kept [of c "settings c" "oc_slots c" E] by simp

lemma setting_fields:
  assumes "settings c = settings d"
  shows "oc_base c = oc_base d" "oc_max c = oc_max d" "oc_probe_addr c = oc_probe_addr d"
    "oc_probe_interval c = oc_probe_interval d" "oc_refresh c = oc_refresh d"
  using assms by (simp_all add: settings_eq_iff)

lemmas after_connect = setting_fields [OF connect_settings]

lemmas after_probe = setting_fields [OF probe_settings]

lemma double_delay_settings: "settings c = settings d \<Longrightarrow> double_delay c = double_delay d"
  by (simp add: settings_eq_iff double_delay_def fun_eq_iff)

lemma round_exit:
  assumes "delay_ok c (lp_delay l)" "0 < oc_max c" "0 < oc_base c"
  shows "exit_ok c (fst (maintain_round E t c l)) (fst (snd (maintain_round E t c l)))"
    and "delay_ok c (lp_delay (snd (snd (maintain_round E t c l))))"
proof -
  have p: "exit_ok c (fst (periodic E n w d m)) (fst (snd (periodic E n w d m)))" for n w d m
    using periodic_exit [of E n w d m] by (auto simp: exit_ok_def split: loop_exit.splits)
  have b: "exit_ok c (WaitFor (lp_delay l)) d" "delay_ok c (double_delay c (lp_delay l))" "delay_ok c (oc_base c)" for d
    using assms double_delay_ok by (auto simp: exit_ok_def delay_ok_def [of _ "oc_base c"])
  have s: "double_delay (snd (connect E c)) = double_delay c"
    "double_delay (snd (probe E (snd (connect E c)))\<lparr>oc_ready := False\<rparr>) = double_delay c"
    by (rule double_delay_settings, simp)
      (simp add: double_delay_def fun_eq_iff after_connect after_probe)
  have r: "exit_ok c Again d" if "\<not> oc_ready d" for d
    using that by (simp add: exit_ok_def)
  show "exit_ok c (fst (maintain_round E t c l)) (fst (snd (maintain_round E t c l)))"
    by (simp add: maintain_round_def back_off_def case_prod_beta Let_def p b r emit_def split: option.split)
  show "delay_ok c (lp_delay (snd (snd (maintain_round E t c l))))"
    by (simp add: maintain_round_def back_off_def case_prod_beta Let_def assms(1) b s after_connect after_probe
        split: option.split)
qed

definition run_inv :: "client \<Rightarrow> client \<times> loop_state \<Rightarrow> bool" where
  "run_inv c0 s \<longleftrightarrow>
     client_ok (fst s) \<and> oc_slots (fst s) \<le> max_slots \<and> settings (fst s) = settings c0 \<and>
     0 < oc_base c0 \<and> 0 < oc_max c0 \<and> delay_ok c0 (lp_delay (snd s))"

lemma run_inv_start: "new_client E p = Some c \<Longrightarrow> run_inv c (c, start_loop c)"
  using new_client_ok [of E p c] by (auto simp: run_inv_def start_loop_def delay_ok_def)

lemma run_inv_call: "run_inv c0 (c, l) \<Longrightarrow> run_inv c0 (client_call E f c, l)"
  by (simp add: run_inv_def call_ok call_settings call_slots)

lemma run_inv_round:
  assumes "run_inv c0 (c, l)" "maintain_round E t c l = (x, c1, l1)"
  shows "run_inv c0 (c1, l1) \<and> exit_ok c0 x c1"
proof -
  have i: "client_ok c" "oc_slots c \<le> max_slots" "settings c = settings c0" "0 < oc_base c" "0 < oc_max c"
    "delay_ok c (lp_delay l)"
    using assms(1) by (auto simp: run_inv_def settings_eq_iff delay_ok_def)
  have "settings c1 = settings c \<and> oc_slots c1 = oc_slots c"
    using fixed.round_kept [of c "settings c" "oc_slots c" E t l] assms(2) by simp
  moreover have "client_ok c1"
    using serving.round_kept [of c E t l] i(1) assms(2) by simp
  moreover have "exit_ok c x c1" "delay_ok c (lp_delay l1)"
    using round_exit [OF i(6,5,4), of E t] assms(2) by simp_all
  moreover have "exit_ok c x c1 = exit_ok c0 x c1"
    using delay_ok_settings [OF i(3)] by (simp add: exit_ok_def split: loop_exit.split)
  ultimately show ?thesis
    using assms(1) i delay_ok_settings [OF i(3)] by (simp add: run_inv_def)
qed

lemma run_inv_wait: "run_inv c0 (c, l) \<Longrightarrow> run_inv c0 (wait_over d timer c, l)"
  by (auto simp: run_inv_def wait_over_def settings_def client_ok_def fail_threshold_def)

lemma run_invariant:
  assumes "client_run E p s"
  shows "\<exists>c0. new_client E p = Some c0 \<and> run_inv c0 s"
  using assms
proof induction
  case (round c l t x c1 l1)
  then show ?case using run_inv_round by blast
qed (auto intro: run_inv_start run_inv_call run_inv_wait)

section \<open>Properties\<close>

text \<open>An environment for concrete runs: static keys expand to themselves, dynamic ones cannot be fetched.\<close>

definition sample_outline :: outline_env where
  "sample_outline =
     \<lparr>ox_expand = (\<lambda>k. if has_prefix k ''ss://'' then Inr k else Inl ''no such host''),
      ox_new_dialer = (\<lambda>k. None), ox_server_ip = (\<lambda>k. None),
      ox_dial = (\<lambda>d a. if a = ''1.1.1.1:443'' then Some deadline_exceeded else None)\<rparr>"

definition sample_options :: options where
  "sample_options =
     \<lparr>op_key = ''ss://k@192.0.2.1:8388'', op_base = 0, op_max = 0, op_probe_addr = [], op_probe_interval = 0,
      op_probe_timeout = 0, op_probe_fails = 0, op_refresh = 0, op_last = []\<rparr>"



lemma sint_of_nat32: "n < 2 ^ 31 \<Longrightarrow> sint (word_of_nat n :: 32 word) = int n"
  by (simp add: signed_of_nat signed_take_bit_int_eq_self)

lemma failures_in_a_row:
  assumes "oc_ready c" "oc_fails c = 0" "n < 2 ^ 31"
  shows "(note_tunnel_failure ^^ n) c =
    (if int n < fail_threshold c then c\<lparr>oc_fails := word_of_nat n\<rparr>
     else c\<lparr>oc_fails := word_of_nat n, oc_ready := False, oc_wake := True, oc_events := oc_events c @ [OnUnready]\<rparr>)"
  using assms(3)
proof (induction n)
  case (Suc n)
  have "word_of_nat n + 1 = (word_of_nat (Suc n) :: 32 word)"
    by simp
  moreover have "fail_threshold (c\<lparr>oc_fails := w, oc_ready := b, oc_wake := v, oc_events := es\<rparr>) = fail_threshold c"
    "fail_threshold (c\<lparr>oc_fails := w\<rparr>) = fail_threshold c" for w b v es
    by (simp_all add: fail_threshold_def)
  ultimately show ?case
    using Suc sint_of_nat32 [of "Suc n"] assms(1)
    by (simp add: note_tunnel_failure_def Let_def kick_def emit_def del: of_nat_Suc)
qed (use assms in simp)

lemma failure_same_server: "is_transport_failure (note_tunnel_failure c) = is_transport_failure c"
  by (simp add: fun_eq_iff is_transport_failure_def note_tunnel_failure_def Let_def kick_def emit_def)

lemma fold_failures:
  "\<forall>e \<in> set es. is_transport_failure c e \<Longrightarrow>
     fold (\<lambda>e. note_dial_result (Some e)) es c = (note_tunnel_failure ^^ List.length es) c"
  by (induction es arbitrary: c) (simp_all add: note_dial_result_def failure_same_server funpow_swap1)

text \<open>
  The failure threshold is exact: on a ready client whose counter is zero, transport failures
  in a row leave it ready while they are fewer than the threshold; the one that reaches it makes
  the client not ready, runs \<open>OnUnready\<close> and wakes the loop; further failures of dials that were
  in flight change neither, so \<open>OnUnready\<close> runs once.
\<close>
theorem failures_flip_once:
  assumes "oc_ready c" "oc_fails c = 0" "List.length es < 2 ^ 31"
    "\<forall>e \<in> set es. is_transport_failure c e"
  shows "let c1 = fold (\<lambda>e. note_dial_result (Some e)) es c in
    (if int (List.length es) < fail_threshold c
     then oc_ready c1 \<and> oc_events c1 = oc_events c \<and> oc_wake c1 = oc_wake c
     else \<not> oc_ready c1 \<and> oc_events c1 = oc_events c @ [OnUnready] \<and> oc_wake c1)"
  using assms by (simp add: fold_failures failures_in_a_row Let_def)

definition sample_client :: client where
  "sample_client =
     \<lparr>oc_key = ''ss://k@192.0.2.1:8388'', oc_base = second, oc_max = 4 * second, oc_probe_addr = ''1.1.1.1:443'',
      oc_probe_interval = 30 * second, oc_probe_timeout = 8 * second, oc_probe_fails = 2, oc_refresh = 0,
      oc_dialer = Some ''ss://k@192.0.2.1:8388'', oc_server = None, oc_expanded = ''ss://k@192.0.2.1:8388'',
      oc_ready = True, oc_fails = 0, oc_wake = False, oc_slots = 0, oc_events = []\<rparr>"

lemma failures_flip_once_witness:
  "oc_events (fold (\<lambda>e. note_dial_result (Some e)) [deadline_exceeded, deadline_exceeded, deadline_exceeded] sample_client)
     = [OnUnready]"
  using failures_flip_once [of sample_client "[deadline_exceeded, deadline_exceeded, deadline_exceeded]"]
  by (simp add: sample_client_def is_transport_failure_def deadline_exceeded_def fail_threshold_def Let_def)

section \<open>Losing readiness wakes the loop\<close>

interpretation waking: kept_by_dials E "\<lambda>c. oc_ready c \<or> oc_wake c" for E
  by unfold_locales (auto simp: emit_def note_tunnel_failure_def kick_def Let_def)

lemma connect_ready: "fst (connect E c) = None \<Longrightarrow> oc_ready (snd (connect E c))"
  by (auto simp: connect_def apply_expanded_def emit_def Let_def split: sum.splits option.splits if_splits)

text \<open>
  Whenever a call - a new key, a reconnect, a dial, a probe, the late result of a dial in
  flight - turns a ready client not ready, it leaves a wake-up pending, so the reconnect loop
  does not sleep out its interval.
\<close>
theorem lost_readiness_wakes:
  assumes "oc_ready c" "\<not> oc_ready (client_call E f c)"
  shows "oc_wake (client_call E f c)"
proof (cases f)
  case (SetKey k)
  then show ?thesis
    using assms connect_ready [of E "c\<lparr>oc_key := trim_space k, oc_ready := False\<rparr>"]
    by (auto simp: set_access_key_def Let_def kick_def case_prod_beta split: option.splits)
next
  case Reconnect
  then show ?thesis
    by (simp add: reconnect_def Let_def kick_def case_prod_beta split: option.split)
next
  case (EndDial r)
  then show ?thesis
    using assms waking.result_kept [of c r] by (auto simp: end_dial_def split: if_splits)
qed (use assms waking.dial_kept [of c E] waking.probe_kept [of c E] in \<open>auto simp: begin_dial_def split: if_splits\<close>)

lemma lost_readiness_wakes_witness:
  "\<not> oc_ready (client_call sample_outline Probe (sample_client\<lparr>oc_fails := 1\<rparr>)) \<and>
   oc_wake (client_call sample_outline Probe (sample_client\<lparr>oc_fails := 1\<rparr>))"
proof -
  have "oc_ready (sample_client\<lparr>oc_fails := 1\<rparr>)"
    "\<not> oc_ready (client_call sample_outline Probe (sample_client\<lparr>oc_fails := 1\<rparr>))"
    by code_simp+
  then show ?thesis
    using lost_readiness_wakes by blast
qed

section \<open>A new key whose expansion fails\<close>

text \<open>
  When a client has been serving a static key and is given a new dynamic key that cannot be
  fetched, \<open>SetAccessKey\<close> reports success: \<open>Connect\<close> falls back to the static key of the old
  access key, so the client is ready, dials through the old server, and hands the old static key
  to \<open>OnExpanded\<close>, which persists it as the expansion of the new key.
\<close>
theorem new_key_falls_back_to_old_server:
  assumes "validate_key (trim_space k) = None" "ox_expand E (trim_space k) = Inl e"
    and "has_prefix (oc_expanded c) ''ss://''" "ox_new_dialer E (oc_expanded c) = None"
  shows "fst (set_access_key E k c) = None \<and>
    (let c1 = snd (set_access_key E k c) in
      oc_ready c1 \<and> oc_key c1 = trim_space k \<and> oc_dialer c1 = Some (oc_expanded c) \<and>
      oc_expanded c1 = oc_expanded c \<and> oc_events c1 = oc_events c @ [OnExpanded (oc_expanded c)])"
proof -
  have "oc_expanded c \<noteq> []"
    using assms(3) by (auto simp: has_prefix_def)
  then show ?thesis
    using assms by (simp add: set_access_key_def connect_def apply_expanded_def emit_def Let_def)
qed

lemma new_key_falls_back_to_old_server_witness:
  "fst (set_access_key sample_outline ''ssconf://new.example/key'' sample_client) = None \<and>
   oc_dialer (snd (set_access_key sample_outline ''ssconf://new.example/key'' sample_client)) = Some ''ss://k@192.0.2.1:8388''"
proof -
  have "validate_key (trim_space ''ssconf://new.example/key'') = None"
    "ox_expand sample_outline (trim_space ''ssconf://new.example/key'') = Inl ''no such host''"
    "has_prefix (oc_expanded sample_client) ''ss://''" "ox_new_dialer sample_outline (oc_expanded sample_client) = None"
    by code_simp+
  note new_key_falls_back_to_old_server [OF this]
  then show ?thesis
    by (simp add: Let_def sample_client_def)
qed

section \<open>Probes without a slot\<close>

text \<open>
  While other dials hold all eight slots, a probe of a ready client ends with the deadline of
  its context, and that error is never counted: however many probes fail this way, the failure
  counter and readiness do not move.
\<close>
theorem starved_probes_not_counted:
  assumes "oc_ready c" "oc_slots c = 8" "oc_probe_addr c \<noteq> []"
  shows "fst (probe E c) = Some deadline_exceeded \<and>
    ((\<lambda>d. snd (probe E d)) ^^ n) c = c\<lparr>oc_events := oc_events c @ replicate n (OnProbe False)\<rparr>"
proof -
  have p: "probe E (c\<lparr>oc_events := es\<rparr>) = (Some deadline_exceeded, c\<lparr>oc_events := es @ [OnProbe False]\<rparr>)" for es
    using assms by (simp add: probe_def dial_context_def emit_def max_slots_def is_transport_failure_def
      deadline_exceeded_def Let_def)
  have "((\<lambda>d. snd (probe E d)) ^^ n) (c\<lparr>oc_events := es\<rparr>) =
      c\<lparr>oc_events := es @ replicate n (OnProbe False)\<rparr>" for es
    by (induction n arbitrary: es) (simp_all add: funpow_swap1 p replicate_append_same)
  from this [of "oc_events c"] p [of "oc_events c"] show ?thesis
    by simp
qed

lemma starved_probes_not_counted_witness:
  "oc_fails (((\<lambda>d. snd (probe sample_outline d)) ^^ 100) (sample_client\<lparr>oc_slots := 8\<rparr>)) = 0 \<and>
   oc_ready (((\<lambda>d. snd (probe sample_outline d)) ^^ 100) (sample_client\<lparr>oc_slots := 8\<rparr>))"
  using starved_probes_not_counted [of "sample_client\<lparr>oc_slots := 8\<rparr>" sample_outline 100]
  by (simp add: sample_client_def)

section \<open>Backing off, and coming back\<close>

lemma down_round:
  assumes "\<not> oc_ready c" "ox_expand E (oc_key c) = Inl e" "\<not> has_prefix (oc_expanded c) ''ss://''"
  shows "maintain_round E t c l = back_off c l"
proof -
  have c: "c\<lparr>oc_ready := False\<rparr> = c"
    using assms(1) by (cases c) simp
  have "connect E c = (Some (''outline expand key: '' @ e), c\<lparr>oc_ready := False\<rparr>)"
    using assms(2,3) by (simp add: connect_def Let_def)
  then have "connect E c = (Some (''outline expand key: '' @ e), c)"
    unfolding c .
  then show ?thesis
    using assms(1) by (simp add: maintain_round_def split: prod.split)
qed

lemma down_rounds:
  assumes "\<not> oc_ready c" "ox_expand E (oc_key c) = Inl e" "\<not> has_prefix (oc_expanded c) ''ss://''"
    and "lp_delay l = min (oc_base c * 2 ^ k) (oc_max c)" "0 < oc_base c" "0 < oc_max c"
  shows "maintain_rounds E ts c l =
    (map (\<lambda>i. WaitFor (min (oc_base c * 2 ^ i) (oc_max c))) [k ..< k + List.length ts],
     c\<lparr>oc_events := oc_events c @ replicate (List.length ts) (OnChange False)\<rparr>,
     l\<lparr>lp_delay := min (oc_base c * 2 ^ (k + List.length ts)) (oc_max c)\<rparr>)"
  using assms
proof (induction ts arbitrary: c l k)
  case (Cons t ts)
  let ?c = "emit (OnChange False) c" and ?l = "l\<lparr>lp_delay := double_delay c (lp_delay l)\<rparr>"
  have d: "double_delay c (lp_delay l) = min (oc_base c * 2 ^ Suc k) (oc_max c)"
  proof -
    have "0 < oc_base c * 2 ^ k" "oc_base c * 2 ^ Suc k = 2 * (oc_base c * 2 ^ k)"
      using Cons.prems(5) by simp_all
    then show ?thesis
      using Cons.prems(4,6) by (auto simp: double_delay_def min_def simp del: power_Suc)
  qed
  have "maintain_rounds E ts ?c ?l =
    (map (\<lambda>i. WaitFor (min (oc_base c * 2 ^ i) (oc_max c))) [Suc k ..< Suc k + List.length ts],
     ?c\<lparr>oc_events := oc_events ?c @ replicate (List.length ts) (OnChange False)\<rparr>,
     ?l\<lparr>lp_delay := min (oc_base c * 2 ^ (Suc k + List.length ts)) (oc_max c)\<rparr>)"
    using Cons.IH [of ?c ?l "Suc k"] Cons.prems d by (simp add: emit_def)
  then show ?case
    using Cons.prems(4) down_round [OF Cons.prems(1-3), of t l]
    by (simp add: back_off_def emit_def upt_rec [of k] del: upt_Suc)
qed simp

lemma quiet_periodic:
  assumes "oc_refresh c \<le> 0 \<or> t2 - t1 < oc_refresh c" "oc_probe_interval c \<le> 0 \<or> t2 - t1 < oc_probe_interval c"
    and "lp_refresh l = Some t1" "lp_probe l = Some t1"
  shows "periodic E t2 t3 c l = (WaitFor (next_wake c t3 t1 t1), c, l)"
proof -
  have "start_clocks t2 l = l"
    using assms(3,4) by (cases l) (simp add: start_clocks_def)
  then show ?thesis
    using assms by (auto simp: periodic_def refresh_tick_def probe_tick_def)
qed

lemma good_connect:
  assumes "ox_expand E (oc_key c) = Inr k" "ox_new_dialer E k = None"
  shows "fst (connect E c) = None" and "oc_ready (snd (connect E c))" and "oc_dialer (snd (connect E c)) = Some k"
    and "oc_fails (snd (connect E c)) = 0" and "oc_slots (snd (connect E c)) = oc_slots c"
  using assms by (simp_all add: connect_def apply_expanded_def emit_def Let_def)

lemma good_probe:
  assumes "oc_ready c" "oc_slots c < 8" "oc_dialer c = Some d" "ox_dial E d (oc_probe_addr c) = None" "oc_fails c = 0"
  shows "fst (probe E c) = None" and "oc_ready (snd (probe E c))" and "oc_dialer (snd (probe E c)) = Some d"
    and "oc_fails (snd (probe E c)) = 0"
  using assms by (simp_all add: probe_def dial_context_def note_dial_result_def max_slots_def emit_def Let_def)

lemma up_round:
  assumes "\<not> oc_ready c" "ox_expand E (oc_key c) = Inr k" "ox_new_dialer E k = None"
    and "oc_probe_addr c = [] \<or> (oc_slots c < 8 \<and> ox_dial E k (oc_probe_addr c) = None)"
    and "oc_refresh c \<le> 0 \<or> t2 - t1 < oc_refresh c" "oc_probe_interval c \<le> 0 \<or> t2 - t1 < oc_probe_interval c"
  shows "case maintain_round E (t1, t2, t3) c l of (x, c1, l1) \<Rightarrow>
    oc_ready c1 \<and> oc_dialer c1 = Some k \<and> oc_fails c1 = 0 \<and> lp_delay l1 = oc_base c \<and>
    List.last (oc_events c1) = OnChange True \<and> (\<exists>d. x = WaitFor d \<and> d \<le> 5 * second)"
proof -
  define c1 where "c1 = snd (connect E c)"
  define c2 where "c2 = (if oc_probe_addr c \<noteq> [] then snd (probe E c1) else c1)"
  let ?c3 = "emit (OnChange True) c2"
  let ?l = "\<lparr>lp_delay = oc_base c, lp_probe = Some t1, lp_refresh = Some t1, lp_immediate = False\<rparr>"
  note g = good_connect [OF assms(2,3), folded c1_def]
  have s: "settings c1 = settings c" "settings c2 = settings c"
    by (simp_all add: c1_def c2_def)
  have p: "oc_probe_addr c \<noteq> [] \<Longrightarrow> fst (probe E c1) = None"
    and c2: "oc_ready c2" "oc_dialer c2 = Some k" "oc_fails c2 = 0"
    using g good_probe [of c1 k E] assms(4) setting_fields(3) [OF s(1)] by (auto simp: c2_def)
  have "(if oc_probe_addr c1 \<noteq> [] then probe E c1 else (None, c1)) = (None, c2)"
    using p setting_fields(3) [OF s(1)] by (auto simp: c2_def prod_eq_iff)
  moreover have "connect E c = (None, c1)"
    using g(1) by (simp add: c1_def prod_eq_iff)
  moreover have "periodic E t2 t3 ?c3 ?l = (WaitFor (next_wake ?c3 t3 t1 t1), ?c3, ?l)"
    using assms(5,6) setting_fields [OF s(2)] by (intro quiet_periodic) (simp_all add: emit_def)
  moreover have "oc_base c2 = oc_base c"
    using setting_fields(1) [OF s(2)] .
  ultimately have "maintain_round E (t1, t2, t3) c l = (WaitFor (next_wake ?c3 t3 t1 t1), ?c3, ?l)"
    using assms(1) by (simp add: maintain_round_def)
  then show ?thesis
    using c2 next_wake_bounds [of ?c3 t3 t1 t1] by (simp add: emit_def)
qed

text \<open>
  While the key cannot be expanded and there is no static key to fall back to, the waits of the
  reconnect loop are the base delay doubled each round and capped at the maximum, each preceded by
  the callback with false; the first round in which the key expands, the dialer is built and the
  probe passes ends ready, with the new dialer, a zero counter, the callback with true, and the
  delay back at the base.
\<close>
theorem retries_back_off_and_recover:
  assumes "\<not> oc_ready c" "0 < oc_base c" "oc_base c \<le> oc_max c" "\<not> has_prefix (oc_expanded c) ''ss://''"
    and "ox_expand Down (oc_key c) = Inl e"
    and "ox_expand Up (oc_key c) = Inr k" "ox_new_dialer Up k = None"
    and "oc_probe_addr c = [] \<or> (oc_slots c < 8 \<and> ox_dial Up k (oc_probe_addr c) = None)"
    and "oc_refresh c \<le> 0 \<or> t2 - t1 < oc_refresh c" "oc_probe_interval c \<le> 0 \<or> t2 - t1 < oc_probe_interval c"
  shows "case maintain_rounds Down ts c (start_loop c) of (xs, c1, l1) \<Rightarrow>
    xs = map (\<lambda>i. WaitFor (min (oc_base c * 2 ^ i) (oc_max c))) [0 ..< List.length ts] \<and>
    \<not> oc_ready c1 \<and> oc_events c1 = oc_events c @ replicate (List.length ts) (OnChange False) \<and>
    (case maintain_round Up (t1, t2, t3) c1 l1 of (x, c2, l2) \<Rightarrow>
       oc_ready c2 \<and> oc_dialer c2 = Some k \<and> oc_fails c2 = 0 \<and> lp_delay l2 = oc_base c \<and>
       List.last (oc_events c2) = OnChange True \<and> (\<exists>d. x = WaitFor d \<and> d \<le> 5 * second))"
proof -
  let ?c = "c\<lparr>oc_events := oc_events c @ replicate (List.length ts) (OnChange False)\<rparr>"
  have "maintain_rounds Down ts c (start_loop c) =
    (map (\<lambda>i. WaitFor (min (oc_base c * 2 ^ i) (oc_max c))) [0 ..< List.length ts], ?c,
     (start_loop c)\<lparr>lp_delay := min (oc_base c * 2 ^ List.length ts) (oc_max c)\<rparr>)"
    using down_rounds [of c Down e "start_loop c" 0 ts] assms by (simp add: start_loop_def)
  then show ?thesis
    using up_round [of ?c Up k t2 t1 t3] assms by simp
qed

lemma retries_back_off_and_recover_witness:
  "fst (maintain_rounds (sample_outline\<lparr>ox_expand := \<lambda>k. Inl ''down''\<rparr>) [(0, 0, 0), (0, 0, 0), (0, 0, 0), (0, 0, 0)]
     (sample_client\<lparr>oc_ready := False, oc_expanded := [], oc_probe_addr := []\<rparr>)
     (start_loop (sample_client\<lparr>oc_ready := False, oc_expanded := [], oc_probe_addr := []\<rparr>)))
   = [WaitFor second, WaitFor (2 * second), WaitFor (4 * second), WaitFor (4 * second)]"
proof -
  let ?c = "sample_client\<lparr>oc_ready := False, oc_expanded := [], oc_probe_addr := []\<rparr>"
  let ?D = "sample_outline\<lparr>ox_expand := \<lambda>k. Inl ''down''\<rparr>"
  have "\<not> oc_ready ?c" "0 < oc_base ?c" "oc_base ?c \<le> oc_max ?c" "\<not> has_prefix (oc_expanded ?c) ''ss://''"
    "ox_expand ?D (oc_key ?c) = Inl ''down''"
    "ox_expand sample_outline (oc_key ?c) = Inr (oc_key ?c)" "ox_new_dialer sample_outline (oc_key ?c) = None"
    "oc_probe_addr ?c = [] \<or> (oc_slots ?c < 8 \<and> ox_dial sample_outline (oc_key ?c) (oc_probe_addr ?c) = None)"
    "oc_refresh ?c \<le> 0 \<or> (0::int) - 0 < oc_refresh ?c" "oc_probe_interval ?c \<le> 0 \<or> (0::int) - 0 < oc_probe_interval ?c"
    by code_simp+
  note retries_back_off_and_recover [OF this, of "[(0, 0, 0), (0, 0, 0), (0, 0, 0), (0, 0, 0)]" 0]
  then show ?thesis
    by (simp add: split_beta sample_client_def second_def upt_rec)
qed

end
