(* ===== verification/Web_Api.thy ===== *)
theory Web_Api
  imports Health_Metrics Go_Base64 Tunnel_Mux Outline_Client
begin

text \<open>
  \<open>internal/webui\<close>: the management API. A request is taken through the routes of the serve mux, the
  token check and the handlers to a reply and a new state of the parts the API controls: the two rule
  managers, the Outline client, the tunnel switch, the connection log. Parameters: error texts, the static
  files, the outcome of bringing AmneziaWG up. Paths are clean, as the mux makes them.
\<close>

section \<open>Requests and state\<close>

record request =
  rq_method :: string
  rq_path :: string
  rq_auth :: string
  rq_query :: "string \<Rightarrow> string"
  rq_body :: string

datatype web_effect = Pushed | Restarted | ExitRequested

record web =
  wb_bypass :: manager
  wb_block :: manager
  wb_client :: client
  wb_switch :: switcher
  wb_log :: conn_log
  wb_effects :: "web_effect list"

text \<open>Which parts are mounted, and what the server was made with.\<close>

record web_env =
  we_unicode :: unicode
  we_faults :: faults
  we_lookup :: lookup
  we_outline :: outline_env
  we_now :: int
  we_up :: "string option"
  we_token :: string
  we_version :: string
  we_has_bypass :: bool
  we_has_block :: bool
  we_has_outline :: bool
  we_has_tunnel :: bool
  we_has_log :: bool
  we_runtime :: "(string \<times> string \<times> bool \<times> string) option"
  we_key_path :: string
  we_backend_path :: string
  we_index :: "string option"
  we_static :: "string \<Rightarrow> reply"
  we_store_text :: "store_error \<Rightarrow> string"
  we_mgr_text :: "manager_error \<Rightarrow> string"
  we_key_text :: "set_key_error \<Rightarrow> string"
  we_save_text :: "save_error \<Rightarrow> string"
  we_switch_text :: "switch_error \<Rightarrow> string"
  we_awg_endpoint :: string
  we_awg_iface :: string
  we_time_text :: "int \<Rightarrow> string"
  we_restarted :: string
  we_restarting :: string

section \<open>The token\<close>

definition check_token :: "request \<Rightarrow> string \<Rightarrow> bool \<Rightarrow> bool" where
  "check_token r want allow_query =
     (let auth = rq_auth r in
      if has_prefix auth ''Bearer '' then trim_space (drop 7 auth) = want
      else if has_prefix auth ''Basic '' then
        (case b64_decode StdAlphabet True (trim_space (drop 6 auth)) of
           None \<Rightarrow> False
         | Some raw \<Rightarrow> (case cut raw CHR '':'' of None \<Rightarrow> False | Some (user, password) \<Rightarrow> password = want))
      else allow_query \<and> rq_query r ''token'' \<noteq> [] \<and> rq_query r ''token'' = want)"

type_synonym handler = "request \<Rightarrow> web \<Rightarrow> reply \<times> web"

definition token_auth :: "string \<Rightarrow> bool \<Rightarrow> handler \<Rightarrow> handler" where
  "token_auth token allow_query h r w =
     (if token = [] \<or> \<not> check_token r token allow_query
      then (plain 401 ([CHR 0x7B, CHR 0x22] @ ''error'' @ [CHR 0x22] @ '':'' @ [CHR 0x22] @ ''unauthorized'' @
              [CHR 0x22, CHR 0x7D, CHR 0x0A]), w)
      else h r w)"

definition no_method :: reply where
  "no_method = write_err 405 ''method not allowed''"

section \<open>Rules\<close>

text \<open>The field of the struct that a handler decodes a body into, and how that ends.\<close>

definition decode_string :: "string \<Rightarrow> string \<Rightarrow> string \<times> outcome" where
  "decode_string k b = (case decode b (IsStruct [(k, IsString [])]) of (x, out) \<Rightarrow> (string_at k x, out))"

definition decode_strings :: "string \<Rightarrow> string \<Rightarrow> string list option \<times> outcome" where
  "decode_strings k b = (case decode b (IsStruct [(k, IsStrings None)]) of (x, out) \<Rightarrow> (strings_at k x, out))"

definition rule_json :: "rule \<Rightarrow> json" where
  "rule_json x = JObj [(''rule'', JStr (rule_raw x)), (''kind'', JStr (kind_string (rule_kind x)))]"

definition rule_arg :: "request \<Rightarrow> string" where
  "rule_arg r = (if rq_query r ''rule'' \<noteq> [] then rq_query r ''rule'' else fst (decode_string ''rule'' (rq_body r)))"

definition handle_rules :: "web_env \<Rightarrow> request \<Rightarrow> manager \<times> fs \<Rightarrow> reply \<times> manager \<times> fs" where
  "handle_rules E r w =
     (let (m, fs) = w; U = we_unicode E; F = we_faults E; L = we_lookup E; b = rq_body r in
      if rq_method r = ''GET'' then
        (write_json 200 (JObj [(''rules'', JArr (map rule_json (manager_rules m)))]), m, fs)
      else if rq_method r = ''POST'' then
        (if snd (decode_string ''rule'' b) \<noteq> DecodeOk then (write_err 400 ''invalid JSON'', m, fs)
         else case add_rule U F L (fst (decode_string ''rule'' b)) m fs of
                (Inl e, m1, tr) \<Rightarrow> (write_err 400 (we_store_text E e), m1, final_fs fs tr)
              | (Inr x, m1, tr) \<Rightarrow> (write_json 201 (rule_json x), m1, final_fs fs tr))
      else if rq_method r = ''DELETE'' then
        (if rule_arg r = [] then (write_err 400 ''rule is required'', m, fs)
         else case remove_rule U F L (rule_arg r) m fs of
                (Inl e, m1, tr) \<Rightarrow> (write_err 400 (we_store_text E e), m1, final_fs fs tr)
              | (Inr ok, m1, tr) \<Rightarrow>
                  (if \<not> ok then write_err 404 ''rule not found'' else write_json 200 (JObj [(''deleted'', JBool True)]),
                   m1, final_fs fs tr))
      else if rq_method r = ''PUT'' then
        (if snd (decode_strings ''rules'' b) \<noteq> DecodeOk then (write_err 400 ''invalid JSON'', m, fs)
         else (let rules = (case fst (decode_strings ''rules'' b) of None \<Rightarrow> [] | Some xs \<Rightarrow> xs) in
               case set_rules U F L rules m fs of
                 (Some e, m1, tr) \<Rightarrow> (write_err 400 (we_mgr_text E e), m1, final_fs fs tr)
               | (None, m1, tr) \<Rightarrow>
                   (write_json 200 (JObj [(''ok'', JBool True), (''count'', JInt (int (length rules)))]), m1, final_fs fs tr)))
      else (no_method, m, fs))"

definition handle_effective :: "request \<Rightarrow> manager \<Rightarrow> reply" where
  "handle_effective r m =
     (if rq_method r \<noteq> ''GET'' then no_method
      else write_json 200
        (JObj [(''nets'', JArr (map (\<lambda>n. JStr (show_net n)) (effective_bypass_nets m))),
               (''resolved'', JArr (map (\<lambda>n. JStr (show_net n)) (resolved_nets m))),
               (''dns_error'', JStr (last_error m))]))"

definition handle_apply :: "web_env \<Rightarrow> request \<Rightarrow> manager \<Rightarrow> reply \<times> manager" where
  "handle_apply E r m =
     (if rq_method r \<noteq> ''POST'' then (no_method, m)
      else case refresh (we_lookup E) m of
        (e, m1) \<Rightarrow>
          (write_json 200
             (JObj [(''ok'', JBool True), (''dns_error'', JStr (case e of None \<Rightarrow> [] | Some t \<Rightarrow> t))]), m1))"

definition route_rules :: "web_env \<Rightarrow> string \<Rightarrow> request \<Rightarrow> manager \<times> fs \<Rightarrow> reply \<times> manager \<times> fs" where
  "route_rules E base r w =
     (let path = trim_suffix (trim_prefix (rq_path r) base) ''/'' in
      if path = [] then handle_rules E r w
      else if path = ''/effective'' then (handle_effective r (fst w), w)
      else if path = ''/apply'' then (case handle_apply E r (fst w) of (x, m1) \<Rightarrow> (x, m1, snd w))
      else (not_found, w))"

definition route_bypass :: "web_env \<Rightarrow> handler" where
  "route_bypass E r w =
     (case route_rules E ''/api/v1/bypass'' r (wb_bypass w, sw_fs (wb_switch w)) of
        (x, m, fs) \<Rightarrow> (x, w\<lparr>wb_bypass := m, wb_switch := (wb_switch w)\<lparr>sw_fs := fs\<rparr>\<rparr>))"

definition route_block :: "web_env \<Rightarrow> handler" where
  "route_block E r w =
     (case route_rules E ''/api/v1/block'' r (wb_block w, sw_fs (wb_switch w)) of
        (x, m, fs) \<Rightarrow> (x, w\<lparr>wb_block := m, wb_switch := (wb_switch w)\<lparr>sw_fs := fs\<rparr>\<rparr>))"

section \<open>Outline key\<close>

definition opt_field :: "string \<Rightarrow> string \<Rightarrow> (string \<times> json) list" where
  "opt_field k v = (if v = [] then [] else [(k, JStr v)])"

definition outline_status :: "web_env \<Rightarrow> web \<Rightarrow> json" where
  "outline_status E w =
     (let c = wb_client w in
      JObj ([(''access_key_redacted'', JStr (redact_access_key (oc_key c))), (''ready'', JBool (oc_ready c))] @
        opt_field ''server_ip'' (case oc_server c of None \<Rightarrow> [] | Some a \<Rightarrow> show_ip a) @
        opt_field ''persist_file'' (we_key_path E)))"

datatype replace_error = SetKeyFailed set_key_error | PersistFailed save_error

definition replace_access_key :: "web_env \<Rightarrow> string \<Rightarrow> web \<Rightarrow> replace_error option \<times> web" where
  "replace_access_key E key0 w =
     (let key = trim_space key0 in
      case set_access_key (we_outline E) key (wb_client w) of
        (Some e, c) \<Rightarrow> (Some (SetKeyFailed e), w\<lparr>wb_client := c\<rparr>)
      | (None, c) \<Rightarrow>
          (let fs = sw_fs (wb_switch w);
               saved = (if we_key_path E \<noteq> []
                        then persist_access_key (we_unicode E) (we_faults E) (we_key_path E) key fs else ([], None));
               w1 = w\<lparr>wb_client := c, wb_switch := (wb_switch w)\<lparr>sw_fs := final_fs fs (fst saved)\<rparr>,
                      wb_effects := wb_effects w @ [Pushed]\<rparr>
           in (map_option PersistFailed (snd saved), w1)))"

definition ok_status :: "(string \<times> json) list \<Rightarrow> json \<Rightarrow> reply" where
  "ok_status extra st = write_json 200 (JObj ([(''ok'', JBool True)] @ extra @ [(''status'', st)]))"

text \<open>
  The reply tells a failed save from a refused key by the text "persist failed", which the texts of
  refused keys do not contain.
\<close>

definition handle_outline :: "web_env \<Rightarrow> handler" where
  "handle_outline E r w =
     (if rq_method r = ''GET'' then (write_json 200 (outline_status E w), w)
      else if rq_method r = ''PUT'' \<or> rq_method r = ''POST'' then
        (if snd (decode_string ''access_key'' (rq_body r)) \<noteq> DecodeOk then (write_err 400 ''invalid JSON'', w)
         else case replace_access_key E (fst (decode_string ''access_key'' (rq_body r))) w of
                (None, w1) \<Rightarrow> (ok_status [] (outline_status E w1), w1)
              | (Some (PersistFailed e), w1) \<Rightarrow>
                  (ok_status [(''warning'', JStr (''key applied but persist failed: '' @ we_save_text E e))]
                     (outline_status E w1), w1)
              | (Some (SetKeyFailed e), w1) \<Rightarrow> (write_err 400 (we_key_text E e), w1))
      else (no_method, w))"

section \<open>Tunnel\<close>

text \<open>Two texts of the interface, in UTF-8: the label of the AmneziaWG side, and the message before the backend.\<close>

definition awg_label :: string where
  "awg_label = map char_of [0xD0, 0xA8, 0xD0, 0xB2, 0xD0, 0xB5, 0xD1, 0x86, 0xD0, 0xB8, 0xD1, 0x8F :: nat]"

definition active_text :: string where
  "active_text = map char_of [0xD0, 0xB0, 0xD0, 0xBA, 0xD1, 0x82, 0xD0, 0xB8, 0xD0, 0xB2, 0xD0, 0xB5, 0xD0, 0xBD, 0x20 :: nat]"

text \<open>What the tunnel switch asks: the readiness and address of the Outline client itself.\<close>

definition live_of :: "web \<Rightarrow> live" where
  "live_of w = (sw_live (wb_switch w))\<lparr>lv_outline_ready := oc_ready (wb_client w), lv_outline_ip := oc_server (wb_client w)\<rparr>"

record amnezia_status =
  as_configured :: bool
  as_ready :: bool
  as_endpoint :: string
  as_iface :: string
  as_label :: string

record tunnel_state =
  ts_backend :: string
  ts_ready :: bool
  ts_outline :: json
  ts_amnezia :: amnezia_status
  ts_message :: string

definition amnezia_json :: "amnezia_status \<Rightarrow> json" where
  "amnezia_json a =
     JObj ([(''configured'', JBool (as_configured a)), (''ready'', JBool (as_ready a))] @
       opt_field ''endpoint'' (as_endpoint a) @ opt_field ''iface'' (as_iface a) @ opt_field ''label'' (as_label a))"

definition tunnel_json :: "tunnel_state \<Rightarrow> json" where
  "tunnel_json t =
     JObj ([(''backend'', JStr (ts_backend t)), (''ready'', JBool (ts_ready t)), (''outline'', ts_outline t),
            (''amnezia'', amnezia_json (ts_amnezia t))] @ opt_field ''message'' (ts_message t))"

definition tunnel_status :: "web_env \<Rightarrow> web \<Rightarrow> tunnel_state" where
  "tunnel_status E w =
     (let m = sw_mux (wb_switch w); awg = lv_awg (sw_live (wb_switch w)) in
      \<lparr>ts_backend = backend_of m, ts_ready = mux_ready m (live_of w), ts_outline = outline_status E w,
       ts_amnezia =
         \<lparr>as_configured = awg \<noteq> None, as_ready = (case awg of None \<Rightarrow> False | Some a \<Rightarrow> fst a),
          as_endpoint = (if awg = None then [] else we_awg_endpoint E), as_iface = we_awg_iface E, as_label = awg_label\<rparr>,
       ts_message = []\<rparr>)"

definition handle_tunnel :: "web_env \<Rightarrow> handler" where
  "handle_tunnel E r w =
     (if rq_method r = ''GET'' then (write_json 200 (tunnel_json (tunnel_status E w)), w)
      else if rq_method r = ''PUT'' \<or> rq_method r = ''POST'' then
        (if snd (decode_string ''backend'' (rq_body r)) \<noteq> DecodeOk then (write_err 400 ''invalid JSON'', w)
         else case switch_backend (we_unicode E) (we_faults E) (we_backend_path E) (we_up E) (fst (decode_string ''backend'' (rq_body r)))
                     ((wb_switch w)\<lparr>sw_live := live_of w\<rparr>) of
                (Some e, s) \<Rightarrow> (write_err 400 (we_switch_text E e), w\<lparr>wb_switch := s\<rparr>)
              | (None, s) \<Rightarrow>
                  (ok_status []
                     (tunnel_json ((tunnel_status E (w\<lparr>wb_switch := s\<rparr>))\<lparr>ts_message := active_text @ backend_of (sw_mux s)\<rparr>)),
                   w\<lparr>wb_switch := s\<rparr>))
      else (no_method, w))"

section \<open>Connections\<close>

definition event_json :: "web_env \<Rightarrow> event \<Rightarrow> json" where
  "event_json E e =
     JObj ([(''id'', JInt (uint (ev_id e))), (''time'', JStr (we_time_text E (ev_time e))),
            (''proto'', JStr (ev_proto e)), (''client_ip'', JStr (ev_client e)), (''target'', JStr (ev_target e)),
            (''host'', JStr (ev_host e)), (''port'', JInt (ev_port e)), (''via'', JStr (ev_via e))] @
           opt_field ''rule'' (ev_rule e) @ [(''ok'', JBool (ev_ok e))] @ opt_field ''error'' (ev_error e) @
           (if ev_ms e = 0 then [] else [(''duration_ms'', JInt (ev_ms e))]))"

definition minute :: int where
  "minute = 60000000000"

definition query_limit :: "request \<Rightarrow> int" where
  "query_limit r =
     (case atoi (rq_query r ''limit'') of None \<Rightarrow> 0 | Some n \<Rightarrow> if 0 < n then n else 0)"

definition nat_field :: "string \<Rightarrow> nat \<Rightarrow> string \<times> json" where
  "nat_field k n = (k, JInt (int n))"

definition handle_connections :: "web_env \<Rightarrow> handler" where
  "handle_connections E r w =
     (if rq_method r \<noteq> ''GET'' then (no_method, w)
      else
        (let now = we_now E;
             (events, l1) = snapshot now (query_limit r) (wb_log w);
             (st, l2) = log_stats_since now (now - minute) l1;
             (n, l3) = log_len now l2
         in (write_json 200
               (JObj [(''events'', JArr (map (event_json E) events)), nat_field ''capacity'' (log_capacity (Some l3)),
                      nat_field ''count'' n,
                      (''stats_1m'', JObj [nat_field ''total'' (ls_total st), nat_field ''vpn'' (ls_vpn st),
                         nat_field ''direct'' (ls_direct st), nat_field ''ok'' (ls_ok st), nat_field ''fail'' (ls_fail st)])]),
             w\<lparr>wb_log := l3\<rparr>)))"

text \<open>
  The stream: a snapshot, then the subscription, then the events that arrive on its channel. The snapshot
  and the subscription are two calls, between which other connections may be recorded.
\<close>

definition stream_open :: "int \<Rightarrow> conn_log \<Rightarrow> event list \<times> conn_log" where
  "stream_open now l = snapshot now 0 l"

definition stream_subscribe :: "nat \<Rightarrow> conn_log \<Rightarrow> conn_log" where
  "stream_subscribe i l = subscribe i l"

definition handle_stream :: "web_env \<Rightarrow> handler" where
  "handle_stream E r w =
     (if rq_method r \<noteq> ''GET'' then (no_method, w)
      else case stream_open (we_now E) (wb_log w) of
        (events, l) \<Rightarrow> (write_json 200 (JArr (map (event_json E) events)), w\<lparr>wb_log := stream_subscribe (length (cl_subs l)) l\<rparr>))"

definition write_sse :: "string \<Rightarrow> string \<Rightarrow> string" where
  "write_sse event data =
     ''event: '' @ event @ [CHR 0x0A] @ ''data: '' @ data @ [CHR 0x0A, CHR 0x0A]"

definition route_connections :: "web_env \<Rightarrow> handler" where
  "route_connections E r w =
     (let path = rq_path r in
      if path = ''/api/v1/connections'' \<or> path = ''/api/v1/connections/'' then handle_connections E r w
      else if path = ''/api/v1/connections/stream'' \<or> path = ''/api/v1/connections/stream/'' then handle_stream E r w
      else (not_found, w))"

section \<open>Status, version, restart\<close>

definition handle_status :: "web_env \<Rightarrow> handler" where
  "handle_status E r w =
     (if rq_method r \<noteq> ''GET'' then (no_method, w)
      else
        (let rt = we_runtime E;
             version = (case rt of Some (v, s, g, h) \<Rightarrow> if v \<noteq> [] then v else we_version E | None \<Rightarrow> we_version E);
             now = we_now E;
             (st, l1) = log_stats_since now (now - minute) (wb_log w);
             (n, l2) = log_len now l1
         in (write_json 200
               (JObj (opt_field ''version'' version @
                  (if we_has_outline E then [(''outline'', outline_status E w)] else []) @
                  (if we_has_tunnel E then [(''tunnel'', tunnel_json (tunnel_status E w))] else []) @
                  (case rt of None \<Rightarrow> []
                   | Some (v, s, g, h) \<Rightarrow> [(''socks'', JStr s), (''gateway'', JBool g), (''health'', JStr h)]) @
                  (if we_has_log E then
                     [(''connlog'', JObj [nat_field ''capacity'' (log_capacity (Some l2)), nat_field ''count'' n,
                         nat_field ''vpn_1m'' (ls_vpn st), nat_field ''direct_1m'' (ls_direct st),
                         nat_field ''total_1m'' (ls_total st), nat_field ''ok_1m'' (ls_ok st),
                         nat_field ''fail_1m'' (ls_fail st)])]
                   else []))),
             if we_has_log E then w\<lparr>wb_log := l2\<rparr> else w)))"

definition handle_version :: "web_env \<Rightarrow> handler" where
  "handle_version E r w =
     (if rq_method r \<noteq> ''GET'' then (no_method, w)
      else
        (let v0 = we_version E;
             v1 = (if v0 = [] then (case we_runtime E of None \<Rightarrow> [] | Some rt \<Rightarrow> fst rt) else v0)
         in (write_json 200 (JObj [(''version'', JStr (if v1 = [] then ''vdev'' else v1))]), w)))"

text \<open>Restarting the services is an operation of main; \<open>None\<close> when it is not available.\<close>

type_synonym restart = "(web \<Rightarrow> (string + string) \<times> web) option"

definition handle_restart :: "web_env \<Rightarrow> restart \<Rightarrow> bool \<Rightarrow> handler" where
  "handle_restart E R has_container r w =
     (if rq_method r \<noteq> ''POST'' then (no_method, w)
      else if snd (decode_string ''scope'' (rq_body r)) \<noteq> DecodeOk \<and> snd (decode_string ''scope'' (rq_body r)) \<noteq> DecodeEOF then (write_err 400 ''invalid JSON'', w)
      else
        (let scope = to_lower (we_unicode E) (trim_space (fst (decode_string ''scope'' (rq_body r)))) in
         if scope = ''services'' \<or> scope = [] then
           (case R of
              None \<Rightarrow> (write_err 501 ''restart is not available'', w)
            | Some f \<Rightarrow>
                (case f w of
                   (Inl e, w1) \<Rightarrow> (write_err 502 e, w1)
                 | (Inr msg, w1) \<Rightarrow>
                     (write_json 200 (JObj [(''ok'', JBool True), (''scope'', JStr ''services''),
                        (''message'', JStr (if msg = [] then we_restarted E else msg))]), w1)))
         else if scope = ''container'' then
           (if \<not> has_container then (write_err 501 ''container restart is not available'', w)
            else (write_json 200 (JObj [(''ok'', JBool True), (''scope'', JStr ''container''),
                    (''message'', JStr (we_restarting E))]), w\<lparr>wb_effects := wb_effects w @ [ExitRequested]\<rparr>))
         else (write_err 400 ''scope must be services or container'', w)))"

section \<open>The page\<close>

definition token_tag :: "string \<Rightarrow> string" where
  "token_tag token = ''<script>window.__OG_UI_TOKEN__='' @ json_quote token @ '';</script>''"

definition inject_ui_token :: "string \<Rightarrow> string \<Rightarrow> string" where
  "inject_ui_token page token =
     (case index_of page ''</head>'' of
        Some i \<Rightarrow> take i page @ token_tag token @ drop i page
      | None \<Rightarrow> token_tag token @ page)"

definition serve_index :: "web_env \<Rightarrow> handler" where
  "serve_index E r w =
     (if rq_method r \<noteq> ''GET'' \<and> rq_method r \<noteq> ''HEAD'' then (plain 405 (''method not allowed'' @ [CHR 0x0A]), w)
      else case we_index E of
        None \<Rightarrow> (not_found, w)
      | Some raw \<Rightarrow>
          (if rq_method r = ''HEAD'' then \<lparr>ry_status = 200, ry_body = NoBody\<rparr>
           else plain 200 (inject_ui_token raw (we_token E)), w))"

definition serve_ui :: "web_env \<Rightarrow> handler" where
  "serve_ui E r w =
     (let p = trim_prefix (trim_prefix (rq_path r) ''/ui/'') ''/'' in
      if p = [] \<or> p = ''index.html'' then serve_index E r w else (we_static E p, w))"

section \<open>The routes\<close>

text \<open>A pattern of the mux that ends in a slash takes the whole subtree.\<close>

definition below :: "string \<Rightarrow> string \<Rightarrow> bool" where
  "below pat path \<longleftrightarrow> path = pat \<or> has_prefix path (pat @ ''/'')"

definition api_route :: "web_env \<Rightarrow> restart \<Rightarrow> bool \<Rightarrow> string \<Rightarrow> handler option" where
  "api_route E R k path =
     (let auth = token_auth (we_token E) False in
      if we_has_bypass E \<and> below ''/api/v1/bypass'' path then Some (auth (route_bypass E))
      else if we_has_block E \<and> below ''/api/v1/block'' path then Some (auth (route_block E))
      else if we_has_outline E \<and> below ''/api/v1/outline'' path then Some (auth (handle_outline E))
      else if we_has_tunnel E \<and> below ''/api/v1/tunnel'' path then Some (auth (handle_tunnel E))
      else if we_has_log E \<and> below ''/api/v1/connections/stream'' path
      then Some (token_auth (we_token E) True (handle_stream E))
      else if we_has_log E \<and> below ''/api/v1/connections'' path then Some (auth (route_connections E))
      else if path = ''/api/v1/status'' then Some (auth (handle_status E))
      else if path = ''/api/v1/restart'' then Some (auth (handle_restart E R k))
      else None)"

definition serve_web :: "web_env \<Rightarrow> restart \<Rightarrow> bool \<Rightarrow> health \<Rightarrow> handler" where
  "serve_web E R k H r w =
     (let path = rq_path r in
      case api_route E R k path of
        Some h \<Rightarrow> h r w
      | None \<Rightarrow>
          if path = ''/api/v1/version'' then handle_version E r w
          else if has_prefix path ''/ui/'' then serve_ui E r w
          else if path = ''/ui'' then (plain 302 [], w)
          else (health_mux H path, w))"

section \<open>Without the token\<close>

lemma token_auth_refuses:
  "token = [] \<or> \<not> check_token r token q \<Longrightarrow>
   snd (token_auth token q h r w) = w \<and> ry_status (fst (token_auth token q h r w)) = 401"
  by (auto simp: token_auth_def plain_def)

lemma check_token_query: "check_token r t False \<Longrightarrow> check_token r t True"
  by (auto simp: check_token_def Let_def split: option.splits if_splits)

definition refused :: "web_env \<Rightarrow> request \<Rightarrow> bool" where
  "refused E r \<longleftrightarrow> we_token E = [] \<or> \<not> check_token r (we_token E) True"

lemma api_route_guarded:
  assumes "api_route E R k path = Some h"
  shows "\<exists>q g. h = token_auth (we_token E) q g"
  using assms by (auto simp: api_route_def Let_def split: if_splits)

lemma public_handlers_read_only: "snd (handle_version E r w) = w" "snd (serve_ui E r w) = w"
  by (simp_all add: handle_version_def serve_ui_def serve_index_def Let_def split: option.split)

lemma refused_changes_nothing:
  assumes "refused E r"
  shows "snd (serve_web E R k H r w) = w \<and>
    (api_route E R k (rq_path r) \<noteq> None \<longrightarrow> ry_status (fst (serve_web E R k H r w)) = 401)"
proof (cases "api_route E R k (rq_path r)")
  case None
  then show ?thesis
    by (simp add: serve_web_def Let_def public_handlers_read_only)
next
  case (Some h)
  then obtain q g where h: "h = token_auth (we_token E) q g"
    using api_route_guarded by blast
  have "we_token E = [] \<or> \<not> check_token r (we_token E) q"
    using assms check_token_query [of r "we_token E"] by (cases q) (auto simp: refused_def)
  from token_auth_refuses [OF this] show ?thesis
    using Some by (simp add: serve_web_def h)
qed

text \<open>
  C8: without the token nothing changes. A request that does not carry the token - or any request, when
  the configured token is empty - leaves the rules, the block list, the Outline key, the tunnel, the log
  and the files exactly as they are, whatever its method, path and body; and on every path of the API
  except the version it is answered 401.
\<close>
theorem no_token_no_change:
  assumes "refused E r"
  shows "snd (serve_web E R k H r w) = w \<and>
    (api_route E R k (rq_path r) \<noteq> None \<longrightarrow> ry_status (fst (serve_web E R k H r w)) = 401)"
  using assms by (rule refused_changes_nothing)

text \<open>
  The token check accepts exactly the token. As Bearer the rest of the header without blanks around
  it must be the token; as Basic the password, with any user name and any password, colons included; a
  request without either is accepted only on the event stream, with the token in the query.
\<close>
theorem token_check_exact:
  "(check_token (r\<lparr>rq_auth := ''Bearer '' @ t\<rparr>) want q \<longleftrightarrow> trim_space t = want) \<and>
   (CHR '':'' \<notin> set user \<longrightarrow>
     (check_token (r\<lparr>rq_auth := ''Basic '' @ b64_encode StdAlphabet True (user @ '':'' @ password)\<rparr>) want q \<longleftrightarrow>
      password = want)) \<and>
   (check_token (r\<lparr>rq_auth := []\<rparr>) want q \<longleftrightarrow> q \<and> want \<noteq> [] \<and> rq_query r ''token'' = want)"
proof (intro conjI impI)
  show "check_token (r\<lparr>rq_auth := ''Bearer '' @ t\<rparr>) want q \<longleftrightarrow> trim_space t = want"
    by (simp add: check_token_def has_prefix_def)
  show "check_token (r\<lparr>rq_auth := []\<rparr>) want q \<longleftrightarrow> q \<and> want \<noteq> [] \<and> rq_query r ''token'' = want"
    by (auto simp: check_token_def has_prefix_def)
  assume "CHR '':'' \<notin> set user"
  then have "cut (user @ '':'' @ password) CHR '':'' = Some (user, password)"
    by (simp add: cut_hit)
  then show "check_token (r\<lparr>rq_auth := ''Basic '' @ b64_encode StdAlphabet True (user @ '':'' @ password)\<rparr>) want q \<longleftrightarrow>
      password = want"
    by (simp add: check_token_def has_prefix_def Let_def trim_b64)
qed

section \<open>The token in the page\<close>

text \<open>Reading a string literal of the page's script: the text between the quotes, and nothing after it.\<close>

definition js_string :: "string \<Rightarrow> string option" where
  "js_string s =
     (case s of
        [] \<Rightarrow> None
      | c # t \<Rightarrow> if c = CHR 0x22 then (case string_body t of Some (x, []) \<Rightarrow> Some x | _ \<Rightarrow> None) else None)"

lemma js_json: "js_string (json_quote s) = Some (to_valid s)"
proof -
  have q: "json_quote s = CHR 0x22 # tl (json_quote s)"
    by (simp add: json_quote_def)
  show ?thesis
    using string_body_quote [of s "[]"] by (subst q) (simp add: js_string_def)
qed

lemma page_served:
  assumes "we_index E = Some page" "rq_method r = ''GET''" "rq_path r = ''/ui/''"
  shows "serve_web E R k H r w = (plain 200 (inject_ui_token page (we_token E)), w)"
proof -
  have "api_route E R k ''/ui/'' = None"
    by (simp add: api_route_def below_def has_prefix_def Let_def)
  then show ?thesis
    using assms by (simp add: serve_web_def Let_def serve_ui_def serve_index_def has_prefix_def trim_prefix_def)
qed

lemma token_inserted:
  obtains pre post where "page = pre @ post"
    "inject_ui_token page token = pre @ ''<script>window.__OG_UI_TOKEN__='' @ json_quote token @ '';</script>'' @ post"
proof (cases "index_of page ''</head>''")
  case None
  then show ?thesis
    by (intro that [of "[]" page]) (simp_all add: inject_ui_token_def token_tag_def)
next
  case (Some i)
  then show ?thesis
    by (intro that [of "take i page" "drop i page"]) (simp_all add: inject_ui_token_def token_tag_def)
qed

lemma bearer_accepted: "trim_space token = token \<Longrightarrow> check_token (r\<lparr>rq_auth := ''Bearer '' @ token\<rparr>) token q"
  by (simp add: check_token_def has_prefix_def)

lemma token_literal:
  assumes "to_valid token = token" "trim_space token = token"
  shows "js_string (json_quote token) = Some token" "CHR ''<'' \<notin> set (json_quote token)"
    "check_token (r\<lparr>rq_auth := ''Bearer '' @ the (js_string (json_quote token))\<rparr>) token q"
proof -
  show 1: "js_string (json_quote token) = Some token"
    using assms(1) by (simp add: js_json)
  show "CHR ''<'' \<notin> set (json_quote token)"
    using json_quote_plain by blast
  show "check_token (r\<lparr>rq_auth := ''Bearer '' @ the (js_string (json_quote token))\<rparr>) token q"
    using bearer_accepted [OF assms(2)] by (simp add: 1)
qed

text \<open>
  The page carries the token, and only the token. Anyone who asks for /ui/ gets, without any
  authorisation, the page with one script inserted that assigns a string literal; whatever text in UTF-8 the
  token is, the literal reads as exactly the token and cannot end the script element early, and the token
  so read is accepted by the check. So the API is as open as the page.
\<close>
theorem page_hands_out_token:
  assumes "we_index E = Some page" "to_valid (we_token E) = we_token E" "trim_space (we_token E) = we_token E"
    and "rq_method r = ''GET''" "rq_path r = ''/ui/''"
  shows "\<exists>pre post lit. page = pre @ post \<and>
    serve_web E R k H r w = (plain 200 (pre @ ''<script>window.__OG_UI_TOKEN__='' @ lit @ '';</script>'' @ post), w) \<and>
    js_string lit = Some (we_token E) \<and> CHR ''<'' \<notin> set lit \<and>
    check_token (r\<lparr>rq_auth := ''Bearer '' @ the (js_string lit)\<rparr>) (we_token E) q"
  using token_inserted [of page "we_token E"] page_served [OF assms(1,4,5)] token_literal [OF assms(2,3)] by metis

section \<open>Examples\<close>

definition sample_body :: json where
  "sample_body = JObj [(''rule'', JStr ''corp.example''), (''rules'', JArr [JStr ''corp.example''])]"

definition sample_request :: request where
  "sample_request = \<lparr>rq_method = ''POST'', rq_path = ''/api/v1/bypass'', rq_auth = ''Bearer wrong'',
     rq_query = (\<lambda>k. []), rq_body = marshal sample_body\<rparr>"

definition sample_web_env :: web_env where
  "sample_web_env =
     \<lparr>we_unicode = ascii_tables, we_faults = no_faults, we_lookup = (\<lambda>h. Inl ''no such host''), we_outline = sample_outline,
      we_now = 1000, we_up = None, we_token = ''s3<cret'', we_version = ''v1'', we_has_bypass = True, we_has_block = True,
      we_has_outline = True, we_has_tunnel = True, we_has_log = True, we_runtime = None, we_key_path = [],
      we_backend_path = ''/config/backend'', we_index = Some ''<html><head></head></html>'', we_static = (\<lambda>p. not_found),
      we_store_text = (\<lambda>e. ''store''), we_mgr_text = (\<lambda>e. ''dns''), we_key_text = (\<lambda>e. ''key''),
      we_save_text = (\<lambda>e. ''save''), we_switch_text = (\<lambda>e. ''switch''), we_awg_endpoint = [], we_awg_iface = [],
      we_time_text = (\<lambda>t. []), we_restarted = ''ok'', we_restarting = ''ok''\<rparr>"

definition sample_web :: web where
  "sample_web = \<lparr>wb_bypass = new_manager (Some (new_store ''/config/rules'')) [], wb_block = new_manager None [],
     wb_client = sample_client, wb_switch = sample_switcher, wb_log = new_log 500, wb_effects = []\<rparr>"

definition sample_health :: health where
  "sample_health = \<lparr>he_tunnel = Some True, he_gateway = None, he_required = False, he_started = True\<rparr>"

theorem no_token_no_change_witness:
  "snd (serve_web sample_web_env None False sample_health sample_request sample_web) = sample_web \<and>
   ry_status (fst (serve_web sample_web_env None False sample_health sample_request sample_web)) = 401"
proof -
  have "refused sample_web_env sample_request" by code_simp
  moreover have "we_has_bypass sample_web_env" "rq_path sample_request = ''/api/v1/bypass''"
    by (simp_all add: sample_web_env_def sample_request_def)
  then have "api_route sample_web_env None False (rq_path sample_request) \<noteq> None"
    by (simp add: api_route_def below_def Let_def)
  ultimately show ?thesis
    using no_token_no_change by blast
qed

theorem token_check_exact_witness:
  "check_token (sample_request\<lparr>rq_auth := ''Basic '' @ b64_encode StdAlphabet True (''admin'' @ '':'' @ ''a:b'')\<rparr>) ''a:b'' False"
proof -
  have "CHR '':'' \<notin> set ''admin''" by simp
  then show ?thesis
    using token_check_exact [where r = sample_request and user = "''admin''" and password = "''a:b''" and want = "''a:b''" and
        q = False and t = "[]"] by blast
qed

theorem page_hands_out_token_witness:
  "\<exists>pre post lit. pre @ post = ''<html><head></head></html>'' \<and> js_string lit = Some ''s3<cret'' \<and>
     fst (serve_web sample_web_env None False sample_health
       (sample_request\<lparr>rq_method := ''GET'', rq_path := ''/ui/'', rq_auth := []\<rparr>) sample_web) =
     plain 200 (pre @ ''<script>window.__OG_UI_TOKEN__='' @ lit @ '';</script>'' @ post)"
proof -
  let ?r = "sample_request\<lparr>rq_method := ''GET'', rq_path := ''/ui/'', rq_auth := []\<rparr>"
  have t: "we_token sample_web_env = ''s3<cret''" "we_index sample_web_env = Some ''<html><head></head></html>''"
    by (simp_all add: sample_web_env_def)
  have "to_valid (we_token sample_web_env) = we_token sample_web_env" "trim_space (we_token sample_web_env) = we_token sample_web_env"
    unfolding t by code_simp+
  moreover have "rq_method ?r = ''GET''" "rq_path ?r = ''/ui/''"
    by simp_all
  ultimately have "\<exists>pre post lit. ''<html><head></head></html>'' = pre @ post \<and>
      serve_web sample_web_env None False sample_health ?r sample_web =
        (plain 200 (pre @ ''<script>window.__OG_UI_TOKEN__='' @ lit @ '';</script>'' @ post), sample_web) \<and>
      js_string lit = Some (we_token sample_web_env)"
    using page_hands_out_token [OF t(2), of ?r None False sample_health sample_web False] by blast
  then obtain pre post lit where x: "''<html><head></head></html>'' = pre @ post"
    "serve_web sample_web_env None False sample_health ?r sample_web =
       (plain 200 (pre @ ''<script>window.__OG_UI_TOKEN__='' @ lit @ '';</script>'' @ post), sample_web)"
    "js_string lit = Some (we_token sample_web_env)"
    by (elim exE conjE)
  show ?thesis
    unfolding x(2) fst_conv using x(1,3) t(1) by (intro exI conjI) (rule sym, assumption, simp, rule refl)
qed

text \<open>
  A PUT whose rules were stored and are in force is answered 400 when one of their names does not
  resolve; the same rule in a POST is answered 201.
\<close>

lemma put_applies_but_answers_400:
  "case handle_rules sample_web_env (sample_request\<lparr>rq_method := ''PUT''\<rparr>) (wb_bypass sample_web, Map.empty) of
     (reply, m, fs) \<Rightarrow> ry_status reply = 400 \<and> map rule_raw (manager_rules m) = [''corp.example''] \<and> fs ''/config/rules'' \<noteq> None"
  "case handle_rules sample_web_env sample_request (wb_bypass sample_web, Map.empty) of
     (reply, m, fs) \<Rightarrow> ry_status reply = 201 \<and> map rule_raw (manager_rules m) = [''corp.example'']"
  by code_simp+

text \<open>
  A connection recorded after the snapshot of a stream and before its subscription is shown to the
  client by neither.
\<close>

lemma skip_old_subset: "set (skip_old c es) \<subseteq> set es"
  by (induction es) auto

lemma stream_misses_event_between:
  assumes "snapshot now 0 l = (shown, l1)" "record_event now' e l1 = (x, l2)"
    and "list_all (\<lambda>s. unat (ev_id s) \<le> unat (cl_seq l)) (cl_buf l)" "unat (cl_seq l) < 2 ^ 64 - 1"
  shows "x \<notin> set shown \<and> last (cl_subs (stream_subscribe i l2)) = \<lparr>ch_id = i, ch_open = True, ch_queue = []\<rparr>"
proof -
  have shown: "set shown \<subseteq> set (cl_buf l)" and seq: "cl_seq l1 = cl_seq l"
    using assms(1) skip_old_subset by (auto simp: snapshot_def prune_def Let_def dest!: in_set_dropD split: if_splits)
  have "ev_id x = cl_seq l + 1"
    using assms(2) seq by (auto simp: record_event_def Let_def split: if_splits)
  moreover have "unat (cl_seq l + 1) = unat (cl_seq l) + 1"
    using assms(4) by (simp add: unat_word_ariths)
  ultimately have "x \<notin> set (cl_buf l)"
    using assms(3) by (auto simp: list_all_iff)
  then show ?thesis
    using shown by (auto simp: stream_subscribe_def subscribe_def)
qed

end
