(* ===== verification/Event_Stream.thy ===== *)
theory Event_Stream
  imports Web_Api
begin

text \<open>
  The event stream of the management API (\<open>handleConnectionsStream\<close> and \<open>writeSSE\<close> of
  \<open>internal/webui/connections.go\<close>): a snapshot, then one frame for each event that arrives on the subscription
  and for each tick, until the client goes away or a write fails. The rest of the program works on the log
  in between. Texts are those of \<open>json.Marshal\<close>.
\<close>

section \<open>Texts\<close>

text \<open>A frame is an event name and its data.\<close>

type_synonym frame = "string \<times> string"

definition frame_text :: "frame list \<Rightarrow> string" where
  "frame_text fs = concat (map (\<lambda>f. write_sse (fst f) (snd f)) fs)"

definition snapshot_frame :: "web_env \<Rightarrow> event list \<Rightarrow> frame" where
  "snapshot_frame E es = (''snapshot'', marshal (JArr (map (event_json E) es)))"

definition conn_frame :: "web_env \<Rightarrow> event \<Rightarrow> frame" where
  "conn_frame E e = (''conn'', marshal (event_json E e))"

definition ping_frame :: "web_env \<Rightarrow> int \<Rightarrow> frame" where
  "ping_frame E now = (''ping'', marshal (JObj [(''t'', JStr (we_time_text E now))]))"

section \<open>The stream\<close>

text \<open>With what the client was sent, and as history what was recorded since the subscription and what was taken from the channel.\<close>

record stream =
  ss_log :: conn_log
  ss_chan :: nat
  ss_frames :: "frame list"
  ss_ended :: bool
  ss_recorded :: "event list"
  ss_taken :: "event list"

definition start_stream :: "web_env \<Rightarrow> bool \<Rightarrow> nat \<Rightarrow> conn_log \<Rightarrow> stream" where
  "start_stream E written i l0 =
     (case stream_open (we_now E) l0 of
        (shown, l) \<Rightarrow>
          \<lparr>ss_log = (if written then stream_subscribe i l else l), ss_chan = i,
           ss_frames = (if written then [snapshot_frame E shown] else []), ss_ended = \<not> written,
           ss_recorded = [], ss_taken = []\<rparr>)"

definition pending :: "nat \<Rightarrow> conn_log \<Rightarrow> event list" where
  "pending i l = (case find (\<lambda>ch. ch_id ch = i) (cl_subs l) of None \<Rightarrow> [] | Some ch \<Rightarrow> ch_queue ch)"

text \<open>The cases of the \<open>select\<close>, with whether the write succeeds; other operations on the log between them.\<close>

datatype stream_event = Elsewhere int log_op | PingDue int bool | ConnReady bool | RequestDone

fun on_channel :: "nat \<Rightarrow> log_op \<Rightarrow> bool" where
  "on_channel i (LSubscribe j) \<longleftrightarrow> i = j"
| "on_channel i (LUnsubscribe j) \<longleftrightarrow> i = j"
| "on_channel i (LReceive j) \<longleftrightarrow> i = j"
| "on_channel i x \<longleftrightarrow> False"

fun stream_can :: "stream_event \<Rightarrow> stream \<Rightarrow> bool" where
  "stream_can (Elsewhere now x) s \<longleftrightarrow> \<not> on_channel (ss_chan s) x"
| "stream_can (ConnReady ok) s \<longleftrightarrow> \<not> ss_ended s \<and> pending (ss_chan s) (ss_log s) \<noteq> []"
| "stream_can x s \<longleftrightarrow> \<not> ss_ended s"

definition end_stream :: "stream \<Rightarrow> stream" where
  "end_stream s = s\<lparr>ss_log := unsubscribe (ss_chan s) (ss_log s), ss_ended := True\<rparr>"

fun stream_do :: "unicode \<Rightarrow> web_env \<Rightarrow> stream_event \<Rightarrow> stream \<Rightarrow> stream" where
  "stream_do U E (Elsewhere now x) s =
     (case log_step U (now, x) (ss_log s, ss_recorded s) of (l, all) \<Rightarrow> s\<lparr>ss_log := l, ss_recorded := all\<rparr>)"
| "stream_do U E (PingDue now ok) s =
     (if ok then s\<lparr>ss_frames := ss_frames s @ [ping_frame E now]\<rparr> else end_stream s)"
| "stream_do U E (ConnReady ok) s =
     (let e = hd (pending (ss_chan s) (ss_log s)); s1 = s\<lparr>ss_log := receive (ss_chan s) (ss_log s)\<rparr> in
      if ok then s1\<lparr>ss_frames := ss_frames s1 @ [conn_frame E e], ss_taken := ss_taken s1 @ [e]\<rparr> else end_stream s1)"
| "stream_do U E RequestDone s = end_stream s"

inductive stream_run :: "(stream \<Rightarrow> stream_event \<Rightarrow> bool) \<Rightarrow> unicode \<Rightarrow> web_env \<Rightarrow> stream \<Rightarrow> stream \<Rightarrow> bool" for A U E s0 where
  start: "stream_run A U E s0 s0"
| next_case: "stream_run A U E s0 s \<Longrightarrow> stream_can e s \<Longrightarrow> A s e \<Longrightarrow> stream_run A U E s0 (stream_do U E e s)"

text \<open>The client reads fast enough: no event is recorded while 32 are pending.\<close>

fun keeps_up :: "stream \<Rightarrow> stream_event \<Rightarrow> bool" where
  "keeps_up s (Elsewhere now (LRecord f)) \<longleftrightarrow> length (pending (ss_chan s) (ss_log s)) < chan_buffer"
| "keeps_up s e \<longleftrightarrow> True"

section \<open>The channel of the stream\<close>

definition own_chan :: "nat \<Rightarrow> conn_log \<Rightarrow> chan option" where
  "own_chan i l = find (\<lambda>ch. ch_id ch = i) (cl_subs l)"

lemma pending_own: "pending i l = (case own_chan i l of None \<Rightarrow> [] | Some ch \<Rightarrow> ch_queue ch)"
  by (simp add: pending_def own_chan_def)

lemma find_map_same:
  assumes "\<And>x. P (f x) = P x"
  shows "find P (map f xs) = map_option f (find P xs)"
  using assms by (induction xs) auto

lemma find_append: "find P (xs @ ys) = (case find P xs of Some x \<Rightarrow> Some x | None \<Rightarrow> find P ys)"
  by (induction xs) auto

lemma own_chan_subscribe: "i \<noteq> j \<Longrightarrow> own_chan i (subscribe j l) = own_chan i l"
  by (simp add: own_chan_def subscribe_def find_append split: option.split)

lemma own_chan_new: "own_chan i l = None \<Longrightarrow> own_chan i (subscribe i l) = Some \<lparr>ch_id = i, ch_open = True, ch_queue = []\<rparr>"
  by (simp add: own_chan_def subscribe_def find_append)

lemma own_chan_map:
  assumes "\<And>ch. ch_id (f ch) = ch_id ch" "cl_subs l' = map f (cl_subs l)"
  shows "own_chan i l' = map_option f (own_chan i l)"
  using assms by (simp add: own_chan_def find_map_same)

lemma own_chan_id: "own_chan i l = Some ch \<Longrightarrow> ch_id ch = i"
  by (auto simp: own_chan_def find_Some_iff)

lemma own_chan_subs: "cl_subs l' = cl_subs l \<Longrightarrow> own_chan i l' = own_chan i l"
  by (simp add: own_chan_def)

lemma own_chan_unsubscribe:
  "own_chan i (unsubscribe j l) = map_option (\<lambda>ch. if i = j then ch\<lparr>ch_open := False\<rparr> else ch) (own_chan i l)"
proof -
  have "own_chan i (unsubscribe j l) = map_option (\<lambda>ch. if ch_id ch = j then ch\<lparr>ch_open := False\<rparr> else ch) (own_chan i l)"
    by (rule own_chan_map) (simp_all add: unsubscribe_def)
  then show ?thesis
    by (cases "own_chan i l") (auto dest: own_chan_id)
qed

lemma own_chan_receive:
  "own_chan i (receive j l) = map_option (\<lambda>ch. if i = j then ch\<lparr>ch_queue := tl (ch_queue ch)\<rparr> else ch) (own_chan i l)"
proof -
  have "own_chan i (receive j l) =
      map_option (\<lambda>ch. if ch_id ch = j then ch\<lparr>ch_queue := tl (ch_queue ch)\<rparr> else ch) (own_chan i l)"
    by (rule own_chan_map) (simp_all add: receive_def)
  then show ?thesis
    by (cases "own_chan i l") (auto dest: own_chan_id)
qed

lemma own_chan_record:
  assumes "from_fields U now f l = (e, l')"
  shows "own_chan i l' = map_option (offer e) (own_chan i l)"
proof (rule own_chan_map)
  show "cl_subs l' = map (offer e) (cl_subs l)"
    using assms by (auto simp: from_fields_def record_event_def Let_def push_def)
qed (simp add: offer_def)

section \<open>What the client is shown\<close>

definition stream_ok :: "web_env \<Rightarrow> stream \<Rightarrow> bool" where
  "stream_ok E s \<longleftrightarrow>
     (case own_chan (ss_chan s) (ss_log s) of
        None \<Rightarrow> ss_ended s \<and> ss_taken s = []
      | Some ch \<Rightarrow>
          ch_open ch = (\<not> ss_ended s) \<and> length (ch_queue ch) \<le> chan_buffer \<and>
          subseq (ss_taken s @ ch_queue ch) (ss_recorded s)) \<and>
     filter (\<lambda>f. fst f = ''conn'') (ss_frames s) = map (conn_frame E) (ss_taken s)"

lemma stream_ok_start: "own_chan i l = None \<Longrightarrow> stream_ok E (start_stream E written i l)"
proof -
  assume none: "own_chan i l = None"
  obtain shown l1 where o: "stream_open (we_now E) l = (shown, l1)"
    by (metis surj_pair)
  then have "cl_subs l1 = cl_subs l"
    by (auto simp: stream_open_def snapshot_def Let_def)
  then have "own_chan i l1 = None"
    using none by (simp add: own_chan_def)
  then show ?thesis
    using o by (auto simp: start_stream_def stream_ok_def stream_subscribe_def own_chan_new snapshot_frame_def chan_buffer_def)
qed

lemma subseq_offer: "subseq (u @ q) all \<Longrightarrow> subseq (u @ ch_queue (offer e ch)) (all @ [e])" if "q = ch_queue ch"
proof -
  assume "subseq (u @ q) all"
  then have "subseq ((u @ q) @ [e]) (all @ [e])" "subseq ((u @ q) @ []) (all @ [e])"
    by (rule list_emb_append_mono, simp)+
  then show ?thesis
    by (simp add: offer_def that)
qed

lemma elsewhere_chan:
  assumes "\<not> on_channel i x" "log_step U (now, x) (l, all) = (l', all')" "own_chan i l = Some ch"
  shows "(all' = all \<and> own_chan i l' = Some ch \<and> (\<forall>f. x \<noteq> LRecord f)) \<or>
    (\<exists>e f. x = LRecord f \<and> all' = all @ [e] \<and> own_chan i l' = Some (offer e ch))"
proof (cases x)
  case (LRecord f)
  obtain e m where "from_fields U now f l = (e, m)"
    by (metis surj_pair)
  then show ?thesis
    using assms own_chan_record [of U now f l e m i] by (auto simp: LRecord)
qed (use assms in \<open>auto simp: log_len_def snapshot_def log_stats_since_def Let_def own_chan_subscribe own_chan_unsubscribe
  own_chan_receive intro: trans [OF own_chan_subs]\<close>)

lemma stream_ok_step:
  assumes "stream_ok E s" "stream_can e s"
  shows "stream_ok E (stream_do U E e s)"
proof (cases e)
  case (Elsewhere now x)
  obtain l' all' where l: "log_step U (now, x) (ss_log s, ss_recorded s) = (l', all')"
    by (metis surj_pair)
  have other: "\<not> on_channel (ss_chan s) x"
    using assms(2) Elsewhere by simp
  show ?thesis
  proof (cases "own_chan (ss_chan s) (ss_log s)")
    case None
    have "own_chan (ss_chan s) l' = None"
    proof (cases x)
      case (LRecord f)
      obtain e m where "from_fields U now f (ss_log s) = (e, m)"
        by (metis surj_pair)
      then show ?thesis
        using l None own_chan_record [of U now f "ss_log s" e m "ss_chan s"] by (auto simp: LRecord)
    qed (use l None other in \<open>auto simp: log_len_def snapshot_def log_stats_since_def Let_def own_chan_subscribe
        own_chan_unsubscribe own_chan_receive intro: trans [OF own_chan_subs]\<close>)
    then show ?thesis
      using assms(1) None by (simp add: Elsewhere l stream_ok_def)
  next
    case (Some ch)
    then show ?thesis
      using assms(1) elsewhere_chan [OF other l Some] subseq_offer [of "ch_queue ch" ch]
      by (auto simp: Elsewhere l stream_ok_def offer_def)
  qed
next
  case (ConnReady ok)
  then obtain ch where ch: "own_chan (ss_chan s) (ss_log s) = Some ch" "ch_queue ch \<noteq> []" "\<not> ss_ended s"
    using assms(2) by (auto simp: pending_own split: option.splits)
  then obtain x q where q: "ch_queue ch = x # q"
    by (cases "ch_queue ch") auto
  have sub: "subseq (ss_taken s @ x # q) (ss_recorded s)"
    using assms(1) ch(1) q by (simp add: stream_ok_def)
  have "subseq (ss_taken s @ q) (ss_taken s @ x # q)"
    by (intro list_emb_append_mono) auto
  then have "subseq (ss_taken s @ q) (ss_recorded s)"
    using sub by (rule subseq_order.trans)
  then show ?thesis
    using assms(1) ch q sub
    by (simp add: ConnReady stream_ok_def Let_def end_stream_def own_chan_receive own_chan_unsubscribe pending_own conn_frame_def)
next
  case (PingDue now ok)
  then show ?thesis
    using assms by (auto simp: stream_ok_def end_stream_def own_chan_unsubscribe ping_frame_def split: option.splits)
next
  case RequestDone
  then show ?thesis
    using assms by (auto simp: stream_ok_def end_stream_def own_chan_unsubscribe split: option.splits)
qed

lemma stream_ok_run: "stream_run A U E s0 s \<Longrightarrow> stream_ok E s0 \<Longrightarrow> stream_ok E s"
  by (induction rule: stream_run.induct) (simp_all add: stream_ok_step)

text \<open>A reader that keeps up misses nothing.\<close>

definition stream_exact :: "stream \<Rightarrow> bool" where
  "stream_exact s \<longleftrightarrow> ss_ended s \<or> ss_taken s @ pending (ss_chan s) (ss_log s) = ss_recorded s"

lemma stream_exact_step:
  assumes "stream_ok E s" "stream_exact s" "stream_can e s" "keeps_up s e"
  shows "stream_exact (stream_do U E e s)"
proof (cases "ss_ended s")
  case True
  then show ?thesis
    using assms(3) by (cases e) (auto simp: stream_exact_def split: prod.split)
next
  case False
  then obtain ch where ch: "own_chan (ss_chan s) (ss_log s) = Some ch" "ch_open ch"
    using assms(1) by (auto simp: stream_ok_def split: option.splits)
  have exact: "ss_taken s @ ch_queue ch = ss_recorded s"
    using assms(2) False ch by (simp add: stream_exact_def pending_own)
  show ?thesis
  proof (cases e)
    case (Elsewhere now x)
    obtain l' all' where l: "log_step U (now, x) (ss_log s, ss_recorded s) = (l', all')"
      by (metis surj_pair)
    have "\<not> on_channel (ss_chan s) x"
      using assms(3) Elsewhere by simp
    from elsewhere_chan [OF this l ch(1)] show ?thesis
      using exact ch assms(4) by (auto simp: Elsewhere l stream_exact_def pending_own offer_def)
  next
    case (ConnReady ok)
    then obtain x q where "ch_queue ch = x # q"
      using assms(3) ch by (cases "ch_queue ch") (auto simp: pending_own)
    then show ?thesis
      using exact ch by (simp add: ConnReady stream_exact_def Let_def end_stream_def pending_own own_chan_receive)
  qed (use assms(2) in \<open>simp_all add: stream_exact_def end_stream_def\<close>)
qed

lemma stream_exact_run:
  "stream_run keeps_up U E s0 s \<Longrightarrow> stream_ok E s0 \<Longrightarrow> stream_exact s0 \<Longrightarrow> stream_exact s"
  by (induction rule: stream_run.induct) (auto intro: stream_exact_step stream_ok_run)

text \<open>
  C22: the stream shows the recorded connections in order. At every point of every run - with records, snapshots,
  other streams, ticks and failing writes in any order - the \<open>conn\<close> frames sent are those of the events taken
  from the channel, in the order of recording, none twice and none that was not recorded after the
  subscription; at most 32 more are pending. As long as no event is recorded while 32 are pending, what was
  sent and what is pending is exactly what was recorded.
\<close>
theorem stream_shows_connections:
  assumes "\<forall>ch \<in> set (cl_subs l). ch_id ch \<noteq> i" "stream_run A U E (start_stream E True i l) s"
  shows "filter (\<lambda>f. fst f = ''conn'') (ss_frames s) = map (conn_frame E) (ss_taken s) \<and>
    subseq (ss_taken s @ pending i (ss_log s)) (ss_recorded s) \<and> length (pending i (ss_log s)) \<le> 32 \<and>
    (stream_run keeps_up U E (start_stream E True i l) s \<and> \<not> ss_ended s \<longrightarrow>
       ss_taken s @ pending i (ss_log s) = ss_recorded s)"
proof -
  have new: "own_chan i l = None"
    using assms(1) by (auto simp: own_chan_def find_None_iff)
  have ok: "stream_ok E s"
    by (rule stream_ok_run [OF assms(2) stream_ok_start [OF new]])
  have chan: "ss_chan (stream_do U E e x) = ss_chan x" for e x
    by (cases e) (auto simp: end_stream_def Let_def split: prod.split)
  have i: "ss_chan s = i"
    using assms(2) by (induction rule: stream_run.induct) (simp_all add: chan start_stream_def split: prod.split)
  have start: "stream_exact (start_stream E True i l)"
  proof -
    obtain shown l1 where o: "stream_open (we_now E) l = (shown, l1)"
      by (metis surj_pair)
    then have "own_chan i l1 = None"
      using new by (auto simp: stream_open_def snapshot_def Let_def own_chan_def)
    then show ?thesis
      using o by (simp add: start_stream_def stream_exact_def pending_own stream_subscribe_def own_chan_new)
  qed
  have "subseq (ss_taken s @ pending i (ss_log s)) (ss_recorded s) \<and> length (pending i (ss_log s)) \<le> 32"
    using ok i by (auto simp: stream_ok_def pending_own chan_buffer_def split: option.splits)
  moreover have "ss_taken s @ pending i (ss_log s) = ss_recorded s"
    if "stream_run keeps_up U E (start_stream E True i l) s" "\<not> ss_ended s"
    using stream_exact_run [OF that(1) stream_ok_start [OF new] start] that(2) i by (simp add: stream_exact_def)
  ultimately show ?thesis
    using ok by (simp add: stream_ok_def)
qed

section \<open>The text of a stream\<close>

definition one_line_text :: "string \<Rightarrow> bool" where
  "one_line_text s \<longleftrightarrow> CHR 0x0A \<notin> set s \<and> CHR 0x0D \<notin> set s"

lemma one_line_append [simp]: "one_line_text (s @ t) \<longleftrightarrow> one_line_text s \<and> one_line_text t"
  by (auto simp: one_line_text_def)

lemma one_line_join: "one_line_text sep \<Longrightarrow> (\<And>s. s \<in> set ss \<Longrightarrow> one_line_text s) \<Longrightarrow> one_line_text (join sep ss)"
  by (induction sep ss rule: join.induct) (auto simp: one_line_text_def)

lemma printable_one_line: "(\<And>c. c \<in> set s \<Longrightarrow> 32 \<le> byte c) \<Longrightarrow> one_line_text s"
proof -
  assume a: "\<And>c. c \<in> set s \<Longrightarrow> 32 \<le> byte c"
  have "\<not> 32 \<le> byte (CHR 0x0A)" "\<not> 32 \<le> byte (CHR 0x0D)"
    by (simp_all add: byte_def)
  then show ?thesis
    using a by (auto simp: one_line_text_def)
qed

lemma json_quote_one_line: "one_line_text (json_quote s) \<and> json_quote s \<noteq> []"
  using printable_one_line [of "json_quote s"] json_quote_plain by (auto simp: json_quote_def)

lemma show_int_one_line: "one_line_text (show_int i) \<and> show_int i \<noteq> []"
proof -
  have "32 \<le> byte c" if "c \<in> set (show_nat n)" for c n
  proof -
    have "is_digit c"
      using show_nat_digits [of n] that by (simp add: list_all_iff)
    then have "is_graph c"
      using is_digit_graph by blast
    then show ?thesis
      by (simp add: is_graph_def)
  qed
  then have "one_line_text (show_nat n)" for n
    by (rule printable_one_line)
  moreover have "show_nat n \<noteq> []" for n
    by (subst show_nat.simps) simp
  moreover have "one_line_text ''-''"
    by (simp add: one_line_text_def)
  ultimately show ?thesis
    by (simp only: show_int_def one_line_append append_is_Nil_conv split: if_split) simp
qed

lemma punctuation_one_line: "one_line_text '',''" "one_line_text '':''" "one_line_text ''[''" "one_line_text '']''" "one_line_text ''{''" "one_line_text ''}''"
  "one_line_text ''true''" "one_line_text ''false''"
  by (simp_all add: one_line_text_def)

lemma marshal_one_line: "one_line_text (marshal j) \<and> marshal j \<noteq> []"
proof (induction j rule: marshal.induct)
  case (4 vs)
  have "one_line_text (join '','' (map marshal vs))"
    using 4 by (intro one_line_join) (auto simp: punctuation_one_line)
  then show ?case
    using punctuation_one_line by (simp only: marshal.simps one_line_append) simp
next
  case (5 fs)
  have "one_line_text (join '','' (map (\<lambda>f. json_quote (fst f) @ '':'' @ marshal (snd f)) fs))"
    using 5 json_quote_one_line
    by (intro one_line_join) (auto simp only: set_map one_line_append punctuation_one_line)
  then show ?case
    using punctuation_one_line by (simp only: marshal.simps one_line_append) simp
qed (simp_all add: json_quote_one_line show_int_one_line punctuation_one_line)

text \<open>
  What the client's \<open>EventSource\<close> reads: \<open>event\<close> and \<open>data\<close> lines make up a frame, an empty line ends it.
\<close>

fun read_frames :: "frame \<Rightarrow> string list \<Rightarrow> frame list" where
  "read_frames f [] = []"
| "read_frames (ev, d) (l # ls) =
     (if l = [] then (if d = [] then [] else [(ev, d)]) @ read_frames ([], []) ls
      else if has_prefix l ''event: '' then read_frames (drop 7 l, d) ls
      else if has_prefix l ''data: '' then read_frames (ev, d @ drop 6 l) ls
      else read_frames (ev, d) ls)"

definition event_source :: "string \<Rightarrow> frame list" where
  "event_source text = read_frames ([], []) (split_on CHR 0x0A text)"

definition frame_ok :: "frame \<Rightarrow> bool" where
  "frame_ok f \<longleftrightarrow> one_line_text (fst f) \<and> one_line_text (snd f) \<and> snd f \<noteq> []"

lemma event_source_frame:
  assumes "frame_ok (ev, d)"
  shows "event_source (write_sse ev d @ rest) = (ev, d) # event_source rest"
proof -
  have n: "CHR 0x0A \<notin> set (''event: '' @ ev)" "CHR 0x0A \<notin> set (''data: '' @ d)"
    using assms by (auto simp: frame_ok_def one_line_text_def)
  have "write_sse ev d @ rest = (''event: '' @ ev) @ CHR 0x0A # (''data: '' @ d) @ CHR 0x0A # [] @ CHR 0x0A # rest"
    by (simp add: write_sse_def)
  then have "split_on CHR 0x0A (write_sse ev d @ rest) =
      (''event: '' @ ev) # (''data: '' @ d) # [] # split_on CHR 0x0A rest"
    using split_on_append [OF n(1)] split_on_append [OF n(2)] split_on_append [of "CHR 0x0A" "[]"] by simp
  then show ?thesis
    using assms by (simp add: event_source_def has_prefix_def frame_ok_def)
qed

lemma event_source_frames: "list_all frame_ok fs \<Longrightarrow> event_source (frame_text fs) = fs"
  by (induction fs) (auto simp: frame_text_def event_source_frame, simp add: event_source_def)

lemma frames_ok_run:
  assumes "stream_run A U E (start_stream E written i l) s"
  shows "list_all frame_ok (ss_frames s)"
proof -
  note ok = marshal_one_line
  have f: "frame_ok (snapshot_frame E es)" "frame_ok (conn_frame E e)" "frame_ok (ping_frame E now)" for es e now
    using ok by (simp_all add: frame_ok_def snapshot_frame_def conn_frame_def ping_frame_def one_line_text_def del: marshal.simps)
  have step: "list_all frame_ok (ss_frames (stream_do U E e x))" if "list_all frame_ok (ss_frames x)" for e x
    using that f by (cases e) (auto simp: end_stream_def Let_def split: prod.split)
  show ?thesis
    using assms f by (induction rule: stream_run.induct) (simp_all add: step start_stream_def split: prod.split)
qed

lemma event_fits: "json_fits 0 (event_json E e)"
  by (simp add: event_json_def opt_field_def max_nesting_def)

lemma conn_data_reads: "read_value (snd (conn_frame E e)) = Some (value_of (event_json E e), [])"
  using read_marshal [OF event_fits, of "[]" E e] by (simp add: conn_frame_def)

text \<open>
  C30: what the client reads is what was recorded. Host names, error texts and rules come from clients and
  servers and may hold any byte, line ends included. Whatever was recorded, reading the text of a stream by the
  rules of server-sent events gives back exactly the frames it sent, one line of data each, and reading the data
  of its \<open>conn\<close> frames as JSON gives exactly the fields of the events taken from the channel, in their order -
  only bytes that are not UTF-8 are replaced.
\<close>
theorem stream_reads_back:
  assumes "\<forall>ch \<in> set (cl_subs l). ch_id ch \<noteq> i" "stream_run A U E (start_stream E True i l) s"
  shows "event_source (frame_text (ss_frames s)) = ss_frames s \<and>
    (\<forall>f \<in> set (ss_frames s). CHR 0x0A \<notin> set (snd f) \<and> CHR 0x0D \<notin> set (snd f)) \<and>
    map (\<lambda>f. read_value (snd f)) (filter (\<lambda>f. fst f = ''conn'') (event_source (frame_text (ss_frames s)))) =
      map (\<lambda>e. Some (value_of (event_json E e), [])) (ss_taken s)"
proof -
  note ok = frames_ok_run [OF assms(2)]
  have "own_chan i l = None"
    using assms(1) by (auto simp: own_chan_def find_None_iff)
  then have "filter (\<lambda>f. fst f = ''conn'') (ss_frames s) = map (conn_frame E) (ss_taken s)"
    using stream_ok_run [OF assms(2) stream_ok_start] by (simp add: stream_ok_def)
  then show ?thesis
    using ok event_source_frames [OF ok] by (auto simp: list_all_iff frame_ok_def one_line_text_def conn_data_reads)
qed

section \<open>A stream\<close>

fun stream_may :: "(stream \<Rightarrow> stream_event \<Rightarrow> bool) \<Rightarrow> unicode \<Rightarrow> web_env \<Rightarrow> stream_event list \<Rightarrow> stream \<Rightarrow> bool" where
  "stream_may A U E [] s \<longleftrightarrow> True"
| "stream_may A U E (e # es) s \<longleftrightarrow> stream_can e s \<and> A s e \<and> stream_may A U E es (stream_do U E e s)"

lemma stream_run_may:
  "stream_run A U E s0 s \<Longrightarrow> stream_may A U E es s \<Longrightarrow> stream_run A U E s0 (fold (stream_do U E) es s)"
  by (induction es arbitrary: s) (auto intro: stream_run.next_case)

text \<open>A client asks for a host whose name holds a frame of its own, and a byte that is not UTF-8.\<close>

definition sample_injection :: fields where
  "sample_injection = sample_fields\<lparr>fl_host := ''a'' @ [CHR 0xFF, CHR 0x0A, CHR 0x0A] @ ''event: conn'' @ [CHR 0x0A] @ ''data: {}''\<rparr>"

definition sample_stream_events :: "stream_event list" where
  "sample_stream_events = [Elsewhere 1005 (LRecord sample_injection), PingDue 1006 True, ConnReady True,
     Elsewhere 1007 (LRecord sample_fields)]"

definition sample_stream :: stream where
  "sample_stream = fold (stream_do ascii_tables sample_web_env) sample_stream_events
     (start_stream sample_web_env True 0 (new_log 500))"

lemma sample_stream_run: "stream_run keeps_up ascii_tables sample_web_env (start_stream sample_web_env True 0 (new_log 500)) sample_stream"
proof -
  have "stream_may keeps_up ascii_tables sample_web_env sample_stream_events (start_stream sample_web_env True 0 (new_log 500))"
    by code_simp
  then show ?thesis
    unfolding sample_stream_def by (rule stream_run_may [OF stream_run.start])
qed

theorem stream_shows_connections_witness:
  "ss_taken sample_stream @ pending 0 (ss_log sample_stream) = ss_recorded sample_stream \<and>
   map ev_id (ss_recorded sample_stream) = [1, 2] \<and> map fst (ss_frames sample_stream) = [''snapshot'', ''ping'', ''conn'']"
proof -
  have "\<forall>ch \<in> set (cl_subs (new_log 500)). ch_id ch \<noteq> 0"
    by (simp add: new_log_def new_with_ttl_def Let_def)
  moreover have "\<not> ss_ended sample_stream" "map ev_id (ss_recorded sample_stream) = [1, 2]"
    "map fst (ss_frames sample_stream) = [''snapshot'', ''ping'', ''conn'']"
    by code_simp+
  ultimately show ?thesis
    using stream_shows_connections [OF _ sample_stream_run] sample_stream_run by blast
qed

theorem stream_reads_back_witness:
  "event_source (frame_text (ss_frames sample_stream)) = ss_frames sample_stream \<and> length (ss_frames sample_stream) = 3 \<and>
   map (\<lambda>f. read_value (snd f)) (filter (\<lambda>f. fst f = ''conn'') (event_source (frame_text (ss_frames sample_stream)))) =
     map (\<lambda>e. Some (value_of (event_json sample_web_env e), [])) (ss_taken sample_stream) \<and>
   map (\<lambda>e. to_valid (ev_host e)) (ss_taken sample_stream) =
     [''a'' @ replacement @ [CHR 0x0A, CHR 0x0A] @ ''event: conn'' @ [CHR 0x0A] @ ''data: {}'']"
proof -
  have "\<forall>ch \<in> set (cl_subs (new_log 500)). ch_id ch \<noteq> 0"
    by (simp add: new_log_def new_with_ttl_def Let_def)
  moreover have "length (ss_frames sample_stream) = 3" "map (\<lambda>e. to_valid (ev_host e)) (ss_taken sample_stream) =
     [''a'' @ replacement @ [CHR 0x0A, CHR 0x0A] @ ''event: conn'' @ [CHR 0x0A] @ ''data: {}'']"
    by code_simp+
  ultimately show ?thesis
    using stream_reads_back [OF _ sample_stream_run] by blast
qed

end
