(* ===== verification/Web_Rules.thy ===== *)
theory Web_Rules
  imports Web_Api
begin

text \<open>
  The rules through the API, from the text of a request to the state and back: what a client of \<open>internal/webui\<close>
  sends in a body is what the managers are given, and what it reads afterwards is what they hold.
\<close>

section \<open>Bodies\<close>

text \<open>A struct of one field, written by a client as JSON.\<close>

lemma decode_string_body:
  "to_valid k = k \<Longrightarrow> decode_string k (marshal (JObj [(k, JStr s)])) = (to_valid s, DecodeOk)"
proof -
  assume k: "to_valid k = k"
  have "decode (marshal (JObj [(k, JStr s)])) (IsStruct [(k, IsString [])]) =
      assign_outcome (value_of (JObj [(k, JStr s)])) (IsStruct [(k, IsString [])])"
    using decode_marshal [of "JObj [(k, JStr s)]" "[]"] by (simp add: max_nesting_def del: marshal.simps)
  then show ?thesis
    by (simp add: decode_string_def k assign_outcome_def field_of_def get_field_def set_field_def assign_string_def
        string_at_def del: marshal.simps)
qed

lemma decode_strings_body:
  "to_valid k = k \<Longrightarrow> decode_strings k (marshal (JObj [(k, JArr (map JStr ss))])) = (Some (map to_valid ss), DecodeOk)"
proof -
  assume k: "to_valid k = k"
  let ?v = "JObj [(k, JArr (map JStr ss))]"
  have "decode (marshal ?v) (IsStruct [(k, IsStrings None)]) = assign_outcome (value_of ?v) (IsStruct [(k, IsStrings None)])"
    using decode_marshal [of ?v "[]"] by (simp add: max_nesting_def del: marshal.simps)
  moreover have "map value_of (map JStr ss) = map (\<lambda>s. VStr (to_valid s)) ss"
    by simp
  ultimately show ?thesis
    by (simp add: decode_strings_def k assign_outcome_def field_of_def get_field_def set_field_def
        strings_at_def assign_strings_new comp_def del: marshal.simps)
qed

section \<open>A list of rules\<close>

text \<open>What the manager holds after a list of rules: their canonical forms, each once, at its first place.\<close>

lemma commit_rules: "commit F rs v s fs = (Inr x, s', tr) \<Longrightarrow> st_rules s' = rs"
  by (auto simp: commit_def split: prod.splits option.splits)

lemma commit_fails: "commit F rs v s fs = (Inl e, s', tr) \<Longrightarrow> s' = s"
  by (auto simp: commit_def split: prod.splits option.splits)

lemma rules_reparsed: "\<forall>r \<in> set rs. rule_wf U r \<Longrightarrow> map_result (\<lambda>r. parse_rule U (rule_raw r)) rs = Inr (map reparsed rs)"
  by (induction rs) (simp_all add: parse_rule_raw)

lemma set_rules_result:
  assumes "list_all is_ascii lines" "set_rules U F L lines m fs = (e, m', tr)"
  shows "(case map_result (parse_rule U) lines of
      Inl x \<Rightarrow> e = Some (StoreErr (BadRule x)) \<and> m' = m
    | Inr rs \<Rightarrow>
        (\<exists>x. e = Some (StoreErr x)) \<and> m' = m \<or>
        (\<forall>x. e \<noteq> Some (StoreErr x)) \<and> manager_rules m' = dedup_by rule_raw {} (map reparsed rs))"
proof (cases "map_result (parse_rule U) lines")
  case (Inl x)
  then show ?thesis
    using assms(2) by (simp add: set_rules_def)
next
  case (Inr rs)
  have wf: "rule_wf U r" if r: "r \<in> set rs" for r
  proof -
    obtain l where "l \<in> set lines" "parse_rule U l = Inr r"
      using map_result_set [OF Inr r] by blast
    then show ?thesis
      using assms(1) parse_rule_wf by (metis list_all_iff)
  qed
  have clean: "clean_rules U {} rs = Inr (dedup_by rule_raw {} (map reparsed rs))"
    using rules_reparsed [of rs U] wf by (simp add: clean_rules_eq)
  obtain r s' t where c: "commit F (dedup_by rule_raw {} (map reparsed rs)) () (mg_store m) fs = (r, s', t)"
    by (metis prod_cases3)
  show ?thesis
  proof (cases r)
    case (Inl x)
    then show ?thesis
      using assms(2) Inr commit_fails [OF c [unfolded Inl]] by (auto simp: set_rules_def store_set_def clean c)
  next
    case ok: (Inr u)
    obtain d m2 where d: "refresh L (rebuild_matcher (m\<lparr>mg_store := s'\<rparr>)) = (d, m2)"
      by (metis surj_pair)
    have "mg_store (snd (refresh L (rebuild_matcher (m\<lparr>mg_store := s'\<rparr>)))) = s'"
      by simp
    then have "mg_store m2 = s'"
      by (simp only: d snd_conv)
    then show ?thesis
      using assms(2) Inr commit_rules [OF c [unfolded ok]]
      by (auto simp: set_rules_def store_set_def clean c ok d manager_rules_def store_rules_def)
  qed
qed

lemma bypass_request:
  assumes "we_token E \<noteq> []" "we_has_bypass E" "check_token r (we_token E) False" "rq_path r = ''/api/v1/bypass''"
  shows "serve_web E R k H r w =
    (case handle_rules E r (wb_bypass w, sw_fs (wb_switch w)) of
       (x, m, fs) \<Rightarrow> (x, w\<lparr>wb_bypass := m, wb_switch := (wb_switch w)\<lparr>sw_fs := fs\<rparr>\<rparr>))"
proof -
  have "trim_suffix (trim_prefix ''/api/v1/bypass'' ''/api/v1/bypass'') ''/'' = []"
    by code_simp
  then show ?thesis
    using assms
    by (simp add: serve_web_def api_route_def below_def token_auth_def route_bypass_def route_rules_def Let_def
        del: refresh_fields split: prod.split)
qed

text \<open>
  C10: the rules a client writes are the rules in force. A client with the token sends the JSON text of any list
  of ASCII lines. When it is answered 200 every line was a rule and the manager holds their canonical forms, each
  once and in the order of the lines; otherwise it is answered 400, and the rules are the ones from before or,
  when only a name did not resolve, the new ones. The block list, the key and the log are not touched; and a
  GET that follows shows exactly the rules the manager holds and changes nothing.
\<close>
theorem put_rules_then_get:
  assumes "we_token E \<noteq> []" "we_has_bypass E" "list_all is_ascii lines"
    and "check_token r (we_token E) False" "rq_method r = ''PUT''" "rq_path r = ''/api/v1/bypass''"
    and "rq_body r = marshal (JObj [(''rules'', JArr (map JStr lines))])" "serve_web E R k H r w = (x, w')"
    and "check_token g (we_token E) False" "rq_method g = ''GET''" "rq_path g = ''/api/v1/bypass''"
  shows "(if ry_status x = 200
      then \<exists>rs. map_result (parse_rule (we_unicode E)) lines = Inr rs \<and>
        manager_rules (wb_bypass w') = dedup_by rule_raw {} (map reparsed rs)
      else ry_status x = 400 \<and>
        (wb_bypass w' = wb_bypass w \<or>
         (\<exists>rs. map_result (parse_rule (we_unicode E)) lines = Inr rs \<and>
            manager_rules (wb_bypass w') = dedup_by rule_raw {} (map reparsed rs)))) \<and>
    (wb_block w', wb_client w', wb_log w') = (wb_block w, wb_client w, wb_log w) \<and>
    serve_web E R k H g w' =
      (write_json 200 (JObj [(''rules'', JArr (map rule_json (manager_rules (wb_bypass w'))))]), w')"
proof -
  let ?U = "we_unicode E" and ?fs = "sw_fs (wb_switch w)"
  have "map to_valid lines = lines"
    using assms(3) by (auto simp: list_all_iff to_valid_ascii intro: map_idI)
  moreover have "to_valid ''rules'' = ''rules''"
    by code_simp
  ultimately have body: "decode_strings ''rules'' (rq_body r) = (Some lines, DecodeOk)"
    using decode_strings_body [of "''rules''" lines] assms(7) by simp
  obtain e m' tr where set: "set_rules ?U (we_faults E) (we_lookup E) lines (wb_bypass w) ?fs = (e, m', tr)"
    by (metis prod_cases3)
  have "handle_rules E r (wb_bypass w, ?fs) =
      ((case e of None \<Rightarrow> write_json 200 (JObj [(''ok'', JBool True), (''count'', JInt (int (length lines)))])
        | Some d \<Rightarrow> write_err 400 (we_mgr_text E d)), m', final_fs ?fs tr)"
    using assms(5) by (simp add: handle_rules_def body set split: option.split)
  then have put: "x = (case e of None \<Rightarrow> write_json 200 (JObj [(''ok'', JBool True), (''count'', JInt (int (length lines)))])
        | Some d \<Rightarrow> write_err 400 (we_mgr_text E d))"
    "w' = w\<lparr>wb_bypass := m', wb_switch := (wb_switch w)\<lparr>sw_fs := final_fs ?fs tr\<rparr>\<rparr>"
    using assms(8) by (simp_all add: bypass_request [OF assms(1,2,4,6)])
  have status: "ry_status x = (if e = None then 200 else 400)"
    by (simp add: put(1) write_json_def write_err_def split: option.split)
  have get: "serve_web E R k H g w' =
      (write_json 200 (JObj [(''rules'', JArr (map rule_json (manager_rules (wb_bypass w'))))]), w')"
    using assms(10) by (simp add: bypass_request [OF assms(1,2,9,11)] handle_rules_def)
  show ?thesis
    using set_rules_result [OF assms(3) set] status get
    by (cases "map_result (parse_rule ?U) lines") (auto simp: put(2))
qed

definition sample_put :: request where
  "sample_put = sample_request\<lparr>rq_method := ''PUT'', rq_auth := ''Bearer s3<cret'',
     rq_body := marshal (JObj [(''rules'', JArr (map JStr [''10.1.2.3'', ''Corp.Example'', ''10.1.2.3/24'', ''corp.example.'']))])\<rparr>"

definition sample_rules_env :: web_env where
  "sample_rules_env = sample_web_env\<lparr>we_lookup := (\<lambda>h. Inr [])\<rparr>"

definition sample_put_result :: "reply \<times> web" where
  "sample_put_result = serve_web sample_rules_env None False sample_health sample_put sample_web"

theorem put_rules_then_get_witness:
  "serve_web sample_rules_env None False sample_health (sample_put\<lparr>rq_method := ''GET''\<rparr>) (snd sample_put_result) =
     (write_json 200 (JObj [(''rules'', JArr (map rule_json (manager_rules (wb_bypass (snd sample_put_result)))))]),
      snd sample_put_result) \<and>
   wb_block (snd sample_put_result) = wb_block sample_web \<and>
   ry_status (fst sample_put_result) = 200 \<and>
   map rule_raw (manager_rules (wb_bypass (snd sample_put_result))) = [''10.1.2.3'', ''corp.example'', ''10.1.2.0/24'']"
proof -
  let ?lines = "[''10.1.2.3'', ''Corp.Example'', ''10.1.2.3/24'', ''corp.example.'']"
  let ?get = "sample_put\<lparr>rq_method := ''GET''\<rparr>"
  have e: "we_token sample_rules_env \<noteq> []" "we_has_bypass sample_rules_env" "list_all is_ascii ?lines"
    by code_simp+
  have p: "check_token sample_put (we_token sample_rules_env) False" "rq_method sample_put = ''PUT''"
    "rq_path sample_put = ''/api/v1/bypass''"
    by code_simp+
  have b: "rq_body sample_put = marshal (JObj [(''rules'', JArr (map JStr ?lines))])"
    by (simp add: sample_put_def)
  have r: "serve_web sample_rules_env None False sample_health sample_put sample_web = (fst sample_put_result, snd sample_put_result)"
    by (simp add: sample_put_result_def)
  have g: "check_token ?get (we_token sample_rules_env) False" "rq_method ?get = ''GET''" "rq_path ?get = ''/api/v1/bypass''"
    by code_simp+
  have x: "ry_status (fst sample_put_result) = 200"
    "map rule_raw (manager_rules (wb_bypass (snd sample_put_result))) = [''10.1.2.3'', ''corp.example'', ''10.1.2.0/24'']"
    by code_simp+
  show ?thesis
    using put_rules_then_get [OF e p b r g] x by simp
qed

end
