(* ===== verification/Amnezia_Conf.thy ===== *)
theory Amnezia_Conf
  imports Go_Base64 Gate_Config Go_Json
begin

text \<open>
  \<open>internal/amnezia/conf.go\<close>: the AmneziaWG configuration. The INI parser, the addresses read from it,
  the keys, and the two bodies that configure the daemon over its UAPI socket, one \<open>key=value\<close> line
  for each setting. A blank line would end a body early, a line end inside a value would smuggle in another
  setting: the theorems below exclude both.
\<close>

section \<open>The configuration\<close>

record awg_conf =
  ac_address :: string
  ac_dns :: "string list"
  ac_private :: string
  ac_public :: string
  ac_psk :: string
  ac_endpoint :: string
  ac_allowed :: "string list"
  ac_keepalive :: string
  ac_jc :: string
  ac_jmin :: string
  ac_jmax :: string
  ac_s1 :: string
  ac_s2 :: string
  ac_s3 :: string
  ac_s4 :: string
  ac_h1 :: string
  ac_h2 :: string
  ac_h3 :: string
  ac_h4 :: string
  ac_hpk :: string
  ac_rekey_after :: string
  ac_rekey_timeout :: string
  ac_reject_after :: string
  ac_keepalive_timeout :: string
  ac_max_handshake :: string
  ac_padding :: string
  ac_name :: string
  ac_service_type :: string
  ac_service_protocol :: string

definition empty_conf :: awg_conf where
  "empty_conf =
     \<lparr>ac_address = [], ac_dns = [], ac_private = [], ac_public = [], ac_psk = [], ac_endpoint = [], ac_allowed = [],
      ac_keepalive = [], ac_jc = [], ac_jmin = [], ac_jmax = [], ac_s1 = [], ac_s2 = [], ac_s3 = [], ac_s4 = [],
      ac_h1 = [], ac_h2 = [], ac_h3 = [], ac_h4 = [], ac_hpk = [], ac_rekey_after = [], ac_rekey_timeout = [],
      ac_reject_after = [], ac_keepalive_timeout = [], ac_max_handshake = [], ac_padding = [], ac_name = [],
      ac_service_type = [], ac_service_protocol = []\<rparr>"

definition endpoint_ip :: "awg_conf \<Rightarrow> ip option" where
  "endpoint_ip c =
     (let e = trim_space (ac_endpoint c);
          host = (case split_host_port e of Inl x \<Rightarrow> e | Inr hp \<Rightarrow> fst hp)
      in case parse_ip host of
           None \<Rightarrow> None
         | Some a \<Rightarrow> (case to4 a of Some v4 \<Rightarrow> Some (IP4 v4) | None \<Rightarrow> Some a))"

datatype addr_conf_error = MissingAddress | BadAddressCIDR | BadAddressIP

definition interface_addr :: "awg_conf \<Rightarrow> addr_conf_error + ip \<times> ipnet" where
  "interface_addr c =
     (let s = trim_space (ac_address c) in
      if s = [] then Inl MissingAddress
      else if contains s ''/'' then (case parse_cidr s of None \<Rightarrow> Inl BadAddressCIDR | Some an \<Rightarrow> Inr an)
      else case parse_ip s of
             None \<Rightarrow> Inl BadAddressIP
           | Some a \<Rightarrow> (case to4 a of Some v4 \<Rightarrow> Inr (IP4 v4, Net4 v4 32) | None \<Rightarrow> Inr (a, Net6 (to16 a) 128)))"

section \<open>The parser\<close>

definition awg_split_csv :: "string \<Rightarrow> string list" where
  "awg_split_csv v = filter (\<lambda>p. p \<noteq> []) (map trim_space (split_on CHR '','' v))"

definition first_csv :: "string \<Rightarrow> string" where
  "first_csv v = (case awg_split_csv v of [] \<Rightarrow> [] | p # ps \<Rightarrow> p)"

type_synonym key_table = "(string \<times> (string \<Rightarrow> awg_conf \<Rightarrow> awg_conf)) list"

definition interface_keys :: key_table where
  "interface_keys =
    [(''address'', \<lambda>v c. c\<lparr>ac_address := first_csv v\<rparr>),
     (''dns'', \<lambda>v c. c\<lparr>ac_dns := awg_split_csv v\<rparr>),
     (''privatekey'', \<lambda>v c. c\<lparr>ac_private := v\<rparr>),
     (''jc'', \<lambda>v c. c\<lparr>ac_jc := v\<rparr>),
     (''jmin'', \<lambda>v c. c\<lparr>ac_jmin := v\<rparr>),
     (''jmax'', \<lambda>v c. c\<lparr>ac_jmax := v\<rparr>),
     (''s1'', \<lambda>v c. c\<lparr>ac_s1 := v\<rparr>),
     (''s2'', \<lambda>v c. c\<lparr>ac_s2 := v\<rparr>),
     (''s3'', \<lambda>v c. c\<lparr>ac_s3 := v\<rparr>),
     (''s4'', \<lambda>v c. c\<lparr>ac_s4 := v\<rparr>),
     (''h1'', \<lambda>v c. c\<lparr>ac_h1 := v\<rparr>),
     (''h2'', \<lambda>v c. c\<lparr>ac_h2 := v\<rparr>),
     (''h3'', \<lambda>v c. c\<lparr>ac_h3 := v\<rparr>),
     (''h4'', \<lambda>v c. c\<lparr>ac_h4 := v\<rparr>),
     (''headerprotectionkey'', \<lambda>v c. c\<lparr>ac_hpk := v\<rparr>),
     (''rekeyaftertime'', \<lambda>v c. c\<lparr>ac_rekey_after := v\<rparr>),
     (''rekeytimeout'', \<lambda>v c. c\<lparr>ac_rekey_timeout := v\<rparr>),
     (''rejectaftertime'', \<lambda>v c. c\<lparr>ac_reject_after := v\<rparr>),
     (''keepalivetimeout'', \<lambda>v c. c\<lparr>ac_keepalive_timeout := v\<rparr>),
     (''maxhandshakeattempts'', \<lambda>v c. c\<lparr>ac_max_handshake := v\<rparr>),
     (''contentpaddingaddition'', \<lambda>v c. c\<lparr>ac_padding := v\<rparr>)]"

definition peer_keys :: key_table where
  "peer_keys =
    [(''publickey'', \<lambda>v c. c\<lparr>ac_public := v\<rparr>),
     (''presharedkey'', \<lambda>v c. c\<lparr>ac_psk := v\<rparr>),
     (''endpoint'', \<lambda>v c. c\<lparr>ac_endpoint := v\<rparr>),
     (''allowedips'', \<lambda>v c. c\<lparr>ac_allowed := awg_split_csv v\<rparr>),
     (''persistentkeepalive'', \<lambda>v c. c\<lparr>ac_keepalive := v\<rparr>)]"

definition section_keys :: "string \<Rightarrow> key_table" where
  "section_keys sec = (if sec = ''interface'' then interface_keys else if sec = ''peer'' then peer_keys else [])"

text \<open>One assignment; an unknown key is ignored.\<close>

definition conf_assign :: "unicode \<Rightarrow> string \<Rightarrow> string \<Rightarrow> awg_conf \<Rightarrow> awg_conf" where
  "conf_assign U sec line c =
     (case cut line CHR ''='' of
        None \<Rightarrow> c
      | Some (k, v) \<Rightarrow>
          (case map_of (section_keys sec) (to_lower U (trim_space k)) of
             None \<Rightarrow> c
           | Some f \<Rightarrow> f (trim_space v) c))"

definition conf_line :: "unicode \<Rightarrow> string \<Rightarrow> string \<times> awg_conf \<Rightarrow> string \<times> awg_conf" where
  "conf_line U raw st =
     (let (sec, c) = st; line = trim_space raw in
      if line = [] \<or> has_prefix line ''#'' \<or> has_prefix line '';'' then (sec, c)
      else if has_prefix line ''['' \<and> has_suffix line '']'' then
        (to_lower U (trim_space (butlast (tl line))), c)
      else (sec, conf_assign U sec line c))"

datatype conf_error = ConfIncomplete

definition parse_conf :: "unicode \<Rightarrow> string \<Rightarrow> conf_error + awg_conf" where
  "parse_conf U s =
     (let c = snd (fold (conf_line U) (split_on CHR 0x0A s) ([], empty_conf)) in
      if ac_private c = [] \<or> ac_public c = [] \<or> ac_endpoint c = [] then Inl ConfIncomplete
      else Inr (if ac_allowed c = [] then c\<lparr>ac_allowed := [''0.0.0.0/0'']\<rparr> else c))"

definition load_awg_file :: "unicode \<Rightarrow> fs \<Rightarrow> string \<Rightarrow> (conf_error + awg_conf) option" where
  "load_awg_file U fs path = map_option (\<lambda>f. parse_conf U (file_data f)) (fs path)"

section \<open>Keys\<close>

definition pad_b64 :: "string \<Rightarrow> string" where
  "pad_b64 s = (if length s mod 4 = 2 then s @ ''=='' else if length s mod 4 = 3 then s @ ''='' else s)"

definition trim_right_char :: "char \<Rightarrow> string \<Rightarrow> string" where
  "trim_right_char c s = rev (dropWhile (\<lambda>x. x = c) (rev s))"

datatype awg_key_error = KeyEncoding | KeyLength nat

definition key_to_hex :: "string \<Rightarrow> awg_key_error + string" where
  "key_to_hex b64 =
     (let t = trim_space b64;
          raw = (case b64_decode StdAlphabet True (pad_b64 t) of
                   Some r \<Rightarrow> Some r
                 | None \<Rightarrow> b64_decode StdAlphabet False (trim_right_char CHR ''='' t))
      in case raw of
           None \<Rightarrow> Inl KeyEncoding
         | Some r \<Rightarrow> if length r \<noteq> 32 then Inl (KeyLength (length r)) else Inr (hex_encode r))"

section \<open>The vpn:// share string\<close>

text \<open>The inflater is a parameter. Of the JSON the struct keeps what the decoder managed to set.\<close>

datatype vpn_error = VpnEmpty | VpnBase64 | VpnZlib | VpnInflate

definition vpn_meta :: "string \<Rightarrow> slot" where
  "vpn_meta js =
     fst (unmarshal js (IsStruct [(''name'', IsString []), (''description'', IsString []),
        (''api_config'', IsStruct [(''service_type'', IsString []), (''service_protocol'', IsString []),
           (''user_country_code'', IsString [])])]))"

definition decode_vpn_uri :: "(string \<Rightarrow> vpn_error + string) \<Rightarrow> string \<Rightarrow> vpn_error + awg_conf \<times> string" where
  "decode_vpn_uri inflate uri0 =
     (let uri = trim_prefix (trim_space uri0) ''vpn://'' in
      if uri = [] then Inl VpnEmpty
      else case (case b64_decode UrlAlphabet True (pad_b64 uri) of
                   Some r \<Rightarrow> Some r
                 | None \<Rightarrow> b64_decode UrlAlphabet False uri) of
        None \<Rightarrow> Inl VpnBase64
      | Some raw \<Rightarrow>
          (let payload = (if 4 \<le> length raw \<and> take 4 raw = [CHR 0x00, CHR 0x00, CHR 0x00, CHR 0xFF] then drop 4 raw else raw)
           in case inflate payload of
                Inl e \<Rightarrow> Inl e
              | Inr js \<Rightarrow>
                  Inr (empty_conf\<lparr>ac_name := string_at ''name'' (vpn_meta js),
                         ac_service_type := string_at ''service_type'' (struct_at ''api_config'' (vpn_meta js)),
                         ac_service_protocol := string_at ''service_protocol'' (struct_at ''api_config'' (vpn_meta js))\<rparr>, js)))"

section \<open>The bodies for the daemon\<close>

definition kv_line :: "string \<Rightarrow> string \<Rightarrow> string" where
  "kv_line k v = k @ ''='' @ v @ [CHR 0x0A]"

definition write_kv :: "string \<Rightarrow> string \<Rightarrow> string" where
  "write_kv k v = (if trim_space v = [] then [] else kv_line k (trim_space v))"

text \<open>An optional key: nothing when the text is blank, its line, or the error of the key.\<close>

definition write_key :: "string \<Rightarrow> string \<Rightarrow> awg_key_error + string" where
  "write_key k v =
     (if trim_space v = [] then Inr []
      else case key_to_hex (trim_space v) of Inl e \<Rightarrow> Inl e | Inr h \<Rightarrow> Inr (kv_line k h))"

datatype uapi_error = PrivateKeyError awg_key_error | HeaderKeyError awg_key_error
  | PublicKeyError awg_key_error | PresharedKeyError awg_key_error

definition uapi_device :: "awg_conf \<Rightarrow> uapi_error + string" where
  "uapi_device c =
     (case key_to_hex (ac_private c) of
        Inl e \<Rightarrow> Inl (PrivateKeyError e)
      | Inr priv \<Rightarrow>
          (case write_key ''header_protection_key'' (ac_hpk c) of
             Inl e \<Rightarrow> Inl (HeaderKeyError e)
           | Inr hpk \<Rightarrow> Inr
              (kv_line ''private_key'' priv @
               write_kv ''jc'' (ac_jc c) @ write_kv ''jmin'' (ac_jmin c) @ write_kv ''jmax'' (ac_jmax c) @
               write_kv ''s1'' (ac_s1 c) @ write_kv ''s2'' (ac_s2 c) @ write_kv ''s3'' (ac_s3 c) @
               write_kv ''s4'' (ac_s4 c) @ write_kv ''h1'' (ac_h1 c) @ write_kv ''h2'' (ac_h2 c) @
               write_kv ''h3'' (ac_h3 c) @ write_kv ''h4'' (ac_h4 c) @ hpk @
               write_kv ''rekey_after_time'' (ac_rekey_after c) @
               write_kv ''rekey_timeout'' (ac_rekey_timeout c) @
               write_kv ''reject_after_time'' (ac_reject_after c) @
               write_kv ''keepalive_timeout'' (ac_keepalive_timeout c) @
               write_kv ''max_handshake_attempts'' (ac_max_handshake c) @
               write_kv ''content_padding_addition'' (ac_padding c) @
               kv_line ''replace_peers'' ''true'')))"

definition uapi_ips :: "awg_conf \<Rightarrow> string list" where
  "uapi_ips c = filter (\<lambda>i. i \<noteq> [] \<and> \<not> contains i '':'') (map trim_space (ac_allowed c))"

definition uapi_peer :: "awg_conf \<Rightarrow> uapi_error + string" where
  "uapi_peer c =
     (case key_to_hex (ac_public c) of
        Inl e \<Rightarrow> Inl (PublicKeyError e)
      | Inr pub \<Rightarrow>
          (case write_key ''preshared_key'' (ac_psk c) of
             Inl e \<Rightarrow> Inl (PresharedKeyError e)
           | Inr psk \<Rightarrow> Inr
              (kv_line ''public_key'' pub @ psk @ kv_line ''endpoint'' (ac_endpoint c) @
               write_kv ''persistent_keepalive_interval'' (ac_keepalive c) @
               kv_line ''replace_allowed_ips'' ''true'' @
               concat (map (kv_line ''allowed_ip'') (if uapi_ips c = [] then [''0.0.0.0/0''] else uapi_ips c)))))"

definition uapi_set :: "awg_conf \<Rightarrow> uapi_error + string" where
  "uapi_set c =
     (case uapi_device c of
        Inl e \<Rightarrow> Inl e
      | Inr dev \<Rightarrow> (case uapi_peer c of Inl e \<Rightarrow> Inl e | Inr peer \<Rightarrow> Inr (dev @ peer)))"

section \<open>Keys survive their text\<close>

lemma pad_b64_encode [simp]: "pad_b64 (b64_encode al pad s) = b64_encode al True s"
proof (cases pad)
  case True
  then show ?thesis
    using b64_encode_length [of al s] by (simp add: pad_b64_def)
next
  case False
  have "pad_b64 (b64_encode al False s) = b64_encode al True s"
    by (induction al False s rule: b64_encode.induct) (auto simp: pad_b64_def b64_pad_def numeral_2_eq_2)
  then show ?thesis
    using False by simp
qed

text \<open>A share string, with the header of the compressor and its padding or without, is read back.\<close>

lemma vpn_uri_reads:
  assumes "inflate z = Inr (marshal v)"
    and "v = JObj [(''name'', JStr n), (''api_config'', JObj [(''service_type'', JStr ty), (''service_protocol'', JStr pr)])]"
  shows "decode_vpn_uri inflate (''vpn://'' @ b64_encode UrlAlphabet pad ([CHR 0x00, CHR 0x00, CHR 0x00, CHR 0xFF] @ z)) =
    Inr (empty_conf\<lparr>ac_name := to_valid n, ac_service_type := to_valid ty, ac_service_protocol := to_valid pr\<rparr>, marshal v)"
proof -
  let ?b = "b64_encode UrlAlphabet pad ([CHR 0x00, CHR 0x00, CHR 0x00, CHR 0xFF] @ z)"
  have ne: "?b \<noteq> []"
    by simp
  have "trim_space (''vpn://'' @ ?b) = ''vpn://'' @ ?b"
  proof (rule trim_space_graph)
    show "is_graph (last (''vpn://'' @ ?b))"
      using ne b64_encode_graph last_in_set unfolding last_append if_not_P [OF ne] by metis
  qed (simp_all add: is_graph_def byte_def)
  then have uri: "trim_prefix (trim_space (''vpn://'' @ ?b)) ''vpn://'' = ?b"
    by (simp only: trim_prefix_append)
  have keys: "to_valid ''name'' = ''name''" "to_valid ''api_config'' = ''api_config''"
    "to_valid ''service_type'' = ''service_type''" "to_valid ''service_protocol'' = ''service_protocol''"
    by code_simp+
  have fits: "json_fits 0 v"
    by (simp add: assms(2) max_nesting_def)
  have meta: "vpn_meta (marshal v) = IsStruct [(''name'', IsString (to_valid n)), (''description'', IsString []),
        (''api_config'', IsStruct [(''service_type'', IsString (to_valid ty)), (''service_protocol'', IsString (to_valid pr)),
           (''user_country_code'', IsString [])])]"
    unfolding vpn_meta_def unmarshal_marshal [OF fits]
    by (simp add: assms(2) keys assign_outcome_def field_of_def get_field_def set_field_def
        assign_string_def)
  have raw: "b64_decode UrlAlphabet True (pad_b64 ?b) = Some ([CHR 0x00, CHR 0x00, CHR 0x00, CHR 0xFF] @ z)"
    by (simp only: pad_b64_encode b64_roundtrip)
  show ?thesis
    unfolding decode_vpn_uri_def uri Let_def raw option.case if_not_P [OF ne] using assms(1)
    by (simp add: meta string_at_def struct_at_def)
qed

lemma key_to_hex_encode:
  "key_to_hex (b64_encode StdAlphabet pad raw) =
     (if length raw = 32 then Inr (hex_encode raw) else Inl (KeyLength (length raw)))"
  by (simp add: key_to_hex_def)

lemma key_to_hex_type: "key_to_hex b = Inr h \<Longrightarrow> \<exists>raw. length raw = 32 \<and> h = hex_encode raw"
  by (auto simp: key_to_hex_def Let_def split: option.splits if_splits)

lemma hex_not_lf: "is_hex c \<Longrightarrow> c \<noteq> CHR 0x0A"
  by (auto simp: is_hex_def is_digit_def byte_def)

lemma key_hex_value: "key_to_hex b = Inr h \<Longrightarrow> length h = 64 \<and> CHR 0x0A \<notin> set h"
  using key_to_hex_type hex_not_lf hex_encode_set by fastforce



section \<open>No line end gets into a parsed configuration\<close>

definition conf_texts :: "awg_conf \<Rightarrow> string list" where
  "conf_texts c =
     ac_dns c @ ac_allowed c @
     [ac_address c, ac_private c, ac_public c, ac_psk c, ac_endpoint c, ac_keepalive c, ac_jc c, ac_jmin c, ac_jmax c,
      ac_s1 c, ac_s2 c, ac_s3 c, ac_s4 c, ac_h1 c, ac_h2 c, ac_h3 c, ac_h4 c, ac_hpk c, ac_rekey_after c,
      ac_rekey_timeout c, ac_reject_after c, ac_keepalive_timeout c, ac_max_handshake c, ac_padding c]"

definition one_line :: "string \<Rightarrow> bool" where
  "one_line t \<longleftrightarrow> CHR 0x0A \<notin> set t"

definition conf_clean :: "awg_conf \<Rightarrow> bool" where
  "conf_clean c \<longleftrightarrow> list_all one_line (conf_texts c)"

lemma one_line_Nil [simp]: "one_line []"
  by (simp add: one_line_def)

lemma one_line_trim: "one_line t \<Longrightarrow> one_line (trim_space t)"
  using set_trim_space [of t] by (auto simp: one_line_def)

lemma awg_csv_clean: "one_line v \<Longrightarrow> list_all one_line (awg_split_csv v)"
  using split_on_parts by (fastforce simp: awg_split_csv_def list_all_iff one_line_def intro!: one_line_trim [unfolded one_line_def])

lemma first_csv_clean: "one_line v \<Longrightarrow> one_line (first_csv v)"
  using awg_csv_clean [of v] by (cases "awg_split_csv v") (auto simp: first_csv_def)

lemma section_keys_clean:
  assumes "one_line v" "conf_clean c"
  shows "list_all (\<lambda>(k, f). conf_clean (f v c)) (section_keys sec)"
proof -
  have "list_all (\<lambda>(k, f). conf_clean (f v c)) interface_keys" "list_all (\<lambda>(k, f). conf_clean (f v c)) peer_keys"
    using assms awg_csv_clean [OF assms(1)] first_csv_clean [OF assms(1)]
    unfolding interface_keys_def peer_keys_def conf_clean_def conf_texts_def by simp_all
  then show ?thesis
    by (simp add: section_keys_def)
qed

lemma cut_one_line: "cut l c = Some (k, v) \<Longrightarrow> one_line l \<Longrightarrow> one_line v"
  by (auto simp: cut_def one_line_def dest: in_set_dropD split: option.splits)

lemma conf_assign_clean:
  assumes "one_line l" "conf_clean c"
  shows "conf_clean (conf_assign U sec l c)"
proof (cases "cut l CHR ''=''")
  case (Some kv)
  obtain k v where kv: "kv = (k, v)" by (cases kv)
  have "one_line (trim_space v)"
    using cut_one_line [OF Some [unfolded kv] assms(1)] by (rule one_line_trim)
  note t = section_keys_clean [OF this assms(2), of sec]
  show ?thesis
  proof (cases "map_of (section_keys sec) (to_lower U (trim_space k))")
    case None
    then show ?thesis using assms(2) Some kv by (simp add: conf_assign_def)
  next
    case f: (Some f)
    then have "conf_clean (f (trim_space v) c)"
      using t map_of_SomeD [OF f] by (auto simp: list_all_iff)
    then show ?thesis using Some kv f by (simp add: conf_assign_def)
  qed
next
  case None
  then show ?thesis by (simp only: conf_assign_def option.case assms(2))
qed

lemma conf_line_clean: "one_line raw \<Longrightarrow> conf_clean (snd st) \<Longrightarrow> conf_clean (snd (conf_line U raw st))"
  by (simp add: conf_line_def case_prod_beta Let_def conf_assign_clean one_line_trim)

lemma parse_conf_clean:
  assumes "parse_conf U s = Inr c"
  shows "conf_clean c \<and> ac_endpoint c \<noteq> []"
proof -
  let ?c = "snd (fold (conf_line U) (split_on CHR 0x0A s) ([], empty_conf))"
  have "conf_clean (snd (fold (conf_line U) ls st))"
    if "list_all one_line ls" "conf_clean (snd st)" for ls st
    using that by (induction ls arbitrary: st) (simp_all add: conf_line_clean)
  moreover have "list_all one_line (split_on CHR 0x0A s)"
    using split_on_parts by (auto simp: list_all_iff one_line_def)
  moreover have "conf_clean empty_conf"
    by (simp add: conf_clean_def conf_texts_def empty_conf_def)
  ultimately have c: "conf_clean ?c"
    by simp
  then have "conf_clean (?c\<lparr>ac_allowed := [''0.0.0.0/0'']\<rparr>)"
    unfolding conf_clean_def conf_texts_def by (simp add: one_line_def)
  then show ?thesis
    using assms c unfolding parse_conf_def Let_def by (auto simp del: split_paired_All split: if_splits)
qed

section \<open>What the daemon reads\<close>

definition settings_text :: "(string \<times> string) list \<Rightarrow> string" where
  "settings_text ps = concat (map (\<lambda>(k, v). kv_line k v) ps)"

definition read_settings :: "string \<Rightarrow> (string \<times> string) option list" where
  "read_settings body = map (\<lambda>l. cut l CHR ''='') (split_on CHR 0x0A body)"

definition plain_setting :: "string \<times> string \<Rightarrow> bool" where
  "plain_setting kv \<longleftrightarrow> one_line (fst kv) \<and> CHR ''='' \<notin> set (fst kv) \<and> snd kv \<noteq> [] \<and> one_line (snd kv)"

lemma read_settings_text:
  "list_all plain_setting ps \<Longrightarrow> read_settings (settings_text ps) = map Some ps @ [None]"
proof (induction ps)
  case Nil
  then show ?case by (simp add: read_settings_def settings_text_def)
next
  case (Cons p ps)
  obtain k v where p: "p = (k, v)" by (cases p)
  have "CHR 0x0A \<notin> set (k @ ''='' @ v)" "CHR ''='' \<notin> set k"
    using Cons.prems by (auto simp: p plain_setting_def one_line_def)
  moreover have "settings_text (p # ps) = (k @ ''='' @ v) @ CHR 0x0A # settings_text ps"
    by (simp add: settings_text_def kv_line_def p)
  ultimately show ?case
    using Cons cut_hit [of "CHR ''=''" k v] by (simp add: read_settings_def split_on_append p del: append_assoc)
qed

text \<open>A text of plain settings with these keys, in this order, each at most once.\<close>

definition carries :: "string \<Rightarrow> string list \<Rightarrow> bool" where
  "carries t ks \<longleftrightarrow> (\<exists>ps. t = settings_text ps \<and> list_all plain_setting ps \<and> subseq (map fst ps) ks)"

definition key_ok :: "string \<Rightarrow> bool" where
  "key_ok k \<longleftrightarrow> one_line k \<and> CHR ''='' \<notin> set k"

lemma settings_text_append: "settings_text (ps @ qs) = settings_text ps @ settings_text qs"
  by (simp add: settings_text_def)

lemma carries_Cons:
  assumes "carries t [k]" "carries u ks"
  shows "carries (t @ u) (k # ks)"
proof -
  obtain ps qs where "t = settings_text ps" "list_all plain_setting ps" "subseq (map fst ps) [k]"
    "u = settings_text qs" "list_all plain_setting qs" "subseq (map fst qs) ks"
    using assms by (auto simp: carries_def)
  then show ?thesis
    unfolding carries_def using list_emb_append_mono [of "(=)" "map fst ps" "[k]" "map fst qs" ks]
    by (intro exI [of _ "ps @ qs"]) (simp add: settings_text_append)
qed

lemma carries_kv: "key_ok k \<Longrightarrow> v \<noteq> [] \<Longrightarrow> one_line v \<Longrightarrow> carries (kv_line k v) [k]"
  unfolding carries_def by (intro exI [of _ "[(k, v)]"]) (simp add: settings_text_def plain_setting_def key_ok_def)

lemma carries_write: "key_ok k \<Longrightarrow> one_line v \<Longrightarrow> carries (write_kv k v) [k]"
proof -
  have "carries [] [k]"
    unfolding carries_def by (intro exI [of _ "[]"]) (simp add: settings_text_def)
  then show "key_ok k \<Longrightarrow> one_line v \<Longrightarrow> carries (write_kv k v) [k]"
    by (simp add: write_kv_def carries_kv one_line_trim)
qed

lemma carries_hex: "key_ok k \<Longrightarrow> key_to_hex b = Inr h \<Longrightarrow> carries (kv_line k h) [k]"
  using key_hex_value [of b h] by (intro carries_kv) (auto simp: one_line_def)

lemma carries_key: "key_ok k \<Longrightarrow> write_key k v = Inr t \<Longrightarrow> carries t [k]"
proof -
  have "carries [] [k]"
    unfolding carries_def by (intro exI [of _ "[]"]) (simp add: settings_text_def)
  then show "key_ok k \<Longrightarrow> write_key k v = Inr t \<Longrightarrow> carries t [k]"
    by (auto simp: write_key_def carries_hex split: if_splits sum.splits)
qed

definition device_keys :: "string list" where
  "device_keys =
    [''private_key'', ''jc'', ''jmin'', ''jmax'', ''s1'', ''s2'', ''s3'', ''s4'', ''h1'', ''h2'', ''h3'', ''h4'',
     ''header_protection_key'', ''rekey_after_time'', ''rekey_timeout'', ''reject_after_time'', ''keepalive_timeout'',
     ''max_handshake_attempts'', ''content_padding_addition'', ''replace_peers'']"

definition peer_setting_keys :: "string list" where
  "peer_setting_keys =
    [''public_key'', ''preshared_key'', ''endpoint'', ''persistent_keepalive_interval'', ''replace_allowed_ips'']"

lemma uapi_device_carries:
  assumes "conf_clean c" "uapi_device c = Inr t"
  shows "carries t device_keys"
proof -
  have c: "one_line (ac_jc c)" "one_line (ac_jmin c)" "one_line (ac_jmax c)" "one_line (ac_s1 c)" "one_line (ac_s2 c)"
    "one_line (ac_s3 c)" "one_line (ac_s4 c)" "one_line (ac_h1 c)" "one_line (ac_h2 c)" "one_line (ac_h3 c)"
    "one_line (ac_h4 c)" "one_line (ac_rekey_after c)" "one_line (ac_rekey_timeout c)" "one_line (ac_reject_after c)"
    "one_line (ac_keepalive_timeout c)" "one_line (ac_max_handshake c)" "one_line (ac_padding c)"
    using assms(1) by (simp_all add: conf_clean_def conf_texts_def)
  have k: "list_all key_ok device_keys"
    by code_simp
  obtain priv hpk where h: "key_to_hex (ac_private c) = Inr priv" "write_key ''header_protection_key'' (ac_hpk c) = Inr hpk"
    using assms(2) by (auto simp: uapi_device_def split: sum.splits)
  have t: "carries (kv_line ''replace_peers'' ''true'') [''replace_peers'']"
    by (rule carries_kv) code_simp+
  show ?thesis
    using assms(2) k c h
    by (simp only: uapi_device_def h sum.case sum.inject device_keys_def list.pred_inject)
      (auto intro!: carries_Cons t carries_write carries_hex [OF _ h(1)] carries_key [OF _ h(2)])
qed

lemma uapi_peer_carries:
  assumes "conf_clean c" "ac_endpoint c \<noteq> []" "uapi_peer c = Inr t"
  shows "\<exists>u. carries u peer_setting_keys \<and>
    t = u @ settings_text (map (Pair ''allowed_ip'') (if uapi_ips c = [] then [''0.0.0.0/0''] else uapi_ips c))"
proof -
  have c: "one_line (ac_endpoint c)" "one_line (ac_keepalive c)"
    using assms(1) by (simp_all add: conf_clean_def conf_texts_def)
  have k: "list_all key_ok peer_setting_keys"
    by code_simp
  obtain pub psk where h: "key_to_hex (ac_public c) = Inr pub" "write_key ''preshared_key'' (ac_psk c) = Inr psk"
    using assms(3) by (auto simp: uapi_peer_def split: sum.splits)
  let ?u = "kv_line ''public_key'' pub @ psk @ kv_line ''endpoint'' (ac_endpoint c) @
    write_kv ''persistent_keepalive_interval'' (ac_keepalive c) @ kv_line ''replace_allowed_ips'' ''true''"
  have r: "carries (kv_line ''replace_allowed_ips'' ''true'') [''replace_allowed_ips'']"
    by (rule carries_kv) code_simp+
  have "carries ?u peer_setting_keys"
    using k c assms(2) unfolding peer_setting_keys_def list.pred_inject
    by (auto intro!: carries_Cons r carries_kv carries_write carries_hex [OF _ h(1)] carries_key [OF _ h(2)])
  moreover have "concat (map (kv_line ''allowed_ip'') is) = settings_text (map (Pair ''allowed_ip'') is)" for "is"
    by (simp add: settings_text_def o_def)
  ultimately show ?thesis
    using assms(3) by (intro exI [of _ ?u]) (simp add: uapi_peer_def h)
qed

lemma uapi_ips_plain:
  assumes "conf_clean c"
  shows "list_all (\<lambda>i. i \<noteq> [] \<and> CHR '':'' \<notin> set i \<and> one_line i) (uapi_ips c)"
proof -
  have "list_all one_line (ac_allowed c)"
    using assms by (simp add: conf_clean_def conf_texts_def)
  then show ?thesis
    by (auto simp: uapi_ips_def list_all_iff one_line_trim)
qed


definition sample_conf_text :: string where
  "sample_conf_text =
     ''[Interface]'' @ [CHR 0x0A] @ ''PrivateKey = '' @ b64_encode StdAlphabet True (replicate 32 CHR ''k'') @ [CHR 0x0A] @
     ''Jc = 4'' @ [CHR 0x0D, CHR 0x0A] @ ''# comment'' @ [CHR 0x0A] @
     ''[Peer]'' @ [CHR 0x0A] @ ''PublicKey = '' @ b64_encode StdAlphabet True (replicate 32 CHR ''p'') @ [CHR 0x0A] @
     ''Endpoint = 192.0.2.7:51820'' @ [CHR 0x0A] @ ''AllowedIPs = 0.0.0.0/0, ::/0'' @ [CHR 0x0A]"


end
