(* ===== verification/Amnezia_Client.thy ===== *)
theory Amnezia_Client
  imports Amnezia_Conf
begin

text \<open>
  \<open>internal/amnezia/client.go\<close>: bringing AmneziaWG up and down. Up is a sequence of stages - daemon, UAPI,
  addresses and routes, handshake, probe - of which every failure tears everything down again. Commands
  run on the host are recorded in a trace with whether they succeeded; what the daemon, the socket, the
  commands and the dials answer is a parameter (\<open>awg_env\<close>).
\<close>

section \<open>Replies of the UAPI socket\<close>

text \<open>\<open>ReadString\<close> at the line end: the complete lines, what follows the last line end is not a line.\<close>

definition full_lines :: "string \<Rightarrow> string list" where
  "full_lines s = butlast (split_on CHR 0x0A s)"

text \<open>A reply is the bytes read until the connection ends; \<open>Inl\<close> when dialling or writing failed.\<close>

definition uapi_result :: "string + string \<Rightarrow> string option" where
  "uapi_result r =
     (case r of
        Inl e \<Rightarrow> Some e
      | Inr reply \<Rightarrow>
          (case find (\<lambda>l. has_prefix l ''errno='') (map trim_space (full_lines reply)) of
             None \<Rightarrow> Some ''EOF''
           | Some l \<Rightarrow> if l \<noteq> ''errno=0'' then Some (''uapi '' @ l) else None))"

text \<open>The bytes of a \<open>get\<close> reply, and whether reading ended at the end of the stream.\<close>

fun until_errno :: "string list \<Rightarrow> string list \<times> bool" where
  "until_errno [] = ([], False)"
| "until_errno (l # ls) =
     (if trim_space l = ''errno=0'' then ([], True) else (case until_errno ls of (xs, b) \<Rightarrow> (l # xs, b)))"

definition uapi_get :: "string + string \<times> bool \<Rightarrow> string option" where
  "uapi_get r =
     (case r of
        Inl e \<Rightarrow> None
      | Inr (reply, at_eof) \<Rightarrow>
          (case until_errno (full_lines reply) of
             (ls, ended) \<Rightarrow> if ended \<or> at_eof then Some (concat (map (\<lambda>l. l @ [CHR 0x0A]) ls)) else None))"

text \<open>\<open>strconv.ParseInt(s, 10, 64)\<close> with the error ignored: 0 for no number, the nearest bound out of range.\<close>

definition clamp64 :: "int \<Rightarrow> int" where
  "clamp64 n = max (- (2 ^ 63)) (min (2 ^ 63 - 1) n)"

definition parse_int64 :: "string \<Rightarrow> int" where
  "parse_int64 s =
     (if has_prefix s ''-'' \<or> has_prefix s ''+'' then
        (if tl s = [] \<or> \<not> list_all is_digit (tl s) then 0
         else clamp64 (if hd s = CHR ''-'' then - int (digits_val (tl s)) else int (digits_val (tl s))))
      else if s = [] \<or> \<not> list_all is_digit s then 0 else clamp64 (int (digits_val s)))"

fun handshake_fields :: "string list \<Rightarrow> int \<times> int \<Rightarrow> int \<times> int" where
  "handshake_fields [] st = st"
| "handshake_fields (l # ls) (hs, rx) =
     handshake_fields ls
       (case cut l CHR ''='' of
          None \<Rightarrow> (hs, rx)
        | Some (k, v) \<Rightarrow>
            (let n = parse_int64 (trim_space v) in
             if k = ''last_handshake_time_sec'' then (n, rx) else if k = ''rx_bytes'' then (hs, n) else (hs, rx)))"

definition handshake_ok :: "string + string \<times> bool \<Rightarrow> bool" where
  "handshake_ok r =
     (case uapi_get r of
        None \<Rightarrow> False
      | Some out \<Rightarrow> (case handshake_fields (split_on CHR 0x0A out) (0, 0) of (hs, rx) \<Rightarrow> 0 < hs \<and> 0 < rx))"

section \<open>The log of the daemon\<close>

definition log_write :: "string \<times> string list \<Rightarrow> string \<Rightarrow> string \<times> string list" where
  "log_write st p =
     (let parts = split_on CHR 0x0A (fst st @ p) in
      (last parts, snd st @ filter (\<lambda>l. l \<noteq> []) (map trim_space (butlast parts))))"

section \<open>The client and its host\<close>

definition policy_table :: string where "policy_table = ''51820''"
definition default_iface :: string where "default_iface = ''og-awg0''"

datatype ip_cmd =
    RuleAdd string | RuleDel string
  | TableDefault string | TableFlush
  | RouteReplace string string string | RouteDel string
  | AddrReplace string string | LinkMtu string | LinkUp string | LinkDel string

fun ip_args :: "ip_cmd \<Rightarrow> string list" where
  "ip_args (RuleAdd a) = [''rule'', ''add'', ''from'', a, ''lookup'', policy_table]"
| "ip_args (RuleDel a) = [''rule'', ''del'', ''from'', a, ''lookup'', policy_table]"
| "ip_args (TableDefault i) = [''route'', ''replace'', ''default'', ''dev'', i, ''table'', policy_table]"
| "ip_args TableFlush = [''route'', ''flush'', ''table'', policy_table]"
| "ip_args (RouteReplace a via dev) =
     [''route'', ''replace'', a] @ (if via \<noteq> [] then [''via'', via] else []) @ [''dev'', dev]"
| "ip_args (RouteDel a) = [''route'', ''del'', a]"
| "ip_args (AddrReplace a i) = [''addr'', ''replace'', a, ''dev'', i]"
| "ip_args (LinkMtu i) = [''link'', ''set'', ''dev'', i, ''mtu'', ''1280'']"
| "ip_args (LinkUp i) = [''link'', ''set'', ''dev'', i, ''up'']"
| "ip_args (LinkDel i) = [''link'', ''del'', ''dev'', i]"

datatype host_cmd = Ip ip_cmd bool | DisableV6 string | StartDaemon string string | StopDaemon

record awg_client =
  aw_iface :: string
  aw_bin :: string
  aw_conf :: awg_conf
  aw_probe :: string
  aw_cmd :: bool
  aw_ready :: bool
  aw_dialer :: "(string \<times> ip) option"
  aw_pinned :: string
  aw_trace :: "host_cmd list"

text \<open>
  The answers of the host. The two lists of polls are those made before the deadline of their loop is
  found passed, each with the error of the context, if it has one, and what was looked up.
\<close>

record awg_env =
  ae_stat :: "string \<Rightarrow> bool option"
  ae_look :: "string \<Rightarrow> string option"
  ae_start :: "string \<Rightarrow> string option"
  ae_wait :: "string option"
  ae_sock :: "(string option \<times> bool) list"
  ae_uapi :: "string \<Rightarrow> string + string"
  ae_ip :: "string list \<Rightarrow> string option"
  ae_route_get :: "string \<Rightarrow> string + string"
  ae_gets :: "(string option \<times> (string + string \<times> bool)) list"
  ae_dial :: "string \<Rightarrow> string option"

definition awg_new :: "string \<Rightarrow> string \<Rightarrow> awg_conf \<Rightarrow> string \<Rightarrow> awg_client" where
  "awg_new i bin conf pr =
     \<lparr>aw_iface = i, aw_bin = bin, aw_conf = conf, aw_probe = pr, aw_cmd = False, aw_ready = False,
      aw_dialer = None, aw_pinned = [], aw_trace = []\<rparr>"

definition awg_endpoint_ip :: "awg_client option \<Rightarrow> ip option" where
  "awg_endpoint_ip c = (case c of None \<Rightarrow> None | Some x \<Rightarrow> endpoint_ip (aw_conf x))"

definition iface_of :: "awg_client \<Rightarrow> string" where
  "iface_of c = (if trim_space (aw_iface c) \<noteq> [] then trim_space (aw_iface c) else default_iface)"

fun first_candidate :: "awg_env \<Rightarrow> string list \<Rightarrow> string option" where
  "first_candidate E [] = None"
| "first_candidate E (x # xs) =
     (case ae_look E x of
        Some lp \<Rightarrow> Some lp
      | None \<Rightarrow> if ae_stat E x = Some False then Some x else first_candidate E xs)"

definition wg_bin :: "awg_env \<Rightarrow> awg_client \<Rightarrow> string option" where
  "wg_bin E c =
     (let p = trim_space (aw_bin c);
          cands = [''amneziawg-go'', ''/usr/local/bin/amneziawg-go'', ''/opt/AmneziaVPN/bin/amneziawg-go'']
      in if p \<noteq> [] \<and> ae_stat E p \<noteq> None then Some p
         else if p \<noteq> [] \<and> ae_look E p \<noteq> None then ae_look E p
         else first_candidate E cands)"

text \<open>One command: it is recorded with whether it succeeded.\<close>

definition host :: "host_cmd \<Rightarrow> awg_client \<Rightarrow> awg_client" where
  "host h c = c\<lparr>aw_trace := aw_trace c @ [h]\<rparr>"

definition run_ip :: "awg_env \<Rightarrow> ip_cmd \<Rightarrow> awg_client \<Rightarrow> string option \<times> awg_client" where
  "run_ip E cmd c = (ae_ip E (ip_args cmd), host (Ip cmd (ae_ip E (ip_args cmd) = None)) c)"

definition try_ip :: "awg_env \<Rightarrow> ip_cmd \<Rightarrow> awg_client \<Rightarrow> awg_client" where
  "try_ip E cmd c = snd (run_ip E cmd c)"

section \<open>Down\<close>

definition down_rule :: "awg_env \<Rightarrow> awg_client \<Rightarrow> awg_client" where
  "down_rule E c =
     (case interface_addr (aw_conf c) of
        Inl e \<Rightarrow> c
      | Inr (a, n) \<Rightarrow> try_ip E (RuleDel (show_ip a)) c)"

definition down_pin :: "awg_env \<Rightarrow> awg_client \<Rightarrow> awg_client" where
  "down_pin E c = (if aw_pinned c \<noteq> [] then (try_ip E (RouteDel (aw_pinned c)) c)\<lparr>aw_pinned := []\<rparr> else c)"

definition down_daemon :: "awg_client \<Rightarrow> awg_client" where
  "down_daemon c = (if aw_cmd c then (host StopDaemon c)\<lparr>aw_cmd := False\<rparr> else c)"

text \<open>\<open>ae_wait\<close> is what Wait reports, nothing when the daemon had to be killed.\<close>

definition down_locked :: "awg_env \<Rightarrow> awg_client \<Rightarrow> string option \<times> awg_client" where
  "down_locked E c0 =
     (let c1 = down_rule E (c0\<lparr>aw_ready := False, aw_dialer := None\<rparr>);
          c2 = down_pin E (try_ip E TableFlush c1);
          err = (if aw_cmd c2 then ae_wait E else None)
      in (err, try_ip E (LinkDel (iface_of c2)) (down_daemon c2)))"

section \<open>Up\<close>

datatype up_error =
    NoBinary | BadBodies uapi_error | BadAddress addr_conf_error | StartFailed string | UpCancelled string
  | NoSocket | DeviceRefused string | PeerRefused string | IpFailed string | HandshakeTimeout | ProbeFailed string

type_synonym up_result = "up_error option \<times> awg_client"

definition up_fail :: "awg_env \<Rightarrow> up_error \<Rightarrow> awg_client \<Rightarrow> up_result" where
  "up_fail E e c = (Some e, snd (down_locked E c))"

definition up_then :: "up_result \<Rightarrow> (awg_client \<Rightarrow> up_result) \<Rightarrow> up_result" where
  "up_then r f = (case r of (Some e, c) \<Rightarrow> (Some e, c) | (None, c) \<Rightarrow> f c)"

datatype poll_result = PollOk | PollCancelled string | PollLate

fun poll :: "(string option \<times> bool) list \<Rightarrow> poll_result" where
  "poll [] = PollLate"
| "poll ((ctx, found) # ps) =
     (case ctx of Some e \<Rightarrow> PollCancelled e | None \<Rightarrow> if found then PollOk else poll ps)"

definition up_wait_socket :: "awg_env \<Rightarrow> awg_client \<Rightarrow> up_result" where
  "up_wait_socket E c =
     (case poll (ae_sock E) of
        PollOk \<Rightarrow> (None, c)
      | PollCancelled e \<Rightarrow> up_fail E (UpCancelled e) c
      | PollLate \<Rightarrow> up_fail E NoSocket c)"

definition uapi_body :: "string \<Rightarrow> string" where
  "uapi_body b = ''set=1'' @ [CHR 0x0A] @ b @ [CHR 0x0A]"

definition up_uapi :: "awg_env \<Rightarrow> string \<Rightarrow> string \<Rightarrow> awg_client \<Rightarrow> up_result" where
  "up_uapi E dev peer c =
     (case uapi_result (ae_uapi E (uapi_body dev)) of
        Some e \<Rightarrow> up_fail E (DeviceRefused e) c
      | None \<Rightarrow>
          (case uapi_result (ae_uapi E (uapi_body peer)) of
             Some e \<Rightarrow> up_fail E (PeerRefused e) c
           | None \<Rightarrow> (None, c)))"

text \<open>A command whose failure is a failure of Up.\<close>

definition up_ip :: "awg_env \<Rightarrow> ip_cmd \<Rightarrow> awg_client \<Rightarrow> up_result" where
  "up_ip E cmd c =
     (case run_ip E cmd c of (Some e, c1) \<Rightarrow> up_fail E (IpFailed e) c1 | (None, c1) \<Rightarrow> (None, c1))"

definition addr_text :: "ip \<Rightarrow> ipnet \<Rightarrow> string" where
  "addr_text a n = (case n of Net4 w k \<Rightarrow> if k = 32 then show_ip a @ ''/32'' else show_net n | Net6 w k \<Rightarrow> show_net n)"

fun fields_from :: "string \<Rightarrow> nat \<Rightarrow> string \<Rightarrow> string list" where
  "fields_from acc skip [] = (if acc = [] then [] else [rev acc])"
| "fields_from acc (Suc k) (c # s) = fields_from acc k s"
| "fields_from acc 0 (c # s) =
     (case find (\<lambda>w. has_prefix (c # s) w) ws_encodings of
        None \<Rightarrow> fields_from (c # acc) 0 s
      | Some w \<Rightarrow> (if acc = [] then [] else [rev acc]) @ fields_from [] (length w - 1) s)"

definition str_fields :: "string \<Rightarrow> string list" where
  "str_fields s = fields_from [] 0 s"

fun word_after :: "string \<Rightarrow> string \<Rightarrow> string list \<Rightarrow> string" where
  "word_after key prev (f # g # r) = word_after key (if f = key then g else prev) (g # r)"
| "word_after key prev _ = prev"

datatype pin_error = RouteLookup string | RoutesViaTunnel string string | PinIpFailed string

definition pin_endpoint_route :: "awg_env \<Rightarrow> awg_client \<Rightarrow> pin_error option \<times> awg_client" where
  "pin_endpoint_route E c =
     (case endpoint_ip (aw_conf c) of
        None \<Rightarrow> (None, c)
      | Some ep \<Rightarrow>
          (case ae_route_get E (show_ip ep) of
             Inl e \<Rightarrow> (Some (RouteLookup e), c)
           | Inr out \<Rightarrow>
               (let fs = str_fields out; via = word_after ''via'' [] fs; dev = word_after ''dev'' [] fs in
                if dev = [] \<or> dev = iface_of c then (Some (RoutesViaTunnel (show_ip ep) dev), c)
                else case run_ip E (RouteReplace (show_ip ep) via dev) c of
                       (Some e, c1) \<Rightarrow> (Some (PinIpFailed e), c1)
                     | (None, c1) \<Rightarrow> (None, c1\<lparr>aw_pinned := show_ip ep\<rparr>))))"

definition up_routes :: "awg_env \<Rightarrow> ip \<Rightarrow> ipnet \<Rightarrow> awg_client \<Rightarrow> up_result" where
  "up_routes E a n c =
     (let i = iface_of c in
      up_then (up_ip E (AddrReplace (addr_text a n) i) c) (\<lambda>c1.
      up_then (up_ip E (LinkUp i) (try_ip E (LinkMtu i) (host (DisableV6 i) c1))) (\<lambda>c2.
      (let c3 = try_ip E (RuleDel (show_ip a)) (snd (pin_endpoint_route E c2)) in
       up_then (up_ip E (TableDefault i) c3) (\<lambda>c4.
       up_then (up_ip E (RuleAdd (show_ip a)) c4) (\<lambda>c5.
       (None, c5\<lparr>aw_dialer := Some (i, a)\<rparr>)))))))"

definition probe_targets :: "awg_client \<Rightarrow> string list" where
  "probe_targets c =
     (let p = trim_space (aw_probe c); first = (if p \<noteq> [] then [p] else []) in
      first @ filter (\<lambda>t. t \<notin> set first) [''1.1.1.1:80'', ''8.8.8.8:53''])"

fun probe_through :: "awg_env \<Rightarrow> string option \<Rightarrow> string list \<Rightarrow> string option" where
  "probe_through E prev [] = prev"
| "probe_through E prev (t # ts) = (case ae_dial E t of None \<Rightarrow> None | Some e \<Rightarrow> probe_through E (Some e) ts)"

definition up_confirm :: "awg_env \<Rightarrow> awg_client \<Rightarrow> up_result" where
  "up_confirm E c =
     (case poll (map (\<lambda>(ctx, r). (ctx, handshake_ok r)) (ae_gets E)) of
        PollCancelled e \<Rightarrow> up_fail E (UpCancelled e) c
      | PollLate \<Rightarrow> up_fail E HandshakeTimeout c
      | PollOk \<Rightarrow>
          (case probe_through E None (probe_targets c) of
             Some e \<Rightarrow> up_fail E (ProbeFailed e) c
           | None \<Rightarrow> (None, c\<lparr>aw_ready := True\<rparr>)))"

definition awg_bring_up :: "awg_env \<Rightarrow> awg_client \<Rightarrow> up_result" where
  "awg_bring_up E c0 =
     (let c = snd (down_locked E c0) in
      case wg_bin E c of
        None \<Rightarrow> (Some NoBinary, c)
      | Some bin \<Rightarrow>
          (case uapi_device (aw_conf c) of
             Inl e \<Rightarrow> (Some (BadBodies e), c)
           | Inr dev \<Rightarrow>
          (case uapi_peer (aw_conf c) of
             Inl e \<Rightarrow> (Some (BadBodies e), c)
           | Inr peer \<Rightarrow>
          (case interface_addr (aw_conf c) of
             Inl e \<Rightarrow> (Some (BadAddress e), c)
           | Inr (a, n) \<Rightarrow>
               (let c1 = try_ip E (LinkDel (iface_of c)) c in
                case ae_start E bin of
                  Some e \<Rightarrow> (Some (StartFailed e), c1)
                | None \<Rightarrow>
                    up_then (up_wait_socket E ((host (StartDaemon bin (iface_of c)) c1)\<lparr>aw_cmd := True\<rparr>)) (\<lambda>c2.
                    up_then (up_uapi E dev peer c2) (\<lambda>c3.
                    up_then (up_routes E a n c3) (up_confirm E))))))))"

section \<open>Dials\<close>

datatype awg_dial_error = UnsupportedNetwork string | DialerNotReady | DialFailed string

definition awg_dial :: "awg_env \<Rightarrow> awg_client \<Rightarrow> string \<Rightarrow> string \<Rightarrow> awg_dial_error option" where
  "awg_dial E c network address =
     (if network \<noteq> ''tcp'' \<and> network \<noteq> ''tcp4'' \<and> network \<noteq> ''tcp6'' then Some (UnsupportedNetwork network)
      else if \<not> aw_ready c then Some DialerNotReady
      else if aw_dialer c = None then Some DialerNotReady
      else map_option DialFailed (ae_dial E address))"

section \<open>Nothing is left behind\<close>

text \<open>
  What the commands of a trace have set up on the host and not removed again. A command that failed set up
  nothing; the removing commands are taken at their word, as the code does, which ignores their result.
\<close>

datatype held = HeldDaemon | HeldLink | HeldRule string | HeldTable | HeldRoute string

fun host_step :: "host_cmd \<Rightarrow> held set \<Rightarrow> held set" where
  "host_step (StartDaemon b i) h = insert HeldDaemon h"
| "host_step StopDaemon h = h - {HeldDaemon}"
| "host_step (DisableV6 i) h = h"
| "host_step (Ip (RuleAdd a) ok) h = (if ok then insert (HeldRule a) h else h)"
| "host_step (Ip (RuleDel a) ok) h = h - {HeldRule a}"
| "host_step (Ip (TableDefault i) ok) h = (if ok then insert HeldTable h else h)"
| "host_step (Ip TableFlush ok) h = h - {HeldTable}"
| "host_step (Ip (RouteReplace a v d) ok) h = (if ok then insert (HeldRoute a) h else h)"
| "host_step (Ip (RouteDel a) ok) h = h - {HeldRoute a}"
| "host_step (Ip (AddrReplace a i) ok) h = h"
| "host_step (Ip (LinkMtu i) ok) h = h"
| "host_step (Ip (LinkUp i) ok) h = (if ok then insert HeldLink h else h)"
| "host_step (Ip (LinkDel i) ok) h = h - {HeldLink}"

definition held_after :: "host_cmd list \<Rightarrow> held set" where
  "held_after tr = fold host_step tr {}"

lemma held_after_append [simp]: "held_after (tr @ hs) = fold host_step hs (held_after tr)" "held_after [] = {}"
  by (simp_all add: held_after_def)

text \<open>What a client may hold: the parts of the tunnel, the daemon only while it runs it, the route it remembers.\<close>

definition tunnel_parts :: "awg_client \<Rightarrow> held set" where
  "tunnel_parts c =
     {HeldLink, HeldTable} \<union> (case interface_addr (aw_conf c) of Inl e \<Rightarrow> {} | Inr (a, n) \<Rightarrow> {HeldRule (show_ip a)}) \<union>
     (if aw_cmd c then {HeldDaemon} else {}) \<union> (if aw_pinned c \<noteq> [] then {HeldRoute (aw_pinned c)} else {})"

definition accounted :: "awg_client \<Rightarrow> bool" where
  "accounted c \<longleftrightarrow> held_after (aw_trace c) \<subseteq> tunnel_parts c"

definition awg_down :: "awg_client \<Rightarrow> bool" where
  "awg_down c \<longleftrightarrow> \<not> aw_ready c \<and> aw_dialer c = None \<and> \<not> aw_cmd c \<and> aw_pinned c = [] \<and> held_after (aw_trace c) = {}"

lemma host_simps [simp]:
  "aw_trace (host h c) = aw_trace c @ [h]" "aw_conf (host h c) = aw_conf c" "aw_cmd (host h c) = aw_cmd c"
  "aw_ready (host h c) = aw_ready c" "aw_dialer (host h c) = aw_dialer c" "aw_pinned (host h c) = aw_pinned c"
  "aw_iface (host h c) = aw_iface c" "aw_probe (host h c) = aw_probe c"
  by (simp_all add: host_def)

lemma try_ip_host: "try_ip E cmd c = host (Ip cmd (ae_ip E (ip_args cmd) = None)) c"
  by (simp add: try_ip_def run_ip_def)

text \<open>The settings of a client, which no operation changes.\<close>

definition awg_settings :: "awg_client \<Rightarrow> string \<times> awg_conf \<times> string" where
  "awg_settings c = (aw_iface c, aw_conf c, aw_probe c)"

lemma down_locked_kept: "awg_settings (snd (down_locked E c)) = awg_settings c"
  by (simp add: awg_settings_def down_locked_def Let_def down_rule_def down_pin_def down_daemon_def try_ip_host
      split: sum.split)

lemma down_locked_down:
  assumes "accounted c"
  shows "awg_down (snd (down_locked E c))"
  using assms
  by (auto simp: awg_down_def accounted_def tunnel_parts_def down_locked_def Let_def down_rule_def down_pin_def
      down_daemon_def try_ip_host split: sum.split)

text \<open>
  One stage of Up: while it goes on the client stays accounted for, with the settings, the daemon and - with
  \<open>pin\<close> - the pinned route it had; when it fails the client is down.
\<close>

definition stage :: "bool \<Rightarrow> awg_client \<Rightarrow> up_result \<Rightarrow> bool" where
  "stage pin c r \<longleftrightarrow>
     awg_settings (snd r) = awg_settings c \<and>
     (if fst r = None then accounted (snd r) \<and> aw_cmd (snd r) = aw_cmd c \<and> (pin \<longrightarrow> aw_pinned (snd r) = aw_pinned c)
      else awg_down (snd r))"

lemma stage_fail: "accounted c \<Longrightarrow> awg_settings c = awg_settings c0 \<Longrightarrow> stage pin c0 (up_fail E e c)"
  by (simp add: stage_def up_fail_def down_locked_down down_locked_kept)

lemma stage_ok:
  "accounted c \<Longrightarrow> awg_settings c = awg_settings c0 \<Longrightarrow> aw_cmd c = aw_cmd c0 \<Longrightarrow> aw_pinned c = aw_pinned c0 \<or> \<not> pin \<Longrightarrow>
   stage pin c0 (None, c)"
  by (auto simp: stage_def)

lemma stage_then:
  assumes "stage pin c r" "\<And>c1. stage pin c (None, c1) \<Longrightarrow> stage pin c1 (f c1)"
  shows "stage pin c (up_then r f)"
  using assms(1) assms(2) [of "snd r"] by (cases r; cases "fst r") (auto simp: up_then_def stage_def)

lemma stage_then_pin:
  assumes "stage True c r" "\<And>c1. stage True c (None, c1) \<Longrightarrow> stage False c1 (f c1)"
  shows "stage False c (up_then r f)"
  using assms(1) assms(2) [of "snd r"] by (cases r; cases "fst r") (auto simp: up_then_def stage_def)

lemma stage_from: "stage pin c1 r \<Longrightarrow> awg_settings c1 = awg_settings c \<Longrightarrow> aw_cmd c1 = aw_cmd c \<Longrightarrow>
   aw_pinned c1 = aw_pinned c \<or> \<not> pin \<Longrightarrow> stage pin c r"
  by (auto simp: stage_def)

lemma stage_wait: "accounted c \<Longrightarrow> stage pin c (up_wait_socket E c)"
  by (auto simp: up_wait_socket_def stage_fail stage_ok split: poll_result.split)

lemma stage_uapi: "accounted c \<Longrightarrow> stage pin c (up_uapi E dev peer c)"
  by (auto simp: up_uapi_def stage_fail stage_ok split: option.split)

text \<open>The commands of Up, which set up only parts of this client's tunnel.\<close>

definition own_cmd :: "awg_client \<Rightarrow> ip_cmd \<Rightarrow> bool" where
  "own_cmd c cmd \<longleftrightarrow>
     (case cmd of
        RuleAdd a \<Rightarrow> (\<exists>b n. interface_addr (aw_conf c) = Inr (b, n) \<and> a = show_ip b)
      | RouteReplace a v d \<Rightarrow> False | _ \<Rightarrow> True)"

lemma accounted_host: "own_cmd c cmd \<Longrightarrow> accounted c \<Longrightarrow> accounted (host (Ip cmd ok) c)"
  by (cases cmd) (auto simp: accounted_def tunnel_parts_def own_cmd_def split: sum.splits)

lemma settings_host [simp]: "awg_settings (host h c) = awg_settings c"
  by (simp add: awg_settings_def)

lemma accounted_fields [simp]:
  "accounted (c\<lparr>aw_dialer := d\<rparr>) = accounted c" "accounted (c\<lparr>aw_ready := b\<rparr>) = accounted c"
  "accounted (host (DisableV6 i) c) = accounted c"
  "awg_settings (c\<lparr>aw_dialer := d\<rparr>) = awg_settings c" "awg_settings (c\<lparr>aw_ready := b\<rparr>) = awg_settings c"
  by (simp_all add: accounted_def tunnel_parts_def awg_settings_def)

lemma settings_iface: "awg_settings c1 = awg_settings c \<Longrightarrow> iface_of c1 = iface_of c"
  by (simp add: awg_settings_def iface_of_def)

lemma settings_conf: "awg_settings c1 = awg_settings c \<Longrightarrow> aw_conf c1 = aw_conf c"
  by (simp add: awg_settings_def)

lemma stage_ip: "own_cmd c cmd \<Longrightarrow> accounted c \<Longrightarrow> stage pin c (up_ip E cmd c)"
  by (auto simp: up_ip_def run_ip_def intro!: stage_fail stage_ok accounted_host split: option.split)

lemma ip_text_ne: "show_ip a \<noteq> []"
proof
  assume "show_ip a = []"
  then have "parse_ip [] \<noteq> None"
    using parse_ip_show_ip [of a] by simp
  moreover have "parse_ip [] = None"
    by code_simp
  ultimately show False
    by simp
qed

lemma stage_pin:
  assumes "accounted c" "aw_pinned c = []"
  shows "stage False c (None, snd (pin_endpoint_route E c))"
proof (cases "endpoint_ip (aw_conf c)")
  case None
  then show ?thesis using assms by (simp add: pin_endpoint_route_def stage_ok)
next
  case (Some ep)
  show ?thesis
  proof (cases "ae_route_get E (show_ip ep)")
    case (Inl e)
    then show ?thesis using assms Some by (simp add: pin_endpoint_route_def stage_ok)
  next
    case (Inr out)
    define via dev where "via = word_after ''via'' [] (str_fields out)" and "dev = word_after ''dev'' [] (str_fields out)"
    let ?cmd = "RouteReplace (show_ip ep) via dev"
    have failed: "accounted (host (Ip ?cmd False) c)"
      using assms by (auto simp: accounted_def tunnel_parts_def)
    have done_it: "accounted ((host (Ip ?cmd True) c)\<lparr>aw_pinned := show_ip ep\<rparr>)"
      using assms ip_text_ne by (auto simp: accounted_def tunnel_parts_def)
    show ?thesis
      using assms failed done_it Some Inr
      by (auto simp: pin_endpoint_route_def run_ip_def Let_def via_def dev_def awg_settings_def intro!: stage_ok
          split: option.split)
  qed
qed

lemma stage_routes:
  assumes "accounted c" "aw_pinned c = []" "interface_addr (aw_conf c) = Inr (a, n)"
  shows "stage False c (up_routes E a n c)"
proof -
  let ?i = "iface_of c"
  have own: "own_cmd c1 (RuleAdd (show_ip a))" if "awg_settings c1 = awg_settings c" for c1
    using assms(3) settings_conf [OF that] by (simp add: own_cmd_def)
  have finish: "stage False c3 (up_then (up_ip E (TableDefault ?i) c3) (\<lambda>c4.
      up_then (up_ip E (RuleAdd (show_ip a)) c4) (\<lambda>c5. (None, c5\<lparr>aw_dialer := Some (?i, a)\<rparr>))))"
    if c3: "accounted c3" "awg_settings c3 = awg_settings c" for c3
  proof (rule stage_then)
    show "stage False c3 (up_ip E (TableDefault ?i) c3)"
      using c3 by (intro stage_ip) (simp_all add: own_cmd_def)
    fix c4 assume c4: "stage False c3 (None, c4)"
    then have 4: "accounted c4" "awg_settings c4 = awg_settings c" using c3 by (simp_all add: stage_def)
    show "stage False c4 (up_then (up_ip E (RuleAdd (show_ip a)) c4) (\<lambda>c5. (None, c5\<lparr>aw_dialer := Some (?i, a)\<rparr>)))"
    proof (rule stage_then)
      show "stage False c4 (up_ip E (RuleAdd (show_ip a)) c4)"
        using 4 own by (intro stage_ip) simp_all
      fix c5 assume "stage False c4 (None, c5)"
      then show "stage False c5 (None, c5\<lparr>aw_dialer := Some (?i, a)\<rparr>)"
        by (simp add: stage_def)
    qed
  qed
  have pin: "stage False c2 (up_then (up_ip E (TableDefault ?i) c3) (\<lambda>c4.
      up_then (up_ip E (RuleAdd (show_ip a)) c4) (\<lambda>c5. (None, c5\<lparr>aw_dialer := Some (?i, a)\<rparr>))))"
    if c2: "accounted c2" "aw_pinned c2 = []" "awg_settings c2 = awg_settings c"
      and c3: "c3 = try_ip E (RuleDel (show_ip a)) (snd (pin_endpoint_route E c2))" for c2 c3
  proof -
    have p: "stage False c2 (None, snd (pin_endpoint_route E c2))"
      using c2 by (intro stage_pin)
    define d where "d = snd (pin_endpoint_route E c2)"
    have d: "accounted d" "awg_settings d = awg_settings c2" "aw_cmd d = aw_cmd c2"
      using p unfolding d_def [symmetric] by (simp_all add: stage_def)
    have c3: "accounted c3" "awg_settings c3 = awg_settings c2" "aw_cmd c3 = aw_cmd c2"
      unfolding c3 d_def [symmetric] try_ip_host
      by (rule accounted_host) (simp_all add: own_cmd_def d)
    show ?thesis
      by (rule stage_from [OF finish]) (use c3 c2(3) in simp_all)
  qed
  have link: "stage False c1 (up_then (up_ip E (LinkUp ?i) (try_ip E (LinkMtu ?i) (host (DisableV6 ?i) c1))) (\<lambda>c2.
      up_then (up_ip E (TableDefault ?i) (try_ip E (RuleDel (show_ip a)) (snd (pin_endpoint_route E c2)))) (\<lambda>c4.
      up_then (up_ip E (RuleAdd (show_ip a)) c4) (\<lambda>c5. (None, c5\<lparr>aw_dialer := Some (?i, a)\<rparr>)))))"
    if c1: "accounted c1" "aw_pinned c1 = []" "awg_settings c1 = awg_settings c" for c1
  proof -
    let ?b = "try_ip E (LinkMtu ?i) (host (DisableV6 ?i) c1)"
    have b: "accounted ?b" "awg_settings ?b = awg_settings c1" "aw_cmd ?b = aw_cmd c1" "aw_pinned ?b = aw_pinned c1"
      using c1(1) by (simp_all add: try_ip_host accounted_host own_cmd_def)
    have l: "stage True ?b (up_ip E (LinkUp ?i) ?b)"
      using b(1) by (intro stage_ip) (simp_all add: own_cmd_def)
    obtain q c2 where q: "up_ip E (LinkUp ?i) ?b = (q, c2)" by (cases "up_ip E (LinkUp ?i) ?b")
    show ?thesis
      using l pin [of c2] b c1(2,3) unfolding q
      by (cases q) (auto simp: up_then_def [of "(_, _)"] stage_def)
  qed
  have a: "stage True c (up_ip E (AddrReplace (addr_text a n) ?i) c)"
    using assms(1) by (intro stage_ip) (simp_all add: own_cmd_def)
  obtain q c1 where q: "up_ip E (AddrReplace (addr_text a n) ?i) c = (q, c1)"
    by (cases "up_ip E (AddrReplace (addr_text a n) ?i) c")
  show ?thesis
    using a link [of c1] assms(2) unfolding up_routes_def Let_def q
    by (cases q) (auto simp: up_then_def [of "(_, _)"] stage_def)
qed

lemma stage_confirm: "accounted c \<Longrightarrow> stage False c (up_confirm E c)"
  by (auto simp: up_confirm_def intro!: stage_fail stage_ok split: poll_result.split option.split)

lemma up_then_None: "up_then r f = (None, c') \<longleftrightarrow> (\<exists>c. r = (None, c) \<and> f c = (None, c'))"
  by (cases r; cases "fst r") (auto simp: up_then_def)

lemma up_routes_dialer: "up_routes E a n c = (None, c') \<Longrightarrow> aw_dialer c' = Some (iface_of c, a)"
  by (auto simp: up_routes_def Let_def up_then_None)

lemma poll_ok: "poll ps = PollOk \<Longrightarrow> \<exists>p \<in> set ps. snd p"
  by (induction ps rule: poll.induct) (auto split: option.splits if_splits)

lemma probe_ok: "probe_through E prev ts = None \<Longrightarrow> prev \<noteq> None \<or> ts \<noteq> [] \<Longrightarrow> \<exists>t \<in> set ts. ae_dial E t = None"
  by (induction E prev ts rule: probe_through.induct) (auto split: option.splits)

lemma probe_targets_ne: "probe_targets c \<noteq> []"
  by (simp add: probe_targets_def Let_def)

lemma up_confirm_ok:
  assumes "up_confirm E c = (None, c')"
  shows "c' = c\<lparr>aw_ready := True\<rparr> \<and> list_ex handshake_ok (map snd (ae_gets E)) \<and>
    list_ex (\<lambda>t. ae_dial E t = None) (probe_targets c)"
  using assms poll_ok [of "map (\<lambda>(ctx, r). (ctx, handshake_ok r)) (ae_gets E)"]
    probe_ok [of E None "probe_targets c"] probe_targets_ne [of c]
  by (auto simp: up_confirm_def up_fail_def list_ex_iff split: poll_result.splits option.splits) force

lemma probe_targets_settings: "awg_settings c1 = awg_settings c \<Longrightarrow> probe_targets c1 = probe_targets c"
  by (simp add: awg_settings_def probe_targets_def)

lemma down_is_accounted: "awg_down c \<Longrightarrow> accounted c"
  by (simp add: awg_down_def accounted_def)

lemma awg_down_link: "awg_down c \<Longrightarrow> awg_down (try_ip E (LinkDel i) c)"
  by (simp add: awg_down_def try_ip_host)

definition up_outcome :: "awg_env \<Rightarrow> awg_client \<Rightarrow> up_result \<Rightarrow> bool" where
  "up_outcome E c r \<longleftrightarrow>
     (if fst r = None then
        accounted (snd r) \<and> aw_ready (snd r) \<and> aw_cmd (snd r) \<and>
        (\<exists>a n. interface_addr (aw_conf c) = Inr (a, n) \<and> aw_dialer (snd r) = Some (iface_of c, a)) \<and>
        list_ex handshake_ok (map snd (ae_gets E)) \<and> list_ex (\<lambda>t. ae_dial E t = None) (probe_targets c)
      else awg_down (snd r))"

lemma up_stages_outcome:
  assumes "accounted c" "aw_pinned c = []" "aw_cmd c" "interface_addr (aw_conf c) = Inr (a, n)"
    and r: "r = up_then (up_wait_socket E c) (\<lambda>c2. up_then (up_uapi E dev peer c2) (\<lambda>c3.
              up_then (up_routes E a n c3) (up_confirm E)))"
  shows "awg_settings (snd r) = awg_settings c \<and> up_outcome E c r"
proof -
  have confirm: "stage False c4 (up_confirm E c4)" if "stage pin c3 (None, c4)" for pin c3 c4
    using that stage_confirm by (simp add: stage_def)
  have routes: "stage False c3 (up_then (up_routes E a n c3) (up_confirm E))"
    if "accounted c3" "aw_pinned c3 = []" "awg_settings c3 = awg_settings c" for c3
    using that assms(4) settings_conf [OF that(3)] by (intro stage_then stage_routes confirm) simp_all
  have uapi: "stage False c2 (up_then (up_uapi E dev peer c2) (\<lambda>c3. up_then (up_routes E a n c3) (up_confirm E)))"
    if "accounted c2" "aw_pinned c2 = []" "awg_settings c2 = awg_settings c" for c2
    by (rule stage_then_pin [OF stage_uapi [OF that(1)]], rule routes) (use that in \<open>simp_all add: stage_def\<close>)
  have all: "stage False c r"
    unfolding r by (rule stage_then_pin [OF stage_wait [OF assms(1)]], rule uapi) (use assms(2) in \<open>simp_all add: stage_def\<close>)
  show ?thesis
  proof (cases "fst r")
    case None
    then obtain p where p: "r = (None, p)" by (cases r) simp
    obtain c2 c3 c4 where ok: "up_wait_socket E c = (None, c2)" "up_uapi E dev peer c2 = (None, c3)"
      "up_routes E a n c3 = (None, c4)" "up_confirm E c4 = (None, snd r)"
      using p unfolding r up_then_None by (elim exE conjE) (use p r in simp)
    have 2: "accounted c2" "aw_pinned c2 = []" "awg_settings c2 = awg_settings c"
      using stage_wait [OF assms(1), of True E] assms(2) unfolding ok(1) by (simp_all add: stage_def)
    have 3: "accounted c3" "aw_pinned c3 = []" "awg_settings c3 = awg_settings c"
      using stage_uapi [OF 2(1), of True E dev peer] 2 unfolding ok(2) by (simp_all add: stage_def)
    have 4: "awg_settings c4 = awg_settings c"
      using stage_routes [of c3 a n E] 3 settings_conf [OF 3(3)] assms(4) unfolding ok(3) by (simp add: stage_def)
    note d = up_routes_dialer [OF ok(3)] settings_iface [OF 3(3)]
    note f = up_confirm_ok [OF ok(4)] probe_targets_settings [OF 4]
    have "aw_ready (snd r) \<and> aw_dialer (snd r) = Some (iface_of c, a)"
      using f(1) d by simp
    then show ?thesis
      using all None assms(3,4) f unfolding up_outcome_def stage_def by simp
  next
    case (Some e)
    then show ?thesis
      using all by (simp add: stage_def up_outcome_def)
  qed
qed

lemma bring_up_outcome:
  assumes "accounted c"
  shows "awg_settings (snd (awg_bring_up E c)) = awg_settings c \<and> up_outcome E c (awg_bring_up E c)"
proof -
  define d where "d = snd (down_locked E c)"
  have d: "awg_down d" "awg_settings d = awg_settings c"
    using down_locked_down [OF assms] down_locked_kept by (simp_all add: d_def)
  show ?thesis
  proof (cases "wg_bin E d")
    case None
    then show ?thesis using d by (simp add: awg_bring_up_def d_def [symmetric] up_outcome_def)
  next
    case bin: (Some bin)
    show ?thesis
    proof (cases "uapi_device (aw_conf d)")
      case (Inl e)
      then show ?thesis using d bin by (simp add: awg_bring_up_def d_def [symmetric] up_outcome_def)
    next
      case dev: (Inr dev)
      show ?thesis
      proof (cases "uapi_peer (aw_conf d)")
        case (Inl e)
        then show ?thesis using d bin dev by (simp add: awg_bring_up_def d_def [symmetric] up_outcome_def)
      next
        case peer: (Inr peer)
        show ?thesis
        proof (cases "interface_addr (aw_conf d)")
          case (Inl e)
          then show ?thesis using d bin dev peer by (simp add: awg_bring_up_def d_def [symmetric] up_outcome_def)
        next
          case addr: (Inr an)
          obtain a n where an: "an = (a, n)" by (cases an)
          define l where "l = try_ip E (LinkDel (iface_of d)) d"
          have l: "awg_down l" "awg_settings l = awg_settings c"
            using d by (simp_all add: l_def awg_down_link) (simp add: try_ip_host)
          show ?thesis
          proof (cases "ae_start E bin")
            case (Some e)
            then show ?thesis
              using l bin dev peer addr an by (simp add: awg_bring_up_def d_def [symmetric] l_def [symmetric] up_outcome_def)
          next
            case None
            define s where "s = (host (StartDaemon bin (iface_of d)) l)\<lparr>aw_cmd := True\<rparr>"
            have s: "accounted s" "aw_pinned s = []" "aw_cmd s" "awg_settings s = awg_settings c"
              using l by (simp_all add: s_def accounted_def awg_down_def tunnel_parts_def awg_settings_def)
            have i: "interface_addr (aw_conf s) = Inr (a, n)"
              using addr an settings_conf [of s c] settings_conf [of d c] s(4) d(2) by simp
            have "awg_bring_up E c = up_then (up_wait_socket E s) (\<lambda>c2. up_then (up_uapi E dev peer c2) (\<lambda>c3.
                up_then (up_routes E a n c3) (up_confirm E)))"
              using bin dev peer addr an None
              by (simp add: awg_bring_up_def d_def [symmetric] l_def [symmetric] s_def [symmetric])
            note r = up_stages_outcome [OF s(1-3) i this]
            have "up_outcome E s x = up_outcome E c x" for x
              by (simp only: up_outcome_def settings_conf [OF s(4)] settings_iface [OF s(4)] probe_targets_settings [OF s(4)])
            then show ?thesis
              using r s(4) by simp
          qed
        qed
      qed
    qed
  qed
qed

inductive awg_run :: "awg_client \<Rightarrow> awg_client \<Rightarrow> bool" for c0 where
  start: "awg_run c0 c0"
| up: "awg_run c0 c \<Longrightarrow> awg_run c0 (snd (awg_bring_up E c))"
| down: "awg_run c0 c \<Longrightarrow> awg_run c0 (snd (down_locked E c))"

lemma new_is_down: "awg_down (awg_new i bin conf pr)"
  by (simp add: awg_down_def awg_new_def)

lemma awg_run_state:
  assumes "awg_run (awg_new i bin conf pr) c"
  shows "awg_settings c = awg_settings (awg_new i bin conf pr) \<and>
    (if aw_ready c then accounted c \<and> aw_cmd c \<and>
       (\<exists>a n. interface_addr conf = Inr (a, n) \<and> aw_dialer c = Some (iface_of c, a))
     else awg_down c)"
  using assms
proof induction
  case start
  then show ?case using new_is_down [of i bin conf pr] by (simp add: awg_down_def)
next
  case (up c E)
  then have a: "accounted c" using down_is_accounted by (auto split: if_splits)
  have c: "aw_conf c = conf" using up.IH settings_conf [of c "awg_new i bin conf pr"] by (simp add: awg_new_def)
  note b = bring_up_outcome [OF a, of E]
  show ?case
    using b up.IH c settings_iface [of "snd (awg_bring_up E c)" c]
    by (cases "fst (awg_bring_up E c)") (auto simp: up_outcome_def awg_down_def)
next
  case (down c E)
  then have a: "accounted c" using down_is_accounted by (auto split: if_splits)
  show ?case
    using down_locked_down [OF a, of E] down_locked_kept [of E c] down.IH by (simp add: awg_down_def)
qed


definition sample_awg_conf :: awg_conf where
  "sample_awg_conf =
     empty_conf\<lparr>ac_address := ''10.8.1.2/32'', ac_endpoint := ''192.0.2.7:51820'',
       ac_private := b64_encode StdAlphabet True (replicate 32 CHR ''k''),
       ac_public := b64_encode StdAlphabet True (replicate 32 CHR ''p'')\<rparr>"

definition sample_awg_env :: awg_env where
  "sample_awg_env =
     \<lparr>ae_stat = (\<lambda>p. None), ae_look = Some, ae_start = (\<lambda>b. None), ae_wait = None, ae_sock = [(None, True)],
      ae_uapi = (\<lambda>b. Inr (''errno=0'' @ [CHR 0x0A])), ae_ip = (\<lambda>a. None),
      ae_route_get = (\<lambda>a. Inr ''192.0.2.7 via 198.51.100.1 dev eth0 src 198.51.100.9''),
      ae_gets = [(None, Inr (''last_handshake_time_sec=5'' @ [CHR 0x0A] @ ''rx_bytes=9'' @ [CHR 0x0A], True))],
      ae_dial = (\<lambda>t. None)\<rparr>"

lemma sample_conf_values:
  "interface_addr sample_awg_conf = Inr (IP6 0xFFFF0A080102, Net4 0x0A080102 32)"
  "endpoint_ip sample_awg_conf = Some (IP4 0xC0000207)" "show_ip (IP4 0xC0000207) = ''192.0.2.7''"
  "is_ok (uapi_device sample_awg_conf)" "is_ok (uapi_peer sample_awg_conf)"
proof -
  show "interface_addr sample_awg_conf = Inr (IP6 0xFFFF0A080102, Net4 0x0A080102 32)" by code_simp
  show "endpoint_ip sample_awg_conf = Some (IP4 0xC0000207)" by code_simp
  show "show_ip (IP4 0xC0000207) = ''192.0.2.7''" by code_simp
  show "is_ok (uapi_device sample_awg_conf)"
    by (simp add: uapi_device_def sample_awg_conf_def key_to_hex_encode write_key_def empty_conf_def)
  show "is_ok (uapi_peer sample_awg_conf)"
    by (simp add: uapi_peer_def sample_awg_conf_def key_to_hex_encode write_key_def empty_conf_def)
qed

lemma sample_env_values:
  "uapi_result (ae_uapi sample_awg_env b) = None" "poll (ae_sock sample_awg_env) = PollOk"
  "poll (map (\<lambda>(ctx, r). (ctx, handshake_ok r)) (ae_gets sample_awg_env)) = PollOk"
  "ae_route_get sample_awg_env a = Inr ''192.0.2.7 via 198.51.100.1 dev eth0 src 198.51.100.9''"
  "word_after ''dev'' [] (str_fields ''192.0.2.7 via 198.51.100.1 dev eth0 src 198.51.100.9'') = ''eth0''"
  "ae_ip sample_awg_env args = None" "ae_start sample_awg_env bin = None" "ae_dial sample_awg_env t = None"
  "ae_look sample_awg_env p = Some p"
proof -
  have u: "uapi_result (Inr (''errno=0'' @ [CHR 0x0A])) = None" by code_simp
  show "uapi_result (ae_uapi sample_awg_env b) = None" using u by (simp add: sample_awg_env_def)
  show "poll (ae_sock sample_awg_env) = PollOk" by code_simp
  show "poll (map (\<lambda>(ctx, r). (ctx, handshake_ok r)) (ae_gets sample_awg_env)) = PollOk" by code_simp
  show "word_after ''dev'' [] (str_fields ''192.0.2.7 via 198.51.100.1 dev eth0 src 198.51.100.9'') = ''eth0''" by code_simp
qed (simp_all add: sample_awg_env_def)

lemma run_ip_sample: "run_ip sample_awg_env cmd c = (None, host (Ip cmd True) c)"
  "try_ip sample_awg_env cmd c = host (Ip cmd True) c" "up_ip sample_awg_env cmd c = (None, host (Ip cmd True) c)"
  by (simp_all add: run_ip_def try_ip_def up_ip_def sample_env_values)

lemma iface_of_simps [simp]: "iface_of (host h c) = iface_of c" "iface_of (c\<lparr>aw_cmd := b\<rparr>) = iface_of c"
  by (simp_all add: iface_of_def)

lemma sample_comes_up:
  assumes "aw_conf c = sample_awg_conf" "aw_iface c = []"
  shows "\<exists>c'. awg_bring_up sample_awg_env c = (None, c') \<and> aw_pinned c' = ''192.0.2.7''"
proof -
  define d where "d = snd (down_locked sample_awg_env c)"
  have d: "aw_conf d = sample_awg_conf" "iface_of d = ''og-awg0''"
    using assms down_locked_kept [of sample_awg_env c]
    by (simp_all add: d_def awg_settings_def iface_of_def default_iface_def)
  obtain dev where dev: "uapi_device sample_awg_conf = Inr dev"
    using sample_conf_values(4) by (auto simp: is_ok_conv)
  obtain peer where peer: "uapi_peer sample_awg_conf = Inr peer"
    using sample_conf_values(5) by (auto simp: is_ok_conv)
  obtain bin where bin: "wg_bin sample_awg_env d = Some bin"
    by (cases "wg_bin sample_awg_env d") (auto simp: wg_bin_def Let_def sample_env_values split: if_splits)
  define s where "s = (host (StartDaemon bin ''og-awg0'') (host (Ip (LinkDel ''og-awg0'') True) d))\<lparr>aw_cmd := True\<rparr>"
  have s: "aw_conf s = sample_awg_conf" "iface_of s = ''og-awg0''"
    using d by (simp_all add: s_def)
  have up: "awg_bring_up sample_awg_env c = up_then (up_routes sample_awg_env (IP6 0xFFFF0A080102) (Net4 0x0A080102 32) s)
      (up_confirm sample_awg_env)"
    using bin d dev peer
    by (simp add: awg_bring_up_def d_def [symmetric] sample_conf_values sample_env_values run_ip_sample s_def [symmetric]
        up_wait_socket_def up_uapi_def up_then_def)
  define l where "l = host (Ip (LinkUp ''og-awg0'') True) (host (Ip (LinkMtu ''og-awg0'') True)
    (host (DisableV6 ''og-awg0'') (host (Ip (AddrReplace (addr_text (IP6 0xFFFF0A080102) (Net4 0x0A080102 32)) ''og-awg0'') True) s)))"
  have l: "aw_conf l = sample_awg_conf" "iface_of l = ''og-awg0''"
    using s by (simp_all add: l_def)
  have "aw_pinned (snd (pin_endpoint_route sample_awg_env l)) = ''192.0.2.7''"
    using l by (simp add: pin_endpoint_route_def sample_conf_values sample_env_values run_ip_sample)
  then have "\<exists>c'. up_routes sample_awg_env (IP6 0xFFFF0A080102) (Net4 0x0A080102 32) s = (None, c') \<and> aw_pinned c' = ''192.0.2.7''"
    using s by (simp add: up_routes_def Let_def run_ip_sample up_then_def l_def [symmetric])
  moreover have "up_confirm sample_awg_env x = (None, x\<lparr>aw_ready := True\<rparr>)" for x
    by (simp add: up_confirm_def sample_env_values probe_targets_def Let_def)
  ultimately show ?thesis
    unfolding up by (auto simp: up_then_def)
qed


text \<open>
  With an address in a wider network the interface is given the first address of that network, while the
  policy rule and the dialer use the address of the configuration.
\<close>

lemma subnet_address_not_assigned:
  "case interface_addr (sample_awg_conf\<lparr>ac_address := ''10.8.1.2/24''\<rparr>) of
     Inl e \<Rightarrow> False
   | Inr (a, n) \<Rightarrow> show_ip a = ''10.8.1.2'' \<and> addr_text a n = ''10.8.1.0/24''"
  by code_simp

section \<open>The log does not depend on how the output is cut\<close>

lemma split_on_last: "split_on c (s @ t) = butlast (split_on c s) @ split_on c (last (split_on c s) @ t)"
proof (induction s)
  case (Cons x s)
  then show ?case
    by (cases "split_on c s") (auto simp: split_on_append)
qed simp

lemma log_write_append: "log_write (log_write st p) q = log_write st (p @ q)"
proof -
  have "butlast (split_on CHR 0x0A (fst st @ p @ q)) =
      butlast (split_on CHR 0x0A (fst st @ p)) @ butlast (split_on CHR 0x0A (last (split_on CHR 0x0A (fst st @ p)) @ q))"
    "last (split_on CHR 0x0A (fst st @ p @ q)) = last (split_on CHR 0x0A (last (split_on CHR 0x0A (fst st @ p)) @ q))"
    using split_on_last [of "CHR 0x0A" "fst st @ p" q] by (simp_all add: butlast_append)
  then show ?thesis
    by (simp add: log_write_def Let_def)
qed

end
