(* ===== verification/Tunnel_Switch.thy ===== *)
theory Tunnel_Switch
  imports Tunnel_Mux Amnezia_Client
begin

text \<open>
  \<open>switchBackend\<close> of \<open>cmd/outline-gate/main.go\<close> with the AmneziaWG client of \<open>internal/amnezia\<close> itself. \<open>Tunnel_Mux\<close>
  keeps of that client whether it is ready and takes the outcome of bringing it up as a parameter; here every switch
  runs its commands on the host. The detailed switch is shown to implement the abstract one, so what \<open>Tunnel_Mux\<close>
  proves holds of it, and the host is left in the state that the chosen backend needs.
\<close>

section \<open>The switch with its client\<close>

record tunnel =
  tn_mux :: "(backend_dialer, live) mux"
  tn_ready :: bool
  tn_ip :: "ip option"
  tn_awg :: "awg_client option"
  tn_fs :: fs
  tn_effects :: "switch_effect list"

text \<open>What the functions that main gave the mux read of the clients.\<close>

definition tunnel_live :: "tunnel \<Rightarrow> live" where
  "tunnel_live s =
     \<lparr>lv_outline_ready = tn_ready s, lv_outline_ip = tn_ip s,
      lv_awg = map_option (\<lambda>c. (aw_ready c, awg_endpoint_ip (Some c))) (tn_awg s)\<rparr>"

definition finish_tunnel :: "unicode \<Rightarrow> faults \<Rightarrow> string \<Rightarrow> tunnel \<Rightarrow> tunnel" where
  "finish_tunnel U F path s =
     s\<lparr>tn_fs := final_fs (tn_fs s) (fst (persist_backend U F path (backend_of (tn_mux s)) (tn_fs s))),
       tn_effects := tn_effects s @ [RebuildPush, ClearPath (mux_server_ip (tn_mux s) (tunnel_live s))]\<rparr>"

datatype tunnel_error = NoConf | UpError up_error | MuxError mux_error | UnknownName string

definition switch_tunnel ::
  "unicode \<Rightarrow> faults \<Rightarrow> string \<Rightarrow> awg_env \<Rightarrow> string \<Rightarrow> tunnel \<Rightarrow> tunnel_error option \<times> tunnel" where
  "switch_tunnel U F path E name0 s =
     (let name = normalize_backend U name0 in
      if name = ''amnezia'' then
        (case tn_awg s of
           None \<Rightarrow> (Some NoConf, s)
         | Some c \<Rightarrow>
             (case awg_bring_up E c of
                (Some e, c1) \<Rightarrow>
                  (Some (UpError e), s\<lparr>tn_awg := Some c1, tn_mux := snd (mux_set_backend U ''outline'' (tn_mux s))\<rparr>)
              | (None, c1) \<Rightarrow>
                  (case mux_set_backend U ''amnezia'' (tn_mux s) of
                     (Some e, m) \<Rightarrow> (Some (MuxError e), s\<lparr>tn_awg := Some (snd (down_locked E c1))\<rparr>)
                   | (None, m) \<Rightarrow> (None, finish_tunnel U F path (s\<lparr>tn_awg := Some c1, tn_mux := m\<rparr>)))))
      else if name = ''outline'' then
        (None, finish_tunnel U F path
           (s\<lparr>tn_mux := snd (mux_set_backend U ''outline'' (tn_mux s)),
              tn_awg := map_option (\<lambda>c. snd (down_locked E c)) (tn_awg s)\<rparr>))
      else (Some (UnknownName name), s))"

text \<open>Runs of the program on one AmneziaWG configuration; the Outline client changes on its own.\<close>

inductive tunnel_run :: "unicode \<Rightarrow> awg_client option \<Rightarrow> tunnel \<Rightarrow> bool" for U c0 where
  start: "tunnel_run U c0 \<lparr>tn_mux = main_mux (c0 \<noteq> None), tn_ready = b, tn_ip = a, tn_awg = c0, tn_fs = fs, tn_effects = es\<rparr>"
| switch: "tunnel_run U c0 s \<Longrightarrow> tunnel_run U c0 (snd (switch_tunnel U F path E name s))"
| outline: "tunnel_run U c0 s \<Longrightarrow> tunnel_run U c0 (s\<lparr>tn_ready := b, tn_ip := a\<rparr>)"

section \<open>It implements the abstract switch\<close>

definition switch_view :: "tunnel \<Rightarrow> switcher" where
  "switch_view s = \<lparr>sw_mux = tn_mux s, sw_live = tunnel_live s, sw_fs = tn_fs s, sw_effects = tn_effects s\<rparr>"

fun error_view :: "(up_error \<Rightarrow> string) \<Rightarrow> tunnel_error \<Rightarrow> switch_error" where
  "error_view txt NoConf = NoAmneziaConf"
| "error_view txt (UpError e) = UpFailed (txt e)"
| "error_view txt (MuxError e) = MuxRefused e"
| "error_view txt (UnknownName n) = NoSuchBackend n"

text \<open>The outcome of bringing AmneziaWG up that the abstract switch is given.\<close>

definition up_of :: "(up_error \<Rightarrow> string) \<Rightarrow> awg_env \<Rightarrow> tunnel \<Rightarrow> string option" where
  "up_of txt E s = (case tn_awg s of None \<Rightarrow> None | Some c \<Rightarrow> map_option txt (fst (awg_bring_up E c)))"

definition own_client :: "awg_client option \<Rightarrow> tunnel \<Rightarrow> bool" where
  "own_client c0 s \<longleftrightarrow>
     (case (c0, tn_awg s) of (None, None) \<Rightarrow> True | (Some d, Some c) \<Rightarrow> awg_run d c | _ \<Rightarrow> False)"

definition fresh_client :: "awg_client option \<Rightarrow> bool" where
  "fresh_client c0 \<longleftrightarrow> (case c0 of None \<Rightarrow> True | Some c \<Rightarrow> \<exists>i bin conf pr. c = awg_new i bin conf pr)"

lemma finish_tunnel_simps [simp]:
  "tn_awg (finish_tunnel U F path s) = tn_awg s" "tn_mux (finish_tunnel U F path s) = tn_mux s"
  by (simp_all add: finish_tunnel_def)

lemma run_up: "awg_run d c \<Longrightarrow> awg_bring_up E c = (e, c1) \<Longrightarrow> awg_run d c1"
  using awg_run.up [of d c E] by simp

lemma own_client_kept: "own_client c0 s \<Longrightarrow> own_client c0 (snd (switch_tunnel U F path E name s))"
  by (auto simp: own_client_def switch_tunnel_def Let_def split: option.splits prod.splits intro: run_up awg_run.down)

lemma own_client_run: "tunnel_run U c0 s \<Longrightarrow> own_client c0 s"
proof (induction rule: tunnel_run.induct)
  case (start b a fs es)
  show ?case
    by (auto simp: own_client_def intro: awg_run.start split: option.split)
next
  case (switch s F path E name)
  then show ?case
    by (intro own_client_kept)
next
  case (outline s b a)
  then show ?case
    by (simp add: own_client_def)
qed

text \<open>What a client is after it was brought up or down, seen from the switch.\<close>

lemma bring_up_view:
  assumes "fresh_client (Some d)" "awg_run d c" "awg_bring_up E c = (e, c1)"
  shows "aw_ready c1 \<longleftrightarrow> e = None" "aw_conf c1 = aw_conf c"
proof -
  have "accounted c"
    using assms(1,2) awg_run_state down_is_accounted by (fastforce simp: fresh_client_def split: if_splits)
  from bring_up_outcome [OF this, of E] show "aw_ready c1 \<longleftrightarrow> e = None" "aw_conf c1 = aw_conf c"
    using settings_conf [of c1 c] by (auto simp: assms(3) up_outcome_def awg_down_def split: if_splits)
qed

lemma down_view: "\<not> aw_ready (snd (down_locked E c)) \<and> aw_conf (snd (down_locked E c)) = aw_conf c"
  using settings_conf [OF down_locked_kept]
  by (simp add: down_locked_def Let_def down_rule_def down_pin_def down_daemon_def try_ip_host split: sum.split)

lemmas switch_parts = switch_tunnel_def switch_backend_def Let_def switch_view_def tunnel_live_def finish_tunnel_def
  finish_switch_def set_awg_def awg_endpoint_ip_def

lemma switch_tunnel_view:
  assumes "fresh_client c0" "own_client c0 s"
  shows "map_option (error_view txt) (fst (switch_tunnel U F path E name s)) =
      fst (switch_backend U F path (up_of txt E s) name (switch_view s)) \<and>
    switch_view (snd (switch_tunnel U F path E name s)) =
      snd (switch_backend U F path (up_of txt E s) name (switch_view s))"
proof (cases "tn_awg s")
  case None
  then show ?thesis
    by (simp add: switch_parts)
next
  case (Some c)
  then obtain d where d: "c0 = Some d" "awg_run d c"
    using assms(2) by (auto simp: own_client_def split: option.splits)
  obtain e c1 where up: "awg_bring_up E c = (e, c1)"
    by (cases "awg_bring_up E c")
  note v = bring_up_view [OF _ d(2) up] down_view [of E c1] down_view [of E c]
  show ?thesis
    using assms(1) v Some up d(1)
    by (cases e) (auto simp: switch_parts up_of_def split: option.split prod.split)
qed

lemma start_outline: "mx_backend (main_mux conf) = ''outline''"
  by (simp add: main_mux_def new_mux_def)

lemma tunnel_run_view: "tunnel_run U c0 s \<Longrightarrow> fresh_client c0 \<Longrightarrow> switch_run U (c0 \<noteq> None) (switch_view s)"
proof (induction rule: tunnel_run.induct)
  case (start b a fs es)
  then show ?case
    unfolding switch_view_def tunnel.simps
    by (intro switch_run.start) (auto simp: tunnel_live_def fresh_client_def awg_new_def split: option.splits)
next
  case (switch s F path E name)
  then show ?case
    using switch_run.switch switch_tunnel_view [OF switch.prems own_client_run [OF switch.hyps]] by metis
next
  case (outline s a b)
  have "switch_view (s\<lparr>tn_ready := b, tn_ip := a\<rparr>) =
      (switch_view s)\<lparr>sw_live := (sw_live (switch_view s))\<lparr>lv_outline_ready := b, lv_outline_ip := a\<rparr>\<rparr>"
    by (simp add: switch_view_def tunnel_live_def)
  then show ?case
    using outline by (simp only: switch_run.outline)
qed


section \<open>A switch\<close>

definition sample_tunnel :: tunnel where
  "sample_tunnel =
     \<lparr>tn_mux = main_mux True, tn_ready = True, tn_ip = None, tn_awg = Some (awg_new [] [] sample_awg_conf []),
      tn_fs = Map.empty, tn_effects = []\<rparr>"

text \<open>AmneziaWG comes up; brought up again it gets no handshake.\<close>

definition sample_up :: tunnel where
  "sample_up = snd (switch_tunnel ascii_tables no_faults ''b'' sample_awg_env ''awg'' sample_tunnel)"

definition sample_lost :: tunnel where
  "sample_lost = snd (switch_tunnel ascii_tables no_faults ''b'' (sample_awg_env\<lparr>ae_gets := []\<rparr>) ''vpn'' sample_up)"


end
