(* ===== verification/Main_Wiring.thy ===== *)
theory Main_Wiring
  imports Web_Api Nft_Gateway
begin

text \<open>
  \<open>cmd/outline-gate/main.go\<close> and \<open>internal/netrecover/recover.go\<close>: how the parts are wired. The state is the
  current configuration, the parts the management API controls, the engine, the gateway with the nftables
  table in the kernel, and the allow list of the SOCKS server. An operation of main is a function on it.
  Commands run to clear host state are recorded with their standard input.
\<close>

section \<open>Clearing host state\<close>

type_synonym host_run = "string list \<times> string"

definition host_cmd :: "bool \<Rightarrow> string list \<Rightarrow> string list" where
  "host_cmd netns args = (if \<not> netns then [] else [''nsenter'', ''--net=/host/netns''] @ args)"

definition run_each :: "host_run list \<Rightarrow> host_run list" where
  "run_each cmds = filter (\<lambda>c. fst c \<noteq> []) cmds"

definition clear_path :: "bool \<Rightarrow> ip option \<Rightarrow> host_run list" where
  "clear_path netns server =
     (let ip = (case server of None \<Rightarrow> [] | Some a \<Rightarrow> (case to4 a of None \<Rightarrow> [] | Some v4 \<Rightarrow> show_ip (IP4 v4)));
          dst = [''conntrack'', ''-D'', ''-d'', ip]; src = [''conntrack'', ''-D'', ''-s'', ip];
          cache = [''ip'', ''route'', ''flush'', ''cache'']
      in run_each (map (\<lambda>c. (c, []))
           ((if ip \<noteq> [] then [host_cmd netns dst, host_cmd netns src, dst, src] else []) @
            [host_cmd netns cache, cache])))"

definition flush_stale_nat :: "bool \<Rightarrow> host_run list" where
  "flush_stale_nat netns =
     (let script = show_script id [DeleteTable] @ [CHR 0x0A]; nft = [''nft'', ''-f'', ''-'']
      in run_each [(host_cmd netns nft, script), (nft, script)])"

section \<open>Listeners\<close>

definition ip_is_loopback :: "ip \<Rightarrow> bool" where
  "ip_is_loopback a =
     (case to4 a of Some v4 \<Rightarrow> drop_bit 24 v4 = 127 | None \<Rightarrow> ip_equal a (IP6 1))"

text \<open>\<open>strings.EqualFold\<close>, with its answer for text beyond ASCII as a parameter.\<close>

definition is_loopback_listen :: "unicode \<Rightarrow> (string \<Rightarrow> bool) \<Rightarrow> string \<Rightarrow> bool" where
  "is_loopback_listen U folds addr =
     (case split_host_port addr of
        Inl e \<Rightarrow> False
      | Inr (host, port) \<Rightarrow>
          (case parse_ip host of
             None \<Rightarrow> if is_ascii host then to_lower U host = ''localhost'' else folds host
           | Some a \<Rightarrow> ip_is_loopback a))"

section \<open>State\<close>

record main =
  mn_cfg :: config
  mn_web :: web
  mn_engine :: "engine option"
  mn_gw :: "gateway option"
  mn_kernel :: "nft_table option"
  mn_allow :: "ipnet list"
  mn_metrics :: "registry option"
  mn_ui :: bool
  mn_host :: "host_run list"

text \<open>What main was started with, and how nft answers.\<close>

record main_env =
  me_web :: web_env
  me_nft :: nft
  me_netns :: bool
  me_reconnected :: string
  me_not_applied :: "gateway_error \<Rightarrow> string"
  me_reconnect_text :: "reconnect_error \<Rightarrow> string"

definition main_files :: "main \<Rightarrow> fs" where
  "main_files s = sw_fs (wb_switch (mn_web s))"

definition server_ips_from :: "client option \<Rightarrow> ip list" where
  "server_ips_from c =
     (case c of None \<Rightarrow> [] | Some x \<Rightarrow> (case oc_server x of Some a \<Rightarrow> [a] | None \<Rightarrow> []))"

definition tunnel_bypass_ips :: "client option \<Rightarrow> ip option option \<Rightarrow> ip list" where
  "tunnel_bypass_ips c awg =
     server_ips_from c @ (case awg of None \<Rightarrow> [] | Some ep \<Rightarrow> (case ep of Some a \<Rightarrow> [a] | None \<Rightarrow> []))"

definition main_servers :: "web \<Rightarrow> ip option list" where
  "main_servers w = map Some (tunnel_bypass_ips (Some (wb_client w)) (map_option snd (lv_awg (sw_live (wb_switch w)))))"

section \<open>Pushing a change\<close>

definition current_engine :: "main \<Rightarrow> engine" where
  "current_engine s =
     new_engine_with_bypass (mn_cfg s) (effective_bypass_nets (wb_bypass (mn_web s))) (main_servers (mn_web s))"

text \<open>A gateway that cannot be updated is only logged.\<close>

definition rebuild_push :: "nft \<Rightarrow> main \<Rightarrow> main" where
  "rebuild_push N s =
     (let eng = Some (current_engine s) in
      case mn_gw s of
        None \<Rightarrow> s\<lparr>mn_engine := eng\<rparr>
      | Some g \<Rightarrow>
          (case update_engine N eng g (mn_kernel s) of
             (r, g', k') \<Rightarrow> s\<lparr>mn_engine := eng, mn_gw := Some g', mn_kernel := k'\<rparr>))"

text \<open>\<open>OnChange\<close> of the bypass manager: the manager counts its calls.\<close>

definition on_change :: "nft \<Rightarrow> manager \<Rightarrow> main \<Rightarrow> main" where
  "on_change N before s = (if mg_changes before < mg_changes (wb_bypass (mn_web s)) then rebuild_push N s else s)"

definition with_bypass_rules :: "manager \<times> fs \<Rightarrow> main \<Rightarrow> main" where
  "with_bypass_rules mf s =
     s\<lparr>mn_web := (mn_web s)\<lparr>wb_bypass := fst mf, wb_switch := (wb_switch (mn_web s))\<lparr>sw_fs := snd mf\<rparr>\<rparr>\<rparr>"

text \<open>An operation of the bypass manager, from the API, the refresh loop or main itself.\<close>

definition bypass_op :: "unicode \<Rightarrow> nft \<Rightarrow> faults \<Rightarrow> mgr_op \<Rightarrow> main \<Rightarrow> main" where
  "bypass_op U N F opn s =
     on_change N (wb_bypass (mn_web s))
       (with_bypass_rules (mgr_step U F opn (wb_bypass (mn_web s), main_files s)) s)"

definition block_op :: "unicode \<Rightarrow> faults \<Rightarrow> mgr_op \<Rightarrow> main \<Rightarrow> main" where
  "block_op U F opn s =
     (case mgr_step U F opn (wb_block (mn_web s), main_files s) of
        (m, fs) \<Rightarrow> s\<lparr>mn_web := (mn_web s)\<lparr>wb_block := m, wb_switch := (wb_switch (mn_web s))\<lparr>sw_fs := fs\<rparr>\<rparr>\<rparr>)"

text \<open>The callback of \<open>MaintainReady\<close>, and the one for a path that stalled.\<close>

definition outline_ready :: "nft \<Rightarrow> bool \<Rightarrow> main \<Rightarrow> main" where
  "outline_ready N ready s = (if ready then rebuild_push N s else s)"

definition on_unready :: "main_env \<Rightarrow> main \<Rightarrow> main" where
  "on_unready E s = s\<lparr>mn_host := mn_host s @ clear_path (me_netns E) (oc_server (wb_client (mn_web s)))\<rparr>"

text \<open>What main counts: recorded connections, and the outcomes the Outline client reports.\<close>

definition recorded :: "unicode \<Rightarrow> int \<Rightarrow> conn_event \<Rightarrow> main \<Rightarrow> main" where
  "recorded U now e s =
     (case conn_hook U now e (wb_log (mn_web s), mn_metrics s) of
        (l, r) \<Rightarrow> s\<lparr>mn_web := (mn_web s)\<lparr>wb_log := l\<rparr>, mn_metrics := r\<rparr>)"

fun observe_outline :: "outline_event \<Rightarrow> registry option \<Rightarrow> registry option" where
  "observe_outline (OnProbe ok) r = observe_probe ok r"
| "observe_outline (OnRefresh e changed) r = observe_refresh (e = None) changed r"
| "observe_outline x r = r"

section \<open>Start\<close>

text \<open>
  The Outline client has connected or not, AmneziaWG is configured or not; \<open>k\<close> is the table an earlier
  process may have left.
\<close>

definition main_init :: "main_env \<Rightarrow> config \<Rightarrow> client \<Rightarrow> ip option option \<Rightarrow> fs \<Rightarrow> nft_table option \<Rightarrow> main" where
  "main_init E c cl awg fs k =
     \<lparr>mn_cfg = c,
      mn_web = \<lparr>wb_bypass = new_manager (Some (new_store (cf_bypass_file c))) (cf_bypass c),
        wb_block = new_manager (Some (new_store (cf_block_file c))) [], wb_client = cl,
        wb_switch = \<lparr>sw_mux = main_mux (awg \<noteq> None),
          sw_live = \<lparr>lv_outline_ready = oc_ready cl, lv_outline_ip = oc_server cl, lv_awg = map_option (Pair False) awg\<rparr>,
          sw_fs = fs, sw_effects = []\<rparr>,
        wb_log = new_log 500, wb_effects = []\<rparr>,
      mn_engine = None, mn_gw = None, mn_kernel = snd (run_nft (me_nft E) [DeleteTable] k),
      mn_allow = cf_socks_allow c, mn_metrics = (if cf_metrics c then Some new_registry else None),
      mn_ui = cf_ui c,
      mn_host = flush_stale_nat (me_netns E) @ clear_path (me_netns E) (oc_server cl)\<rparr>"

definition main_start :: "main_env \<Rightarrow> config \<Rightarrow> client \<Rightarrow> ip option option \<Rightarrow> fs \<Rightarrow> nft_table option \<Rightarrow> main" where
  "main_start E c cl awg fs k =
     (let U = we_unicode (me_web E); N = me_nft E; L = we_lookup (me_web E);
          s1 = bypass_op U N no_faults (MLoad L) (main_init E c cl awg fs k);
          s2 = block_op U no_faults (MLoad L) s1;
          eng = Some (current_engine s2)
      in s2\<lparr>mn_engine := eng, mn_gw := (if cf_gateway c then Some (new_gateway c eng) else None)\<rparr>)"

section \<open>The gateway goroutine\<close>

definition apply_once :: "nft \<Rightarrow> main \<Rightarrow> gateway_error option \<times> main" where
  "apply_once N s =
     (case mn_gw s of
        None \<Rightarrow> (None, s)
      | Some g \<Rightarrow>
          (case apply_locked N g (mn_kernel s) of (r, g', k') \<Rightarrow> (r, s\<lparr>mn_gw := Some g', mn_kernel := k'\<rparr>)))"

definition retry_base :: "config \<Rightarrow> int" where
  "retry_base c = (if cf_reconnect_base c \<le> 0 then second else cf_reconnect_base c)"

definition retry_max :: "config \<Rightarrow> int" where
  "retry_max c = (if cf_reconnect_max c < retry_base c then 60 * second else cf_reconnect_max c)"

definition retry_next :: "config \<Rightarrow> int \<Rightarrow> int" where
  "retry_next c delay = (if retry_max c < delay * 2 then retry_max c else delay * 2)"

text \<open>
  The attempts made before the process is stopped, each with the answers of nft at its time: whether one
  succeeded, and the waits in between.
\<close>

fun apply_retries :: "config \<Rightarrow> nft list \<Rightarrow> int \<Rightarrow> main \<Rightarrow> bool \<times> int list \<times> main" where
  "apply_retries c [] delay s = (False, [], s)"
| "apply_retries c (N # Ns) delay s =
     (case apply_once N s of
        (None, s1) \<Rightarrow> (True, [], s1)
      | (Some e, s1) \<Rightarrow>
          (case apply_retries c Ns (retry_next c delay) s1 of (ok, ws, s2) \<Rightarrow> (ok, delay # ws, s2)))"

definition gateway_goroutine :: "main_env \<Rightarrow> nft list \<Rightarrow> main \<Rightarrow> bool \<times> int list \<times> main" where
  "gateway_goroutine E Ns s =
     (let s1 = rebuild_push (me_nft E) s in apply_retries (mn_cfg s1) Ns (retry_base (mn_cfg s1)) s1)"

section \<open>Reload, restart, shutdown\<close>

text \<open>SIGHUP: the configuration that was read, if it could be.\<close>

definition sighup_reload :: "main_env \<Rightarrow> config option \<Rightarrow> main \<Rightarrow> main" where
  "sighup_reload E loaded s =
     (case loaded of
        None \<Rightarrow> s
      | Some c \<Rightarrow>
          (let U = we_unicode (me_web E); N = me_nft E; L = we_lookup (me_web E);
               s1 = s\<lparr>mn_cfg := c, mn_allow := cf_socks_allow c\<rparr>;
               s2 = (case mn_gw s1 of
                       None \<Rightarrow> s1
                     | Some g \<Rightarrow> (let eng = Some (current_engine s1) in
                         s1\<lparr>mn_engine := eng, mn_gw := Some (new_gateway c eng)\<rparr>));
               s3 = bypass_op U N no_faults (MStatic (cf_bypass c)) s2;
               s4 = bypass_op U N no_faults (MLoad L) s3;
               s5 = block_op U no_faults (MLoad L) s4
           in (case mn_gw s of
                 None \<Rightarrow> s5
               | Some g \<Rightarrow> if gw_active g then snd (apply_once N s5) else s5)))"

text \<open>
  \<open>RestartServices\<close>. \<open>reread\<close> is the access key of the configuration as it can be read now. The result is
  the error or the message; the message may report a gateway that was not applied.
\<close>

definition awg_active :: "web \<Rightarrow> bool" where
  "awg_active w \<longleftrightarrow> backend_of (sw_mux (wb_switch w)) = ''amnezia'' \<and> lv_awg (sw_live (wb_switch w)) \<noteq> None"

definition set_awg_ready :: "bool \<Rightarrow> main \<Rightarrow> main" where
  "set_awg_ready b s =
     s\<lparr>mn_web := (mn_web s)\<lparr>wb_switch := (wb_switch (mn_web s))\<lparr>sw_live := set_awg b (sw_live (wb_switch (mn_web s)))\<rparr>\<rparr>\<rparr>"

definition set_client :: "client \<Rightarrow> main \<Rightarrow> main" where
  "set_client c s = s\<lparr>mn_web := (mn_web s)\<lparr>wb_client := c\<rparr>\<rparr>"

definition restart_outline :: "main_env \<Rightarrow> string option \<Rightarrow> client \<Rightarrow> reconnect_error option \<times> client" where
  "restart_outline E reread c =
     (case reconnect (we_outline (me_web E)) c of
        (None, c1) \<Rightarrow> (None, c1)
      | (Some e, c1) \<Rightarrow>
          (case reread of
             None \<Rightarrow> (Some e, c1)
           | Some key \<Rightarrow>
               if key = oc_key c1 then (Some e, c1)
               else (case set_access_key (we_outline (me_web E)) key c1 of
                       (None, c2) \<Rightarrow> (None, c2)
                     | (Some x, c2) \<Rightarrow> (Some e, c2))))"

definition restart_services :: "main_env \<Rightarrow> string option \<Rightarrow> main \<Rightarrow> (string + string) \<times> main" where
  "restart_services E reread s =
     (let N = me_nft E; w = mn_web s; ns = me_netns E in
      if awg_active w then
        (let s1 = s\<lparr>mn_host := mn_host s @ clear_path ns (case lv_awg (sw_live (wb_switch w)) of None \<Rightarrow> None | Some a \<Rightarrow> snd a)\<rparr>
         in case we_up (me_web E) of
              Some e \<Rightarrow> (Inl e, set_awg_ready False s1)
            | None \<Rightarrow> (Inr (me_reconnected E), rebuild_push N (set_awg_ready True s1)))
      else
        (let s1 = s\<lparr>mn_host := mn_host s @ clear_path ns (oc_server (wb_client w))\<rparr> in
         case restart_outline E reread (wb_client w) of
           (Some e, c) \<Rightarrow> (Inl (me_reconnect_text E e), set_client c s1)
         | (None, c) \<Rightarrow>
             (case apply_once N (set_client c s1) of
                (Some e, s2) \<Rightarrow> (Inr (me_not_applied E e), s2)
              | (None, s2) \<Rightarrow> (Inr (we_restarted (me_web E)), s2))))"

text \<open>
  A request of the HTTP server. The calls the handlers make into main are in the effect lists of the new
  state: a rebuild, or a restart of the services, whose outcome is that of main.
\<close>

definition main_health :: "main \<Rightarrow> health" where
  "main_health s =
     \<lparr>he_tunnel = Some (mux_ready (sw_mux (wb_switch (mn_web s))) (live_of (mn_web s))),
      he_gateway = Some (case mn_gw s of None \<Rightarrow> True | Some g \<Rightarrow> gw_active g),
      he_required = mn_gw s \<noteq> None, he_started = True\<rparr>"

definition quiet_web :: "web \<Rightarrow> web" where
  "quiet_web w = w\<lparr>wb_effects := [], wb_switch := (wb_switch w)\<lparr>sw_effects := []\<rparr>\<rparr>"

fun path_cleared :: "bool \<Rightarrow> switch_effect \<Rightarrow> host_run list" where
  "path_cleared netns (ClearPath a) = clear_path netns a"
| "path_cleared netns RebuildPush = []"

definition settle :: "main_env \<Rightarrow> main \<Rightarrow> web \<Rightarrow> main" where
  "settle E s w =
     (let s1 = s\<lparr>mn_web := quiet_web w\<rparr>;
          pushed = (mg_changes (wb_bypass (mn_web s)) < mg_changes (wb_bypass w) \<or> Pushed \<in> set (wb_effects w) \<or>
            RebuildPush \<in> set (sw_effects (wb_switch w)));
          s2 = (if pushed then rebuild_push (me_nft E) s1 else s1)
      in s2\<lparr>mn_host := mn_host s2 @ concat (map (path_cleared (me_netns E)) (sw_effects (wb_switch w)))\<rparr>)"

definition serve_main :: "main_env \<Rightarrow> string option \<Rightarrow> string \<Rightarrow> request \<Rightarrow> main \<Rightarrow> reply \<times> main" where
  "serve_main E reread uptime r s =
     (let H = main_health s; w0 = quiet_web (mn_web s) in
      if rq_path r = ''/metrics'' \<and> mn_metrics s \<noteq> None then (metrics_handler (rq_method r) uptime (mn_metrics s), s)
      else if \<not> mn_ui s then
        (if rq_path r = ''/healthz'' then handle_live H
         else if rq_path r = ''/readyz'' then handle_ready H else handle_root (rq_path r), s)
      else
        (let again = restart_services E reread s;
             R = (\<lambda>w. (fst again, (quiet_web (mn_web (snd again)))\<lparr>wb_effects := [Restarted]\<rparr>))
         in case serve_web (me_web E) (Some R) True H r w0 of
              (x, w) \<Rightarrow> (x, if Restarted \<in> set (wb_effects w) then snd again else settle E s w)))"

definition shutdown :: "main_env \<Rightarrow> main \<Rightarrow> main" where
  "shutdown E s =
     set_awg_ready False
       (case mn_gw s of
          None \<Rightarrow> s
        | Some g \<Rightarrow>
            (case flush_gateway (we_unicode (me_web E)) (me_nft E) g (mn_kernel s) of
               (r, g', k') \<Rightarrow> s\<lparr>mn_gw := Some g', mn_kernel := k'\<rparr>))"

section \<open>The steps of the process\<close>

text \<open>
  The goroutines of main, and what each does to the state at a time. A dial of a proxy or of the DNS stub
  counts failures in the Outline client. Every step may meet other answers of nft, of the files and of
  the network than the one before.
\<close>

datatype part = HttpPart | BypassPart | BlockPart | OutlinePart | DnsPart | SocksPart | TransparentPart | GatewayPart | HupPart

fun part_dials :: "part \<Rightarrow> bool" where
  "part_dials p \<longleftrightarrow> p = OutlinePart \<or> p = DnsPart \<or> p = SocksPart \<or> p = TransparentPart"

inductive part_step :: "part \<Rightarrow> main \<Rightarrow> main \<Rightarrow> bool" where
  request: "nft_deletes (me_nft E) \<Longrightarrow> part_step HttpPart s (snd (serve_main E reread uptime r s))"
| refresh: "nft_deletes N \<Longrightarrow> part_step BypassPart s (bypass_op U N F (MRefresh L) s)"
| block: "part_step BlockPart s (block_op U F (MRefresh L) s)"
| client: "part_dials p \<Longrightarrow> part_step p s (set_client c s)"
| unready: "part_dials p \<Longrightarrow> part_step p s (on_unready E s)"
| ready: "nft_deletes N \<Longrightarrow> part_step OutlinePart s (outline_ready N b s)"
| conn: "p = SocksPart \<or> p = TransparentPart \<Longrightarrow> part_step p s (recorded U now e s)"
| push: "nft_deletes N \<Longrightarrow> part_step GatewayPart s (rebuild_push N s)"
| attempt: "nft_deletes N \<Longrightarrow> part_step GatewayPart s (snd (apply_once N s))"
| hup: "nft_deletes (me_nft E) \<Longrightarrow> part_step HupPart s (sighup_reload E c s)"

inductive main_run :: "main \<Rightarrow> bool" where
  start: "main_run (main_start E c cl awg fs k)"
| work: "main_run s \<Longrightarrow> part_step p s t \<Longrightarrow> main_run t"
| stop: "main_run s \<Longrightarrow> main_run (shutdown E s)"

section \<open>The gateway and the engine of main\<close>

definition gw_sync :: "main \<Rightarrow> bool" where
  "gw_sync s \<longleftrightarrow>
     (\<forall>g. mn_gw s = Some g \<longrightarrow>
        gw_engine g = mn_engine s \<and> mn_engine s \<noteq> None \<and> table_current (mn_cfg s) (g, mn_kernel s))"

text \<open>What the gateway sees of the state; most operations leave it alone.\<close>

definition gw_view :: "main \<Rightarrow> config \<times> engine option \<times> gateway option \<times> nft_table option" where
  "gw_view s = (mn_cfg s, mn_engine s, mn_gw s, mn_kernel s)"

lemma gw_sync_view: "gw_view s = gw_view t \<Longrightarrow> gw_sync s = gw_sync t"
  by (simp add: gw_view_def gw_sync_def)

lemma views [simp]:
  "gw_view (with_bypass_rules mf s) = gw_view s" "gw_view (set_client c s) = gw_view s"
  "gw_view (set_awg_ready b s) = gw_view s" "gw_view (block_op U F opn s) = gw_view s"
  "gw_view (recorded U now e s) = gw_view s" "gw_view (on_unready E s) = gw_view s"
  "gw_view (s\<lparr>mn_web := w\<rparr>) = gw_view s" "gw_view (s\<lparr>mn_host := h\<rparr>) = gw_view s"
  by (simp_all add: gw_view_def with_bypass_rules_def set_client_def set_awg_ready_def block_op_def recorded_def
      on_unready_def split: prod.split)

lemmas sync_views [simp] = views [THEN gw_sync_view]

lemma view_fields: "gw_view s = gw_view t \<Longrightarrow>
    mn_cfg s = mn_cfg t \<and> mn_engine s = mn_engine t \<and> mn_gw s = mn_gw t \<and> mn_kernel s = mn_kernel t"
  by (simp add: gw_view_def)

lemma sync_some: "gw_sync s \<Longrightarrow> mn_gw s = Some g \<Longrightarrow> table_some (mn_cfg s) (g\<lparr>gw_engine := e\<rparr>) (mn_kernel s)"
  by (auto simp: gw_sync_def table_current_def table_some_def)

lemma sync_some': "gw_sync s \<Longrightarrow> mn_gw s = Some g \<Longrightarrow> table_some (mn_cfg s) g (mn_kernel s)"
  by (auto simp: gw_sync_def table_current_def table_some_def)

lemma update_current:
  assumes "nft_deletes N" "table_some c (g\<lparr>gw_engine := eng\<rparr>) k" "update_engine N eng g k = (r, g', k')"
  shows "table_current c (g', k') \<and> gw_engine g' = eng"
proof (cases "gw_active g")
  case True
  then have "apply_locked N (g\<lparr>gw_engine := eng\<rparr>) k = (r, g', k')"
    using assms(3) by (simp add: update_engine_def)
  from apply_current [OF assms(1,2) this] show ?thesis by simp
next
  case False
  then show ?thesis
    using assms(2,3) by (auto simp: update_engine_def table_current_def table_some_def)
qed

lemma rebuild_push_effect:
  assumes "nft_deletes N" "gw_sync s"
  shows "gw_sync (rebuild_push N s) \<and> mn_engine (rebuild_push N s) = Some (current_engine s) \<and>
    mn_cfg (rebuild_push N s) = mn_cfg s \<and> mn_web (rebuild_push N s) = mn_web s"
proof (cases "mn_gw s")
  case None
  then show ?thesis
    by (simp add: rebuild_push_def gw_sync_def)
next
  case (Some g)
  obtain r g' k' where u: "update_engine N (Some (current_engine s)) g (mn_kernel s) = (r, g', k')"
    by (metis prod_cases3)
  then show ?thesis
    using update_current [OF assms(1) sync_some [OF assms(2) Some] u] Some
    by (simp add: rebuild_push_def gw_sync_def)
qed

lemma on_change_sync: "nft_deletes N \<Longrightarrow> gw_sync s \<Longrightarrow> gw_sync (on_change N m s)"
  by (simp add: on_change_def rebuild_push_effect)

lemma bypass_op_sync: "nft_deletes N \<Longrightarrow> gw_sync s \<Longrightarrow> gw_sync (bypass_op U N F opn s)"
  by (simp add: bypass_op_def on_change_sync)

lemma apply_once_sync:
  assumes "nft_deletes N" "gw_sync s"
  shows "gw_sync (snd (apply_once N s))"
proof (cases "mn_gw s")
  case (Some g)
  obtain r g' k' where a: "apply_locked N g (mn_kernel s) = (r, g', k')"
    by (metis prod_cases3)
  then show ?thesis
    using apply_current [OF assms(1) sync_some' [OF assms(2) Some] a] Some assms(2)
    by (auto simp: apply_once_def gw_sync_def)
qed (use assms in \<open>simp add: apply_once_def\<close>)

lemma apply_once_syncD: "apply_once N s = (r, s') \<Longrightarrow> nft_deletes N \<Longrightarrow> gw_sync s \<Longrightarrow> gw_sync s'"
  using apply_once_sync by fastforce

lemma restart_sync:
  assumes "nft_deletes (me_nft E)" "gw_sync s"
  shows "gw_sync (snd (restart_services E reread s))"
  using assms unfolding restart_services_def Let_def
  by (auto simp: rebuild_push_effect dest: apply_once_syncD split: option.split prod.split)

lemma settle_sync: "nft_deletes (me_nft E) \<Longrightarrow> gw_sync s \<Longrightarrow> gw_sync (settle E s w)"
  by (simp add: settle_def Let_def rebuild_push_effect)

lemma serve_main_sync: "nft_deletes (me_nft E) \<Longrightarrow> gw_sync s \<Longrightarrow> gw_sync (snd (serve_main E reread uptime r s))"
  by (simp add: serve_main_def Let_def restart_sync settle_sync split: prod.split)

lemma flush_current:
  "flush_gateway U N g k = (r, g', k') \<Longrightarrow> gw_cfg g = c \<Longrightarrow>
     table_current c (g', k') \<and> gw_engine g' = gw_engine g \<and> \<not> gw_active g'"
  by (auto simp: flush_gateway_def table_current_def split: prod.splits)

lemma shutdown_sync:
  assumes "gw_sync s"
  shows "gw_sync (shutdown E s)"
proof (cases "mn_gw s")
  case (Some g)
  obtain r g' k' where f: "flush_gateway (we_unicode (me_web E)) (me_nft E) g (mn_kernel s) = (r, g', k')"
    by (metis prod_cases3)
  have "gw_cfg g = mn_cfg s" "gw_engine g = mn_engine s" "mn_engine s \<noteq> None"
    using assms Some by (simp_all add: gw_sync_def table_current_def)
  then show ?thesis
    using flush_current [OF f] Some f by (simp add: shutdown_def) (simp add: gw_sync_def)
qed (use assms in \<open>simp add: shutdown_def\<close>)

lemma reload_sync:
  assumes "nft_deletes (me_nft E)" "gw_sync s"
  shows "gw_sync (sighup_reload E c s)"
proof (cases c)
  case (Some c')
  have "gw_sync (case mn_gw s1 of None \<Rightarrow> s1
      | Some g \<Rightarrow> s1\<lparr>mn_engine := Some e, mn_gw := Some (new_gateway (mn_cfg s1) (Some e))\<rparr>)" for s1 e
    by (auto simp: gw_sync_def table_current_def new_gateway_def split: option.split)
  note start = this [of "s\<lparr>mn_cfg := c', mn_allow := cf_socks_allow c'\<rparr>", simplified]
  show ?thesis
    using start assms
    by (auto simp: Some sighup_reload_def Let_def bypass_op_sync apply_once_sync split: option.split)
qed (use assms in \<open>simp add: sighup_reload_def\<close>)

lemma config_kept [simp]: "mn_cfg (bypass_op U N F opn s) = mn_cfg s" "mn_cfg (block_op U F opn s) = mn_cfg s"
  by (simp_all add: bypass_op_def on_change_def rebuild_push_def Let_def with_bypass_rules_def block_op_def
      split: option.split prod.split)

lemma main_start_sync: "gw_sync (main_start E c cl awg fs k)"
proof -
  have "mn_cfg (main_init E c cl awg fs k) = c"
    by (simp add: main_init_def)
  then show ?thesis
    by (simp add: main_start_def Let_def gw_sync_def new_gateway_def table_current_def)
qed

lemma part_step_sync: "part_step p s t \<Longrightarrow> gw_sync s \<Longrightarrow> gw_sync t"
  by (induction rule: part_step.induct)
    (simp_all add: bypass_op_sync apply_once_sync serve_main_sync reload_sync outline_ready_def rebuild_push_effect)

lemma main_run_sync: "main_run s \<Longrightarrow> gw_sync s"
  by (induction rule: main_run.induct) (simp_all add: main_start_sync part_step_sync shutdown_sync)


section \<open>What a push makes agree\<close>

lemma effective_nets_wf:
  assumes "mgr_ok U (m, fs)"
  shows "list_all net_wf (effective_bypass_nets m)"
proof -
  have "nets_wf m" and rs: "\<forall>r \<in> set (st_rules (mg_store m)). rule_wf U r"
    using assms by (simp_all add: mgr_ok_def world_ok_def st_ok_def rules_ok_def)
  then show ?thesis
    using static_nets_wf [OF rs] dedup_by_subset
    by (fastforce simp: effective_bypass_nets_def nets_wf_def list_all_iff store_rules_def)
qed

lemma current_engine_direct:
  assumes "mgr_ok U (wb_bypass (mn_web s), fs)" "cf_mode (mn_cfg s) = ModeExclude"
  shows "decide (current_engine s) (Some a) =
    (if manager_match_ip (wb_bypass (mn_web s)) (Some a) \<or> is_server (current_engine s) a then PathDirect else PathTunnel)"
    "excluded (current_engine s) a \<longleftrightarrow>
       manager_match_ip (wb_bypass (mn_web s)) (Some a) \<or> is_server (current_engine s) a"
proof -
  show 1: "excluded (current_engine s) a \<longleftrightarrow>
       manager_match_ip (wb_bypass (mn_web s)) (Some a) \<or> is_server (current_engine s) a"
    using effective_contains [OF assms(1), of a]
    by (auto simp: excluded_def manager_match_ip_def is_server_iff current_engine_def new_engine_with_bypass_def)
  show "decide (current_engine s) (Some a) =
    (if manager_match_ip (wb_bypass (mn_web s)) (Some a) \<or> is_server (current_engine s) a then PathDirect else PathTunnel)"
    unfolding decide_cases 1 using assms(2) by (simp add: current_engine_def new_engine_with_bypass_def)
qed

lemma current_engine_view:
  "mn_cfg s = mn_cfg t \<Longrightarrow> mn_web s = mn_web t \<Longrightarrow> current_engine s = current_engine t"
  by (simp add: current_engine_def)

lemma bypass_op_manager [simp]:
  "mn_web (bypass_op U N F opn s) = mn_web (with_bypass_rules (mgr_step U F opn (wb_bypass (mn_web s), main_files s)) s)"
  by (simp_all add: bypass_op_def on_change_def rebuild_push_def Let_def with_bypass_rules_def split: option.split prod.split)

lemma manager_after:
  assumes "mgr_ok U (wb_bypass (mn_web s), main_files s)" "mgr_op_ok opn"
  shows "mgr_ok U (wb_bypass (mn_web (bypass_op U N F opn s)), main_files (bypass_op U N F opn s))"
proof -
  have "main_files (bypass_op U N F opn s) = snd (mgr_step U F opn (wb_bypass (mn_web s), main_files s))"
    by (simp add: main_files_def with_bypass_rules_def)
  then show ?thesis
    using mgr_step_ok [OF assms, of F] by (simp add: with_bypass_rules_def)
qed


section \<open>Changes that are not pushed\<close>

text \<open>\<open>OnChange\<close> hangs on the resolved networks alone: an operation that leaves them leaves the packet path.\<close>

lemma refresh_quiet:
  assumes "same_nets (mg_resolved m) (fst (resolve_hosts L (domains_to_resolve (st_rules (mg_store m)))))"
  shows "mg_changes (snd (refresh L m)) = mg_changes m"
  using assms by (auto simp: refresh_def Let_def store_rules_def split: prod.split)

lemma quiet_op_view:
  "mg_changes (wb_bypass (mn_web s)) = mg_changes (fst (mgr_step U F opn (wb_bypass (mn_web s), main_files s))) \<Longrightarrow>
     gw_view (bypass_op U N F opn s) = gw_view s"
  by (simp add: bypass_op_def on_change_def) (simp add: with_bypass_rules_def)

lemma address_rule_resolves_nothing:
  "rule_kind r \<notin> {KindDomain, KindSuffix} \<Longrightarrow> domains_to_resolve (rs @ [r]) = domains_to_resolve rs"
  by (simp add: domains_to_resolve_def domains_loop_eq names_hosts_def)

lemma store_add_new:
  assumes "store_add U F raw st fs = (Inr x, st', tr)" "parse_rule U raw = Inr r" "rule_raw r \<notin> set (raws st)"
  shows "st_rules st' = st_rules st @ [r]"
proof -
  have "find (\<lambda>y. rule_raw y = rule_raw r) (st_rules st) = None"
    using assms(3) imageI [of _ "set (st_rules st)" rule_raw] unfolding find_None_iff by (metis set_map)
  then show ?thesis
    using assms(1,2) by (auto simp: store_add_def commit_def split: prod.splits option.splits)
qed

text \<open>Adding a rule for an address: what the manager does, and that it does not say so.\<close>

lemma add_address_rule:
  assumes "in_sync m" "parse_rule U raw = Inr r" "rule_kind r \<in> {KindIP, KindCIDR}"
    and "rule_raw r \<notin> set (raws (mg_store m))" "add_rule U F L raw m fs = (Inr x, m', tr)"
    and "same_nets (mg_resolved m) (fst (resolve_hosts L (domains_to_resolve (st_rules (mg_store m)))))"
  shows "mg_changes m' = mg_changes m \<and> in_sync m' \<and> st_rules (mg_store m') = st_rules (mg_store m) @ [r]"
proof -
  obtain st' where st: "store_add U F raw (mg_store m) fs = (Inr x, st', tr)"
    and m': "m' = snd (refresh L (rebuild_matcher (m\<lparr>mg_store := st'\<rparr>)))"
    using assms(5) by (auto simp: add_rule_def split: prod.splits sum.splits)
  have rules: "st_rules st' = st_rules (mg_store m) @ [r]"
    using store_add_new [OF st assms(2,4)] .
  have "domains_to_resolve (st_rules (mg_store m) @ [r]) = domains_to_resolve (st_rules (mg_store m))"
    using assms(3) by (intro address_rule_resolves_nothing) auto
  then have "mg_changes m' = mg_changes (rebuild_matcher (m\<lparr>mg_store := st'\<rparr>))"
    unfolding m' using assms(6) rules by (intro refresh_quiet) simp
  then show ?thesis
    using m' rules by (simp add: in_sync_def) (simp add: rebuild_matcher_def)
qed

text \<open>
  C32: a rule for an address is not announced. When a rule for an address or network is added and the names
  of the other rules resolve as before, the rule is saved and SOCKS clients reach its addresses directly
  from then on, but the engine, the gateway and the kernel are left exactly as they were: an address that
  the engine sent through the tunnel is still sent through it for redirected connections, until something
  else pushes.
\<close>
theorem address_rule_not_pushed:
  assumes "in_sync (wb_bypass (mn_web s))" "parse_rule U raw = Inr r" "rule_kind r \<in> {KindIP, KindCIDR}"
    and "rule_raw r \<notin> set (raws (mg_store (wb_bypass (mn_web s))))" "covers_ip r a"
    and "fst (add_rule U F L raw (wb_bypass (mn_web s)) (main_files s)) = Inr x"
    and "same_nets (mg_resolved (wb_bypass (mn_web s)))
           (fst (resolve_hosts L (domains_to_resolve (st_rules (mg_store (wb_bypass (mn_web s)))))))"
    and "s' = bypass_op U N F (MAdd L raw) s" "mn_engine s = Some e" "decide e (Some a) = PathTunnel"
    and "\<not> fst (match_ip_detail blk (Some a))"
  shows "socks_via (live_socks U (wb_bypass (mn_web s')) blk) (show_ip a) = via_direct \<and>
    mn_engine s' = mn_engine s \<and> mn_gw s' = mn_gw s \<and> mn_kernel s' = mn_kernel s \<and>
    fst (decide_path (Some (live_decider U (mn_engine s') (wb_bypass (mn_web s')) blk)) (Some a)) = via_tunnel"
proof -
  let ?m = "wb_bypass (mn_web s)"
  obtain m' tr where add: "add_rule U F L raw ?m (main_files s) = (Inr x, m', tr)"
    using assms(6) by (metis prod.collapse)
  note new = add_address_rule [OF assms(1-4) add assms(7)]
  have m': "wb_bypass (mn_web s') = m'" "fst (mgr_step U F (MAdd L raw) (?m, main_files s)) = m'"
    using add by (simp_all add: assms(8) with_bypass_rules_def)
  have view: "gw_view s' = gw_view s"
    unfolding assms(8) using m'(2) new by (intro quiet_op_view) simp
  have "fst (match_ip_detail m' (Some a))"
    using match_ip_detail_iff [of m' a] new assms(5) by auto
  then show ?thesis
    using view_fields [OF view] assms(9-11) unfolding socks_via_live live_decider_def user_and_block.decide_path_spec m'
    by (simp add: path_spec_def)
qed

text \<open>
  The same on SIGHUP: the reload pushes when it sets the static networks, before it reads the rules file;
  reading the file pushes only when a name resolves differently.
\<close>

lemma load_pushes_only_names:
  assumes "manager_load U (read_fs (main_files s)) L (wb_bypass (mn_web s)) = (None, m')"
    and "same_nets (mg_resolved (wb_bypass (mn_web s))) (mg_resolved m')"
  shows "gw_view (bypass_op U N F (MLoad L) s) = gw_view s"
proof (rule quiet_op_view)
  have "mg_changes m' = mg_changes (wb_bypass (mn_web s))"
    using assms by (auto simp: manager_load_def rebuild_matcher_def notify_def refresh_def Let_def split: prod.splits option.splits if_splits)
  then show "mg_changes (wb_bypass (mn_web s)) = mg_changes (fst (mgr_step U F (MLoad L) (wb_bypass (mn_web s), main_files s)))"
    using assms(1) by simp
qed

text \<open>
  A restart of the services that moves the Outline client to another server applies the old engine again:
  the new server is on no list, and in exclude mode the way to it is the tunnel itself.
\<close>

lemma restart_keeps_old_server:
  assumes "\<not> awg_active (mn_web s)" "restart_outline E reread (wb_client (mn_web s)) = (None, c)"
    and "snd (restart_services E reread s) = s'" "oc_server c = Some a"
    and "mn_engine s = Some e" "en_mode e = ModeExclude" "\<not> excluded e a"
  shows "oc_server (wb_client (mn_web s')) = Some a \<and> mn_engine s' = Some e \<and> decide e (Some a) = PathTunnel"
  using assms
  by (auto simp: restart_services_def Let_def apply_once_def set_client_def decide_cases split: option.splits prod.splits)

text \<open>
  A restart while AmneziaWG is the backend and cannot be brought up leaves the switch on it: nothing is
  ready, although Outline may be. The switch of the interface falls back to Outline in this case.
\<close>

lemma restart_keeps_dead_backend:
  assumes "awg_active (mn_web s)" "we_up (me_web E) = Some e" "sw_mux (wb_switch (mn_web s)) = (main_mux True)\<lparr>mx_backend := ''amnezia''\<rparr>"
  shows "fst (restart_services E reread s) = Inl e \<and>
    (let w = mn_web (snd (restart_services E reread s)) in
      backend_of (sw_mux (wb_switch w)) = ''amnezia'' \<and> \<not> mux_ready (sw_mux (wb_switch w)) (live_of w))"
  using assms
  by (auto simp: restart_services_def Let_def set_awg_ready_def mux_ready_def backend_of_def live_of_def main_mux_def new_mux_def set_awg_def
      split: option.split)

text \<open>
  A gateway whose update failed has removed its table and is inactive; from then on no push, no operation
  on the rules and no reload brings it back.
\<close>

lemma inactive_push: "mn_gw s = Some g \<Longrightarrow> \<not> gw_active g \<Longrightarrow>
    (\<exists>g'. mn_gw (rebuild_push N s) = Some g' \<and> \<not> gw_active g') \<and> mn_kernel (rebuild_push N s) = mn_kernel s"
  by (simp add: rebuild_push_def update_engine_def Let_def)

lemma inactive_op:
  assumes "mn_gw s = Some g" "\<not> gw_active g"
  shows "(\<exists>g'. mn_gw (bypass_op U N F opn s) = Some g' \<and> \<not> gw_active g') \<and> mn_kernel (bypass_op U N F opn s) = mn_kernel s"
proof -
  let ?w = "with_bypass_rules (mgr_step U F opn (wb_bypass (mn_web s), main_files s)) s"
  have "mn_gw ?w = Some g" "mn_kernel ?w = mn_kernel s"
    using assms(1) by (simp_all add: with_bypass_rules_def)
  then show ?thesis
    using inactive_push [of ?w g N] assms(2) by (simp add: bypass_op_def on_change_def)
qed

lemma lost_gateway_stays_off:
  assumes "mn_gw s = Some g" "\<not> gw_active g"
  shows "(\<exists>g'. mn_gw (sighup_reload E c s) = Some g' \<and> \<not> gw_active g') \<and> mn_kernel (sighup_reload E c s) = mn_kernel s"
proof (cases c)
  case (Some c')
  let ?U = "we_unicode (me_web E)" and ?N = "me_nft E" and ?L = "we_lookup (me_web E)"
  define s1 where "s1 = s\<lparr>mn_cfg := c', mn_allow := cf_socks_allow c'\<rparr>"
  define s2 where "s2 = s1\<lparr>mn_engine := Some (current_engine s1), mn_gw := Some (new_gateway c' (Some (current_engine s1)))\<rparr>"
  define s3 where "s3 = bypass_op ?U ?N no_faults (MStatic (cf_bypass c')) s2"
  define s4 where "s4 = bypass_op ?U ?N no_faults (MLoad ?L) s3"
  have r: "sighup_reload E c s = block_op ?U no_faults (MLoad ?L) s4"
    using assms by (simp add: Some sighup_reload_def Let_def s1_def s2_def s3_def s4_def)
  have "mn_gw s2 = Some (new_gateway c' (Some (current_engine s1)))" "mn_kernel s2 = mn_kernel s"
    by (simp_all add: s2_def s1_def)
  then obtain g3 where "mn_gw s3 = Some g3" "\<not> gw_active g3" "mn_kernel s3 = mn_kernel s"
    using inactive_op [of s2 "new_gateway c' (Some (current_engine s1))" ?U ?N no_faults "MStatic (cf_bypass c')"]
    by (auto simp: s3_def new_gateway_def)
  then show ?thesis
    using inactive_op [of s3 g3 ?U ?N no_faults "MLoad ?L"] view_fields [OF views(4), of ?U no_faults "MLoad ?L" s4]
    by (auto simp: r s4_def)
qed (use assms in \<open>simp add: sighup_reload_def\<close>)

section \<open>The gateway comes up\<close>

definition accepts :: "nft \<Rightarrow> bool" where
  "accepts N \<longleftrightarrow> nft_deletes N \<and> (\<forall>cmds k. cmds \<noteq> [DeleteTable] \<longrightarrow> N cmds k = None)"

lemma scripts_not_delete: "nft_script c e \<noteq> [DeleteTable]" "patch_script e \<noteq> [DeleteTable]"
  by (simp_all add: nft_script_def Let_def patch_script_def)

lemma full_apply_accepted:
  assumes "accepts N" "gw_engine g = Some e" "0 < cf_trans_port (gw_cfg g)"
  shows "\<exists>g' k'. full_apply N g k = (None, g', k') \<and> gw_active g'"
proof -
  have "build_nft_script (gw_cfg g) (gw_engine g) = Inr (nft_script (gw_cfg g) e)"
    using assms(2,3) by (simp add: build_nft_script_def)
  moreover have "N (nft_script (gw_cfg g) e) k1 = None" for k1
    using assms(1) scripts_not_delete by (simp add: accepts_def)
  ultimately show ?thesis
    by (simp add: full_apply_def run_nft_def Let_def)
qed

lemma apply_accepted:
  assumes "accepts N" "gw_engine g = Some e" "0 < cf_trans_port (gw_cfg g)"
  shows "\<exists>g' k'. apply_locked N g k = (None, g', k') \<and> gw_active g'"
proof (cases "gw_active g")
  case True
  have "N (patch_script e) k = None"
    using assms(1) scripts_not_delete by (simp add: accepts_def)
  then have "\<exists>k'. patch_sets N g k = (None, k')"
    using assms(2) by (simp add: patch_sets_def run_nft_def)
  then show ?thesis
    using True by (auto simp: apply_locked_def)
next
  case False
  then show ?thesis
    using full_apply_accepted [OF assms] by (simp add: apply_locked_def)
qed

definition gateway_loaded :: "main \<Rightarrow> bool" where
  "gateway_loaded s \<longleftrightarrow>
     (\<exists>g e. mn_gw s = Some g \<and> gw_active g \<and> mn_engine s = Some e \<and> mn_kernel s = Some (gateway_table (mn_cfg s) e))"

lemma apply_once_keeps:
  "mn_engine (snd (apply_once N s)) = mn_engine s" "mn_cfg (snd (apply_once N s)) = mn_cfg s"
  "mn_gw (snd (apply_once N s)) = None \<longleftrightarrow> mn_gw s = None"
  by (cases "mn_gw s"; simp add: apply_once_def case_prod_beta)+

lemma apply_once_accepted:
  assumes "accepts N" "gw_sync s" "mn_gw s \<noteq> None" "0 < cf_trans_port (mn_cfg s)"
  shows "fst (apply_once N s) = None \<and> gateway_loaded (snd (apply_once N s))"
proof -
  obtain g0 where g0: "mn_gw s = Some g0"
    using assms(3) by blast
  then have "gw_engine g0 = mn_engine s \<and> mn_engine s \<noteq> None \<and> gw_cfg g0 = mn_cfg s"
    using assms(2) by (simp add: gw_sync_def table_current_def)
  then obtain g e where g: "mn_gw s = Some g" "gw_engine g = Some e" "mn_engine s = Some e" "gw_cfg g = mn_cfg s"
    using g0 by auto
  obtain g' k' where a: "apply_locked N g (mn_kernel s) = (None, g', k')" "gw_active g'"
    using apply_accepted [OF assms(1) g(2), of "mn_kernel s"] g(4) assms(4) by auto
  have "nft_deletes N" using assms(1) by (simp add: accepts_def)
  from apply_current [OF this sync_some' [OF assms(2) g(1)] a(1)]
  show ?thesis
    using g a by (simp add: apply_once_def gateway_loaded_def)
qed

lemma apply_once_reports:
  assumes "nft_deletes N" "gw_sync s" "mn_gw s \<noteq> None" "apply_once N s = (None, s')"
  shows "gateway_loaded s'"
proof -
  obtain g where g: "mn_gw s = Some g"
    using assms(3) by blast
  obtain g' k' where a: "apply_locked N g (mn_kernel s) = (None, g', k')" "s' = s\<lparr>mn_gw := Some g', mn_kernel := k'\<rparr>"
    using assms(4) g by (auto simp: apply_once_def split: prod.splits)
  have "gw_active g'"
    using a(1) by (auto simp: apply_locked_def full_apply_def Let_def split: sum.splits prod.splits option.splits if_splits)
  then show ?thesis
    using apply_current [OF assms(1) sync_some' [OF assms(2) g] a(1)] a(2) assms(2) g
    by (auto simp: gateway_loaded_def gw_sync_def)
qed

lemma retries_delays:
  "apply_retries c Ns d s = (ok, ws, s') \<Longrightarrow> i < length ws \<Longrightarrow> ws ! i = (retry_next c ^^ i) d"
proof (induction c Ns d s arbitrary: ok ws s' i rule: apply_retries.induct)
  case (2 c N Ns d s)
  show ?case
  proof (cases "apply_once N s")
    case (Pair r s1)
    show ?thesis
    proof (cases r)
      case None
      then show ?thesis using 2(2,3) Pair by simp
    next
      case (Some e)
      obtain ok1 ws1 s2 where rest: "apply_retries c Ns (retry_next c d) s1 = (ok1, ws1, s2)"
        by (metis prod_cases3)
      then have ws: "ws = d # ws1"
        using 2(2) Pair Some by simp
      have IH: "j < length ws1 \<Longrightarrow> ws1 ! j = (retry_next c ^^ j) (retry_next c d)" for j
        using 2(1) [OF Pair [symmetric] Some rest] .
      show ?thesis
        using IH 2(3) by (cases i) (simp_all add: ws funpow_swap1)
    qed
  qed
qed simp

lemma retry_positive: "0 < retry_base c" "0 < retry_max c"
  by (auto simp: retry_base_def retry_max_def second_def)

lemma retry_iterates:
  "(retry_next c ^^ i) (retry_base c) = (if i = 0 then retry_base c else min (retry_base c * 2 ^ i) (retry_max c))"
proof (induction i)
  case (Suc i)
  then show ?case
    using retry_positive [of c] by (cases i) (auto simp: retry_next_def min_def algebra_simps)
qed simp

lemma retries_succeed:
  assumes "\<forall>N \<in> set Ns. nft_deletes N" "n < length Ns" "accepts (Ns ! n)"
    and "gw_sync s" "mn_gw s \<noteq> None" "0 < cf_trans_port (mn_cfg s)"
  shows "\<exists>ws s'. apply_retries c Ns d s = (True, ws, s') \<and> length ws \<le> n \<and> gateway_loaded s'"
  using assms
proof (induction Ns arbitrary: n d s)
  case (Cons N Ns)
  have N: "nft_deletes N" using Cons.prems(1) by simp
  show ?case
  proof (cases "apply_once N s")
    case (Pair r s1)
    show ?thesis
    proof (cases r)
      case None
      then show ?thesis
        using apply_once_reports [OF N Cons.prems(4,5)] Pair by simp
    next
      case (Some e)
      then have "n \<noteq> 0"
        using apply_once_accepted [of N s] Cons.prems(4-6) Pair Cons.prems(3) by (cases n) auto
      then obtain m where m: "n = Suc m"
        using not0_implies_Suc by blast
      have "gw_sync s1" "mn_gw s1 \<noteq> None" "0 < cf_trans_port (mn_cfg s1)"
        using apply_once_syncD [OF Pair N Cons.prems(4)] apply_once_keeps [of N s] Pair Cons.prems(5,6) by auto
      then obtain ws s' where "apply_retries c Ns (retry_next c d) s1 = (True, ws, s')" "length ws \<le> m" "gateway_loaded s'"
        using Cons.IH [of m s1 "retry_next c d"] Cons.prems(1-3) m by auto
      then show ?thesis
        using Pair Some m by simp
    qed
  qed
qed simp

text \<open>
  C15: the gateway comes up. In any state of main with a gateway and a valid port: however often nft refuses
  the rules, if some attempt is accepted, the goroutine that applies them ends within that many attempts
  with the gateway active and the kernel holding the table of the current configuration and engine; and the
  waits in between are the base delay, then its double, its fourfold and so on, never above the maximum.
\<close>
theorem gateway_comes_up:
  assumes "main_run s" "mn_gw s \<noteq> None" "0 < cf_trans_port (mn_cfg s)"
    and "nft_deletes (me_nft E)" "\<forall>N \<in> set Ns. nft_deletes N" "n < length Ns" "accepts (Ns ! n)"
  shows "\<exists>ws s'. gateway_goroutine E Ns s = (True, ws, s') \<and> length ws \<le> n \<and>
    (\<exists>g e. mn_gw s' = Some g \<and> gw_active g \<and> mn_engine s' = Some e \<and> mn_kernel s' = Some (gateway_table (mn_cfg s') e)) \<and>
    (\<forall>i < length ws. ws ! i =
       (if i = 0 then retry_base (mn_cfg s) else min (retry_base (mn_cfg s) * 2 ^ i) (retry_max (mn_cfg s))))"
proof -
  let ?s1 = "rebuild_push (me_nft E) s"
  have sync: "gw_sync ?s1" "mn_cfg ?s1 = mn_cfg s"
    using rebuild_push_effect [OF assms(4) main_run_sync [OF assms(1)]] by simp_all
  have "mn_gw ?s1 \<noteq> None"
    using assms(2) by (auto simp: rebuild_push_def Let_def split: option.split prod.split)
  then have "\<exists>ws s'. apply_retries (mn_cfg ?s1) Ns (retry_base (mn_cfg ?s1)) ?s1 = (True, ws, s') \<and>
      length ws \<le> n \<and> gateway_loaded s'"
    using sync(2) assms(3) by (intro retries_succeed [OF assms(5-7) sync(1)]) simp_all
  then obtain ws s' where r: "apply_retries (mn_cfg ?s1) Ns (retry_base (mn_cfg ?s1)) ?s1 = (True, ws, s')"
    "length ws \<le> n" "gateway_loaded s'"
    by blast
  then show ?thesis
    using retries_delays [OF r(1)] sync(2) unfolding gateway_goroutine_def Let_def gateway_loaded_def
    by (auto simp: retry_iterates)
qed

section \<open>Examples\<close>

definition sample_main_env :: main_env where
  "sample_main_env =
     \<lparr>me_web = sample_web_env, me_nft = sample_nft, me_netns = False, me_reconnected = ''ok'',
      me_not_applied = (\<lambda>e. ''nft''), me_reconnect_text = (\<lambda>e. ''outline'')\<rparr>"

definition sample_main_config :: config where
  "sample_main_config = default_config\<lparr>cf_gateway := True, cf_gateway_output := True, cf_ui := True\<rparr>"

definition sample_start :: main where
  "sample_start = main_start sample_main_env sample_main_config sample_client None Map.empty None"

definition sample_main :: main where
  "sample_main = snd (apply_once sample_nft sample_start)"

definition sample_manager :: manager where
  "sample_manager =
     snd (manager_load ascii_tables (read_fs Map.empty) (\<lambda>h. Inl ''no such host'')
       (new_manager (Some (new_store ''/config/bypass.rules.txt'')) []))"

lemma sample_nft_accepts: "accepts sample_nft" "nft_deletes sample_nft"
  by (auto simp: accepts_def nft_deletes_def sample_nft_def)

lemma sample_start_parts:
  "wb_bypass (mn_web sample_start) = sample_manager" "main_files sample_start = Map.empty"
  "mn_cfg sample_start = sample_main_config" "mn_gw sample_start \<noteq> None"
  "mn_engine sample_start =
     Some (new_engine_with_bypass sample_main_config (effective_bypass_nets sample_manager) (main_servers (mn_web sample_start)))"
proof -
  have c: "cf_bypass_file sample_main_config = ''/config/bypass.rules.txt''" "cf_bypass sample_main_config = []"
    "cf_gateway sample_main_config"
    by (simp_all add: sample_main_config_def default_config_def)
  show m: "wb_bypass (mn_web sample_start) = sample_manager" and "main_files sample_start = Map.empty"
    by (simp_all add: sample_start_def main_start_def Let_def block_op_def main_init_def sample_main_env_def sample_web_env_def
        with_bypass_rules_def main_files_def c sample_manager_def)
  show f: "mn_cfg sample_start = sample_main_config" and "mn_gw sample_start \<noteq> None"
    by (simp_all add: sample_start_def main_start_def Let_def c) (simp add: main_init_def)
  show "mn_engine sample_start =
     Some (new_engine_with_bypass sample_main_config (effective_bypass_nets sample_manager) (main_servers (mn_web sample_start)))"
    using m f unfolding sample_start_def main_start_def Let_def by (simp add: current_engine_def)
qed

lemma sample_main_run: "main_run sample_start" "main_run sample_main"
proof -
  show 1: "main_run sample_start"
    unfolding sample_start_def by (rule main_run.start)
  show "main_run sample_main"
    unfolding sample_main_def by (rule main_run.work [OF 1 part_step.attempt [OF sample_nft_accepts(2)]])
qed

lemma sample_main_parts:
  "mn_web sample_main = mn_web sample_start" "mn_cfg sample_main = sample_main_config"
  "mn_engine sample_main = mn_engine sample_start"
  using sample_start_parts(3) by (auto simp: sample_main_def apply_once_def split: option.split prod.split)

lemma sample_main_loaded: "gateway_loaded sample_main"
proof -
  have "0 < cf_trans_port (mn_cfg sample_start)"
    by (simp add: sample_start_parts(3) sample_main_config_def default_config_def)
  then show ?thesis
    using apply_once_accepted [OF sample_nft_accepts(1) main_run_sync [OF sample_main_run(1)] sample_start_parts(4)]
    by (simp add: sample_main_def)
qed

lemma sample_main_manager:
  "mgr_ok ascii_tables (wb_bypass (mn_web sample_main), main_files sample_main)"
  "wb_bypass (mn_web sample_main) = sample_manager" "main_files sample_main = Map.empty"
  "main_servers (mn_web sample_main) = []"
proof -
  show p: "wb_bypass (mn_web sample_main) = sample_manager" "main_files sample_main = Map.empty"
    using sample_start_parts(1,2) by (simp_all add: sample_main_parts main_files_def)
  have "world_ok ascii_tables (new_store ''/config/bypass.rules.txt'', Map.empty)"
    by (simp add: world_ok_def st_ok_def rules_ok_def on_disk_def new_store_def crash_finds_def crash_reads_def reload_def)
  then have "mgr_ok ascii_tables (new_manager (Some (new_store ''/config/bypass.rules.txt'')) [], Map.empty)"
    by (intro new_manager_ok) simp_all
  from manager_load_ok [OF this, of "\<lambda>h. Inl ''no such host''"]
  show "mgr_ok ascii_tables (wb_bypass (mn_web sample_main), main_files sample_main)"
    unfolding p by (simp add: sample_manager_def) (metis prod.collapse)
  have "wb_client (mn_web sample_start) = sample_client" "sw_live (wb_switch (mn_web sample_start)) =
      \<lparr>lv_outline_ready = True, lv_outline_ip = None, lv_awg = None\<rparr>"
    by (simp_all add: sample_start_def main_start_def Let_def block_op_def main_init_def with_bypass_rules_def sample_client_def
        split: prod.split)
  then show "main_servers (mn_web sample_main) = []"
    by (simp add: sample_main_parts main_servers_def tunnel_bypass_ips_def server_ips_from_def sample_client_def)
qed

lemma push_accepted:
  assumes "accepts N" "gw_sync s" "gateway_loaded s" "0 < cf_trans_port (mn_cfg s)"
  shows "gateway_loaded (rebuild_push N s)"
proof -
  obtain g where g: "mn_gw s = Some g" "gw_active g" "gw_cfg g = mn_cfg s"
    using assms(2,3) by (auto simp: gateway_loaded_def gw_sync_def table_current_def)
  obtain g' k' where a: "apply_locked N (g\<lparr>gw_engine := Some (current_engine s)\<rparr>) (mn_kernel s) = (None, g', k')" "gw_active g'"
    using apply_accepted [OF assms(1), of "g\<lparr>gw_engine := Some (current_engine s)\<rparr>" "current_engine s" "mn_kernel s"] g(3) assms(4)
    by auto
  have "nft_deletes N" using assms(1) by (simp add: accepts_def)
  from apply_current [OF this sync_some [OF assms(2) g(1)] a(1)] show ?thesis
    using g a by (simp add: rebuild_push_def update_engine_def gateway_loaded_def)
qed



text \<open>Adding 203.0.113.0/24 by the API's operation: SOCKS clients are served directly, redirected ones tunnelled.\<close>

theorem address_rule_not_pushed_witness:
  "let s' = bypass_op ascii_tables sample_nft no_faults (MAdd (\<lambda>h. Inl ''no such host'') ''203.0.113.0/24'') sample_main
   in socks_via (live_socks ascii_tables (wb_bypass (mn_web s')) (new_manager None [])) (show_ip (IP4 0xCB007105)) = via_direct \<and>
      mn_kernel s' = mn_kernel sample_main \<and>
      fst (decide_path (Some (live_decider ascii_tables (mn_engine s') (wb_bypass (mn_web s')) (new_manager None [])))
        (Some (IP4 0xCB007105))) = via_tunnel"
proof -
  let ?L = "\<lambda>h. Inl ''no such host''" and ?raw = "''203.0.113.0/24''" and ?a = "IP4 0xCB007105"
  let ?s' = "bypass_op ascii_tables sample_nft no_faults (MAdd ?L ?raw) sample_main"
  obtain r where r: "parse_rule ascii_tables ?raw = Inr r" "rule_kind r \<in> {KindIP, KindCIDR}" "covers_ip r ?a"
  proof -
    have "case parse_rule ascii_tables ?raw of Inl e \<Rightarrow> False | Inr r \<Rightarrow> rule_kind r = KindCIDR \<and> covers_ip r ?a" by code_simp
    then show ?thesis using that by (auto split: sum.splits)
  qed
  have rules: "st_rules (mg_store sample_manager) = []" "mg_resolved sample_manager = []" by code_simp+
  have sync: "in_sync sample_manager"
    using sample_main_manager(1,2) by (simp add: mgr_ok_def)
  have "is_ok (fst (add_rule ascii_tables no_faults ?L ?raw sample_manager Map.empty))" by code_simp
  then obtain x where x: "fst (add_rule ascii_tables no_faults ?L ?raw sample_manager Map.empty) = Inr x"
    by (cases "fst (add_rule ascii_tables no_faults ?L ?raw sample_manager Map.empty)") auto
  have same: "same_nets (mg_resolved sample_manager) (fst (resolve_hosts ?L (domains_to_resolve (st_rules (mg_store sample_manager)))))"
    unfolding rules by code_simp
  let ?e = "new_engine_with_bypass sample_main_config (effective_bypass_nets sample_manager) []"
  have e: "mn_engine sample_main = Some ?e"
    using sample_start_parts(5) sample_main_manager(4) by (simp add: sample_main_parts)
  have d: "decide ?e (Some ?a) = PathTunnel" by code_simp
  have b: "\<not> fst (match_ip_detail (new_manager None []) (Some ?a))" by code_simp
  have n: "rule_raw r \<notin> set (raws (mg_store sample_manager))"
    unfolding rules by simp
  note at = address_rule_not_pushed [of sample_main ascii_tables ?raw r, unfolded sample_main_manager(2,3)]
  show ?thesis
    using at [OF sync r(1,2) n r(3) x same refl e d b] unfolding Let_def by blast
qed

theorem gateway_comes_up_witness:
  "\<exists>ws s' g. gateway_goroutine sample_main_env
      [\<lambda>cmds k. if cmds = [DeleteTable] then None else Some ''busy'', sample_nft] sample_start = (True, ws, s') \<and>
     length ws \<le> 1 \<and> mn_gw s' = Some g \<and> gw_active g"
proof -
  let ?busy = "\<lambda>cmds k. if cmds = [DeleteTable] then None else Some ''busy''"
  have "nft_deletes (me_nft sample_main_env)" and p: "0 < cf_trans_port (mn_cfg sample_start)"
    using sample_nft_accepts by (simp_all add: sample_main_env_def sample_start_parts(3) sample_main_config_def default_config_def)
  moreover have "nft_deletes ?busy"
    by (simp add: nft_deletes_def)
  ultimately show ?thesis
    using gateway_comes_up [OF sample_main_run(1) sample_start_parts(4) p, of sample_main_env "[?busy, sample_nft]" 1]
      sample_nft_accepts by auto
qed

end
