(* ===== verification/Ui_Wiring.thy ===== *)
theory Ui_Wiring
  imports Main_Wiring
begin

text \<open>
  The management UI as \<open>run\<close> of \<open>cmd/outline-gate/main.go\<close> puts it together from the configuration, and what
  that makes of the token: from the environment variables through \<open>LoadFromEnv\<close> to the requests the running
  process answers. The other theories take the token of the web server as given; here it is the one of the
  configuration the process was started with, whatever a reload has read since.
\<close>

section \<open>The server main makes\<close>

text \<open>\<open>Status\<close> asks for the configuration of the moment; everything else is that of the start.\<close>

definition ui_server :: "config \<Rightarrow> string \<Rightarrow> config \<Rightarrow> web_env \<Rightarrow> web_env" where
  "ui_server c version now E =
     E\<lparr>we_has_bypass := True, we_has_block := True, we_has_outline := True, we_has_tunnel := True, we_has_log := True,
       we_key_path := cf_key_file c, we_backend_path := cf_backend_file c,
       we_runtime := Some (version, cf_socks_listen now, cf_gateway now, cf_health_listen now),
       we_version := version, we_token := cf_ui_token c\<rparr>"

definition serve_process :: "main_env \<Rightarrow> config \<Rightarrow> string \<Rightarrow> string option \<Rightarrow> string \<Rightarrow> request \<Rightarrow> main \<Rightarrow> reply \<times> main" where
  "serve_process E c version reread uptime r s =
     serve_main (E\<lparr>me_web := ui_server c version (mn_cfg s) (me_web E)\<rparr>) reread uptime r s"

definition guarded_path :: "string \<Rightarrow> bool" where
  "guarded_path p \<longleftrightarrow>
     below ''/api/v1/bypass'' p \<or> below ''/api/v1/block'' p \<or> below ''/api/v1/outline'' p \<or> below ''/api/v1/tunnel'' p \<or>
     below ''/api/v1/connections'' p \<or> p = ''/api/v1/status'' \<or> p = ''/api/v1/restart''"

lemma ui_server_fields [simp]:
  "we_token (ui_server c v n E) = cf_ui_token c" "we_index (ui_server c v n E) = we_index E"
  by (simp_all add: ui_server_def)

lemma has_prefix_longer: "has_prefix s (p @ q) \<Longrightarrow> has_prefix s p"
proof -
  assume "has_prefix s (p @ q)"
  then have "take (length p) (take (length (p @ q)) s) = take (length p) (p @ q)"
    by (simp add: has_prefix_def del: take_take)
  then show ?thesis by (simp add: has_prefix_def)
qed

text \<open>The event stream lies below the connections.\<close>

lemma below_stream: "below ''/api/v1/connections/stream'' p \<Longrightarrow> below ''/api/v1/connections'' p"
  using has_prefix_longer [of p "''/api/v1/connections/''" "''stream/''"]
  by (auto simp: below_def has_prefix_def)

lemma guarded_routes: "guarded_path p \<longleftrightarrow> api_route (ui_server c v n E) R k p \<noteq> None"
  using below_stream by (auto simp: guarded_path_def api_route_def ui_server_def Let_def)

section \<open>The token of a loaded configuration\<close>

text \<open>Blanks around the token are cut off when it is read, and nothing puts any back.\<close>

definition token_trimmed :: "config \<Rightarrow> bool" where
  "token_trimmed c \<longleftrightarrow> trim_space (cf_ui_token c) = cf_ui_token c"

definition keeps_trimmed :: "setting \<Rightarrow> bool" where
  "keeps_trimmed f \<longleftrightarrow> (\<forall>c d. f c = Inr d \<longrightarrow> token_trimmed c \<longrightarrow> token_trimmed d)"

lemma keeps_trimmed_settings:
  "list_all keeps_trimmed ss \<Longrightarrow> keeps_trimmed (apply_settings ss)"
proof (induction ss)
  case (Cons s ss)
  then show ?case
    unfolding keeps_trimmed_def apply_Cons_Inr by auto
qed (simp add: keeps_trimmed_def)

lemma keeps_env:
  "(\<And>v c. cf_ui_token (f v c) = cf_ui_token c) \<Longrightarrow> keeps_trimmed (env_text g name f)"
  "(\<And>v c. cf_ui_token (h v c) = cf_ui_token c) \<Longrightarrow> keeps_trimmed (env_parse p g name h)"
  by (auto simp: keeps_trimmed_def token_trimmed_def env_text_def env_parse_def Let_def split: if_splits option.splits)

lemma keeps_env_token: "keeps_trimmed (env_text g name (\<lambda>v c. c\<lparr>cf_ui_token := v\<rparr>))"
  by (auto simp: keeps_trimmed_def token_trimmed_def env_text_def Let_def split: if_splits)

lemma default_token_trimmed: "trim_space DefaultUIToken = DefaultUIToken"
  by code_simp

lemma ui_fields [simp]:
  "cf_ui_token (dns_part c) = cf_ui_token c" "cf_ui (dns_part c) = cf_ui c"
  "cf_ui_token (set_iface c) = cf_ui_token c" "cf_ui (set_iface c) = cf_ui c"
  by (simp_all add: set_iface_def dns_part_def dns_defaults_def Let_def)

lemma validate_ui: "validate U c = (None, d) \<Longrightarrow> cf_ui_token d = cf_ui_token c \<and> cf_ui d = cf_ui c"
  by (auto simp: validate_alt)

lemma keeps_late:
  "keeps_trimmed (set_vpn_uri fs)" "keeps_trimmed (set_backend U g fs)" "keeps_trimmed set_trans_port"
  "keeps_trimmed set_token" "keeps_trimmed (check_config U)"
  "(\<And>v c. cf_ui_token (f v c) = cf_ui_token c) \<Longrightarrow> keeps_trimmed (set_nets g fs a b f)"
  by (auto simp: keeps_trimmed_def token_trimmed_def set_vpn_uri_def set_backend_def set_trans_port_def set_token_def
      check_config_def set_nets_def default_token_trimmed Let_def dest: validate_ui
      split: if_splits option.splits sum.splits prod.splits)

lemma keeps_load: "keeps_trimmed (apply_settings (load_settings U fl g fs))"
  by (rule keeps_trimmed_settings)
    (simp add: load_settings_def env_settings_def late_settings_def keeps_env keeps_env_token keeps_late)

lemma loaded_token:
  assumes "load_from_env U fl F g fs = (Inr c, fs')"
  shows "trim_space (cf_ui_token c) = cf_ui_token c" "cf_ui c \<Longrightarrow> cf_ui_token c \<noteq> []"
proof -
  obtain key gs where a: "apply_settings (load_settings U fl g gs) (default_config\<lparr>cf_key := key\<rparr>) = Inr c"
    using assms by (auto simp: load_from_env_def split: prod.splits sum.splits)
  have "token_trimmed (default_config\<lparr>cf_key := key\<rparr>)"
    by (simp add: token_trimmed_def default_config_def)
  with a keeps_load show t: "trim_space (cf_ui_token c) = cf_ui_token c"
    unfolding keeps_trimmed_def token_trimmed_def by blast
  assume "cf_ui c"
  then show "cf_ui_token c \<noteq> []"
    using loaded_config [OF assms] by (auto simp: config_ok_def)
qed

section \<open>The running process\<close>

text \<open>What the process does never switches the UI, and leaves no call of a handler pending.\<close>

definition ui_state :: "main \<Rightarrow> bool \<times> web_effect list \<times> switch_effect list" where
  "ui_state s = (mn_ui s, wb_effects (mn_web s), sw_effects (wb_switch (mn_web s)))"

lemma ui_state_ops [simp]:
  "ui_state (rebuild_push N s) = ui_state s" "ui_state (set_client c s) = ui_state s"
  "ui_state (set_awg_ready b s) = ui_state s" "ui_state (block_op U F opn s) = ui_state s"
  "ui_state (recorded U now e s) = ui_state s" "ui_state (on_unready E s) = ui_state s"
  "ui_state (with_bypass_rules mf s) = ui_state s" "ui_state (snd (apply_once N s)) = ui_state s"
  "ui_state (s\<lparr>mn_host := h\<rparr>) = ui_state s" "ui_state (s\<lparr>mn_cfg := d\<rparr>) = ui_state s"
  "ui_state (s\<lparr>mn_allow := ns\<rparr>) = ui_state s" "ui_state (s\<lparr>mn_engine := eng\<rparr>) = ui_state s"
  "ui_state (s\<lparr>mn_gw := gw\<rparr>) = ui_state s"
  by (simp_all add: ui_state_def rebuild_push_def set_client_def set_awg_ready_def block_op_def recorded_def
      on_unready_def with_bypass_rules_def apply_once_def Let_def split: option.split prod.split)

lemma ui_state_bypass [simp]: "ui_state (bypass_op U N F opn s) = ui_state s"
  by (simp add: bypass_op_def on_change_def)

lemma ui_state_ready [simp]: "ui_state (outline_ready N b s) = ui_state s"
  by (simp add: outline_ready_def)

lemma ui_state_reload [simp]: "ui_state (sighup_reload E d s) = ui_state s"
  by (simp add: sighup_reload_def Let_def split: option.split)

lemma ui_state_applied: "apply_once N s = (r, t) \<Longrightarrow> ui_state t = ui_state s"
  using ui_state_ops(8) [of N s] by simp

lemma ui_state_restart [simp]: "ui_state (snd (restart_services E reread s)) = ui_state s"
  unfolding restart_services_def Let_def
  by (auto dest!: ui_state_applied split: option.split prod.split)

definition quiet_main :: "bool \<Rightarrow> main \<Rightarrow> bool" where
  "quiet_main ui s \<longleftrightarrow> ui_state s = (ui, [], [])"

lemma quiet_settle: "mn_ui s = ui \<Longrightarrow> quiet_main ui (settle E s w)"
  by (simp add: settle_def Let_def quiet_main_def) (simp add: ui_state_def quiet_web_def)

lemma quiet_serve: "quiet_main ui s \<Longrightarrow> quiet_main ui (snd (serve_main E reread uptime r s))"
proof -
  assume q: "quiet_main ui s"
  then have "mn_ui s = ui" by (simp add: quiet_main_def ui_state_def)
  from quiet_settle [OF this] q show ?thesis
    by (auto simp: serve_main_def Let_def quiet_main_def split: prod.split)
qed

lemma quiet_step: "part_step p s t \<Longrightarrow> quiet_main ui s \<Longrightarrow> quiet_main ui t"
proof (induction rule: part_step.induct)
  case (request E s reread uptime r)
  then show ?case by (rule_tac quiet_serve)
qed (simp_all add: quiet_main_def)

lemma quiet_start: "quiet_main (cf_ui c) (main_start E c cl awg fs k)"
  by (simp add: quiet_main_def main_start_def Let_def) (simp add: ui_state_def main_init_def)

lemma quiet_reached:
  assumes "(\<lambda>s t. \<exists>p. part_step p s t)\<^sup>*\<^sup>* (main_start E c cl awg fs k) s"
  shows "quiet_main (cf_ui c) s"
  using assms by (induction rule: rtranclp_induct) (auto simp: quiet_start intro: quiet_step)

lemma quiet_settle_same:
  assumes "quiet_main ui s"
  shows "quiet_web (mn_web s) = mn_web s" "settle E s (mn_web s) = s"
proof -
  show "quiet_web (mn_web s) = mn_web s"
    using assms by (simp add: quiet_main_def ui_state_def quiet_web_def)
  with assms show "settle E s (mn_web s) = s"
    by (simp add: settle_def Let_def quiet_main_def ui_state_def)
qed

text \<open>A request the web server answers without changing anything changes nothing of the process.\<close>

lemma serve_main_same:
  assumes "quiet_main True s" "rq_path r \<noteq> ''/metrics''"
    and "\<And>R. P (fst (serve_web (me_web E) (Some R) True (main_health s) r (mn_web s))) \<and>
      snd (serve_web (me_web E) (Some R) True (main_health s) r (mn_web s)) = mn_web s"
  shows "P (fst (serve_main E reread uptime r s)) \<and> snd (serve_main E reread uptime r s) = s"
proof -
  have ui: "mn_ui s" "wb_effects (mn_web s) = []"
    using assms(1) by (simp_all add: quiet_main_def ui_state_def)
  define again where "again = restart_services E reread s"
  define R where "R = (\<lambda>w::web. (fst again, (quiet_web (mn_web (snd again)))\<lparr>wb_effects := [Restarted]\<rparr>))"
  obtain x w where x: "serve_web (me_web E) (Some R) True (main_health s) r (mn_web s) = (x, w)"
    by (metis prod.exhaust)
  with assms(3) [of R] have "P x" "w = mn_web s" by simp_all
  with x ui assms(2) show ?thesis
    by (simp add: serve_main_def Let_def quiet_settle_same [OF assms(1)] flip: again_def R_def)
qed

lemma ui_off:
  assumes "quiet_main False s" "rq_path r \<noteq> ''/metrics''"
  shows "serve_process E c v reread up r s = (health_mux (main_health s) (rq_path r), s)"
  using assms by (simp add: serve_process_def serve_main_def Let_def health_mux_def quiet_main_def ui_state_def)

lemma ui_refuses:
  assumes "quiet_main True s" "rq_path r \<noteq> ''/metrics''" "\<not> check_token r (cf_ui_token c) True"
  shows "(guarded_path (rq_path r) \<longrightarrow> ry_status (fst (serve_process E c v reread up r s)) = 401) \<and>
    snd (serve_process E c v reread up r s) = s"
proof -
  let ?W = "ui_server c v (mn_cfg s) (me_web E)"
  have "refused ?W r"
    using assms(3) by (simp add: refused_def)
  from refused_changes_nothing [OF this]
  have "(guarded_path (rq_path r) \<longrightarrow> ry_status (fst (serve_web ?W (Some R) True (main_health s) r (mn_web s))) = 401) \<and>
      snd (serve_web ?W (Some R) True (main_health s) r (mn_web s)) = mn_web s" for R
    using guarded_routes by blast
  then show ?thesis
    unfolding serve_process_def using assms(1,2)
    by (intro serve_main_same [where P = "\<lambda>x. guarded_path (rq_path r) \<longrightarrow> ry_status x = 401"]) simp_all
qed

lemma ui_page:
  assumes "quiet_main True s" "we_index (me_web E) = Some page" "rq_method r = ''GET''" "rq_path r = ''/ui/''"
  shows "serve_process E c v reread up r s = (plain 200 (inject_ui_token page (cf_ui_token c)), s)"
proof -
  let ?W = "ui_server c v (mn_cfg s) (me_web E)" and ?x = "plain 200 (inject_ui_token page (cf_ui_token c))"
  have "serve_web ?W (Some R) True (main_health s) r (mn_web s) = (?x, mn_web s)" for R
    using page_served [of ?W page r] assms(2-4) by simp
  then have "fst (serve_process E c v reread up r s) = ?x \<and> snd (serve_process E c v reread up r s) = s"
    unfolding serve_process_def using assms(1,4)
    by (intro serve_main_same [where P = "\<lambda>x. x = ?x"]) simp_all
  then show ?thesis by (metis prod.collapse)
qed

text \<open>
  C9: the API is exactly as open as the page, from the environment variables to the running process. Whatever
  the environment and the files were, and whatever requests, refreshes, dials, reloads and attempts have
  happened since the start: with the UI off there is no API and no page. With it on, a request that does not
  carry the token of the configuration changes nothing, and every path of the API except the version answers
  it 401. But anyone who asks for /ui/ gets the page, with a literal that reads as this token and cannot end
  its script element, and a request with the token so read is accepted.
\<close>
theorem ui_as_open_as_its_page:
  assumes load: "load_from_env U fl F g fs = (Inr c, fs')"
    and run: "(\<lambda>s t. \<exists>p. part_step p s t)\<^sup>*\<^sup>* (main_start E0 c cl awg fs0 k) s"
    and path: "rq_path r \<noteq> ''/metrics''"
  shows "(\<not> cf_ui c \<longrightarrow> serve_process E c v reread up r s = (health_mux (main_health s) (rq_path r), s)) \<and>
    (cf_ui c \<and> \<not> check_token r (cf_ui_token c) True \<longrightarrow>
       (guarded_path (rq_path r) \<longrightarrow> ry_status (fst (serve_process E c v reread up r s)) = 401) \<and>
       snd (serve_process E c v reread up r s) = s) \<and>
    (cf_ui c \<and> rq_method r = ''GET'' \<and> rq_path r = ''/ui/'' \<and> we_index (me_web E) = Some page \<and>
       to_valid (cf_ui_token c) = cf_ui_token c \<longrightarrow>
       (\<exists>pre post lit. page = pre @ post \<and>
          serve_process E c v reread up r s =
            (plain 200 (pre @ ''<script>window.__OG_UI_TOKEN__='' @ lit @ '';</script>'' @ post), s) \<and>
          js_string lit = Some (cf_ui_token c) \<and> CHR ''<'' \<notin> set lit \<and> cf_ui_token c \<noteq> [] \<and>
          check_token (r'\<lparr>rq_auth := ''Bearer '' @ the (js_string lit)\<rparr>) (cf_ui_token c) q))"
proof (intro conjI impI; (elim conjE)?)
  note quiet = quiet_reached [OF run]
  show "serve_process E c v reread up r s = (health_mux (main_health s) (rq_path r), s)" if "\<not> cf_ui c"
    using ui_off [of s, OF _ path] quiet that by simp
  show "ry_status (fst (serve_process E c v reread up r s)) = 401"
    if "cf_ui c" "\<not> check_token r (cf_ui_token c) True" "guarded_path (rq_path r)"
    using ui_refuses [of s, OF _ path that(2)] quiet that by simp
  show "snd (serve_process E c v reread up r s) = s" if "cf_ui c" "\<not> check_token r (cf_ui_token c) True"
    using ui_refuses [of s, OF _ path that(2)] quiet that by simp
  assume ui: "cf_ui c" and r: "rq_method r = ''GET''" "rq_path r = ''/ui/''"
    and page: "we_index (me_web E) = Some page" and valid: "to_valid (cf_ui_token c) = cf_ui_token c"
  obtain pre post where split: "page = pre @ post"
    "inject_ui_token page (cf_ui_token c) =
       pre @ ''<script>window.__OG_UI_TOKEN__='' @ json_quote (cf_ui_token c) @ '';</script>'' @ post"
    using token_inserted by blast
  have "serve_process E c v reread up r s = (plain 200 (inject_ui_token page (cf_ui_token c)), s)"
    using ui_page quiet ui page r by simp
  with split token_literal [OF valid loaded_token(1) [OF load]] loaded_token(2) [OF load ui]
  show "\<exists>pre post lit. page = pre @ post \<and>
      serve_process E c v reread up r s =
        (plain 200 (pre @ ''<script>window.__OG_UI_TOKEN__='' @ lit @ '';</script>'' @ post), s) \<and>
      js_string lit = Some (cf_ui_token c) \<and> CHR ''<'' \<notin> set lit \<and> cf_ui_token c \<noteq> [] \<and>
      check_token (r'\<lparr>rq_auth := ''Bearer '' @ the (js_string lit)\<rparr>) (cf_ui_token c) q"
    by (intro exI [of _ pre] exI [of _ post] exI [of _ "json_quote (cf_ui_token c)"] conjI) simp_all
qed

section \<open>Example\<close>

text \<open>An environment that turns the UI on and sets no token.\<close>

lemma plain_loaded_ui:
  obtains c fs' where "load_from_env ascii_tables no_float no_faults plain_env Map.empty = (Inr c, fs')"
    "cf_ui c" "cf_ui_token c = DefaultUIToken"
proof -
  obtain c where c: "plain_load = Inr c" using plain_load_ok by (auto simp: is_ok_conv)
  let ?b = "merge_nets default_bypass_cidrs [Net4 0x0A090000 16, Net4 0xCB007107 32]"
  have "check_config ascii_tables (plain_final ?b) = Inr c"
    using c by (simp add: load_from_env_def plain_key load_settings_def apply_settings_append plain_env_part plain_late
        del: apply_settings.simps)
  then have v: "validate ascii_tables (plain_final ?b) = (None, c)"
    by (auto simp: check_config_def split: prod.splits option.splits)
  show ?thesis
    by (rule that [of c "snd (load_from_env ascii_tables no_float no_faults plain_env Map.empty)"])
      (use c validate_ui [OF v] in \<open>simp_all add: plain_final_def prod_eq_iff\<close>)
qed

definition sample_ui_request :: request where
  "sample_ui_request = sample_request\<lparr>rq_method := ''GET'', rq_path := ''/ui/'', rq_auth := []\<rparr>"

theorem ui_as_open_as_its_page_witness:
  "\<exists>c fs' s pre post lit. load_from_env ascii_tables no_float no_faults plain_env Map.empty = (Inr c, fs') \<and>
     s = main_start sample_main_env c sample_client None Map.empty None \<and>
     snd (serve_process sample_main_env c ''v1'' None [] sample_request s) = s \<and>
     ry_status (fst (serve_process sample_main_env c ''v1'' None [] sample_request s)) = 401 \<and>
     serve_process sample_main_env c ''v1'' None [] sample_ui_request s =
       (plain 200 (pre @ ''<script>window.__OG_UI_TOKEN__='' @ lit @ '';</script>'' @ post), s) \<and>
     pre @ post = ''<html><head></head></html>'' \<and> js_string lit = Some ''Passw0rd''"
proof -
  obtain c fs' where c: "load_from_env ascii_tables no_float no_faults plain_env Map.empty = (Inr c, fs')" "cf_ui c"
    and t: "cf_ui_token c = ''Passw0rd''"
    by (rule plain_loaded_ui) (simp add: DefaultUIToken_def)
  define s where "s = main_start sample_main_env c sample_client None Map.empty None"
  have r: "rq_path sample_request \<noteq> ''/metrics''" "guarded_path (rq_path sample_request)"
    "rq_path sample_ui_request \<noteq> ''/metrics''" "rq_method sample_ui_request = ''GET''" "rq_path sample_ui_request = ''/ui/''"
    by (simp_all add: sample_request_def sample_ui_request_def guarded_path_def below_def)
  have wrong: "\<not> check_token sample_request (cf_ui_token c) True"
    unfolding t by code_simp
  have page: "we_index (me_web sample_main_env) = Some ''<html><head></head></html>''"
    by (simp add: sample_main_env_def sample_web_env_def)
  have valid: "to_valid (cf_ui_token c) = cf_ui_token c"
    unfolding t by code_simp
  have run: "(\<lambda>s t. \<exists>p. part_step p s t)\<^sup>*\<^sup>* (main_start sample_main_env c sample_client None Map.empty None) s"
    unfolding s_def by (rule rtranclp.rtrancl_refl)
  note claim = ui_as_open_as_its_page [OF c(1) run]
  have refused: "snd (serve_process sample_main_env c ''v1'' None [] sample_request s) = s \<and>
      ry_status (fst (serve_process sample_main_env c ''v1'' None [] sample_request s)) = 401"
    using claim [OF r(1)] c(2) wrong r(2) by blast
  obtain pre post lit where shown: "''<html><head></head></html>'' = pre @ post"
    "serve_process sample_main_env c ''v1'' None [] sample_ui_request s =
       (plain 200 (pre @ ''<script>window.__OG_UI_TOKEN__='' @ lit @ '';</script>'' @ post), s)"
    "js_string lit = Some (cf_ui_token c)"
    using claim [OF r(3), where v = "''v1''" and reread = None and up = "[]" and r' = sample_ui_request and q = False,
      THEN conjunct2, THEN conjunct2, THEN mp, OF conjI [OF c(2) conjI [OF r(4) conjI [OF r(5) conjI [OF page valid]]]]]
    by (elim exE conjE)
  show ?thesis
    by (intro exI conjI) (rule c(1), rule s_def, rule refused [THEN conjunct1], rule refused [THEN conjunct2],
      rule shown(2), rule shown(1) [symmetric], rule shown(3) [unfolded t])
qed

end
