(* ===== verification/Outline_Key.thy ===== *)
theory Outline_Key
  imports Go_Base64 Outline_Client Go_Json
begin

text \<open>
  \<open>internal/outline/ssconf.go\<close> and \<open>ResolveServerIP\<close> of \<open>outline/client.go\<close>: what an access key expands to. A
  dynamic key is fetched from its server and its answer turned into a static key. Parameters (\<open>key_env\<close>):
  \<open>net/url.Parse\<close>, the HTTP exchange, the lookup of names. The result is what the Outline
  client expects of the expansion in its own environment.
\<close>

section \<open>The environment\<close>

text \<open>
  A parsed URL: its scheme, \<open>Host\<close>, \<open>Hostname()\<close>, and its text with the scheme https and no fragment.
\<close>

record key_url =
  ku_scheme :: string
  ku_host :: string
  ku_hostname :: string
  ku_https :: string

record outline_json =
  oj_server :: string
  oj_port :: int
  oj_password :: string
  oj_method :: string
  oj_prefix :: string

record key_env =
  kx_url :: "string \<Rightarrow> string + key_url"
  kx_fetch :: "string \<Rightarrow> string + nat \<times> string"
  kx_lookup :: "string \<Rightarrow> string + ip list"

datatype body_error = EmptyBody | BadJson outcome | ProviderError string | MissingField

datatype expand_error =
    EmptyKey
  | BadKeyUrl string
  | BadKeyScheme string
  | FetchFailed string
  | HttpStatus nat
  | BadBody body_error

section \<open>Query strings\<close>

definition upper_hex :: "nat \<Rightarrow> char" where
  "upper_hex d = char_of (if d < 10 then 48 + d else 55 + d)"

definition unreserved :: "char \<Rightarrow> bool" where
  "unreserved c \<longleftrightarrow> is_digit c \<or> (65 \<le> byte c \<and> byte c \<le> 90) \<or> (97 \<le> byte c \<and> byte c \<le> 122) \<or>
     c = CHR ''-'' \<or> c = CHR ''_'' \<or> c = CHR ''.'' \<or> c = CHR 0x7E"

definition escape_char :: "char \<Rightarrow> string" where
  "escape_char c =
     (if unreserved c then [c] else if c = CHR '' '' then ''+''
      else [CHR 0x25, upper_hex (byte c div 16), upper_hex (byte c mod 16)])"

definition query_escape :: "string \<Rightarrow> string" where
  "query_escape s = concat (map escape_char s)"

section \<open>From the answer to a key\<close>

definition userinfo :: "outline_json \<Rightarrow> string" where
  "userinfo j = b64_encode UrlAlphabet False (oj_method j @ '':'' @ oj_password j)"

definition ss_key :: "outline_json \<Rightarrow> string" where
  "ss_key j =
     ''ss://'' @ userinfo j @ ''@'' @ join_host_port (oj_server j) (show_int (oj_port j)) @
     (if oj_prefix j \<noteq> [] then ''?prefix='' @ query_escape (oj_prefix j) else [])"

text \<open>The answer decoded into an \<open>outlineJSON\<close>, and into the object that some providers send in place of a key.\<close>

definition unmarshal_outline :: "string \<Rightarrow> outline_json \<times> outcome" where
  "unmarshal_outline body =
     (case unmarshal body (IsStruct [(''server'', IsString []), (''server_port'', IsInt 0), (''password'', IsString []),
             (''method'', IsString []), (''prefix'', IsString [])]) of
        (x, out) \<Rightarrow>
          (\<lparr>oj_server = string_at ''server'' x, oj_port = int_at ''server_port'' x, oj_password = string_at ''password'' x,
            oj_method = string_at ''method'' x, oj_prefix = string_at ''prefix'' x\<rparr>, out))"

definition provider_message :: "string \<Rightarrow> string" where
  "provider_message body =
     (case unmarshal body (IsStruct [(''error'', IsStruct [(''message'', IsString [])]), (''message'', IsString [])]) of
        (x, out) \<Rightarrow>
          if out \<noteq> DecodeOk then []
          else let inner = trim_space (string_at ''message'' (struct_at ''error'' x)) in
            if inner = [] then trim_space (string_at ''message'' x) else inner)"

definition parse_dynamic_body :: "string \<Rightarrow> body_error + string" where
  "parse_dynamic_body body =
     (if body = [] then Inl EmptyBody
      else if has_prefix body ''ss://'' then Inr (trim_space body)
      else case unmarshal_outline body of
        (j, out) \<Rightarrow>
          if out \<noteq> DecodeOk then Inl (BadJson out)
          else if oj_server j = [] \<or> oj_port j \<le> 0 \<or> oj_method j = [] \<or> oj_password j = [] then
            (if provider_message body \<noteq> [] then Inl (ProviderError (provider_message body)) else Inl MissingField)
          else Inr (ss_key j))"

definition max_body :: nat where
  "max_body = 2 ^ 20"

definition expand_dynamic :: "key_env \<Rightarrow> string \<Rightarrow> expand_error + string" where
  "expand_dynamic K key =
     (case kx_url K (trim_space key) of
        Inl e \<Rightarrow> Inl (BadKeyUrl e)
      | Inr u \<Rightarrow>
          if ku_scheme u \<noteq> ''ssconf'' then Inl (BadKeyScheme (ku_scheme u))
          else case kx_fetch K (ku_https u) of
            Inl e \<Rightarrow> Inl (FetchFailed e)
          | Inr (status, full) \<Rightarrow>
              if status \<noteq> 200 then Inl (HttpStatus status)
              else case parse_dynamic_body (trim_space (take max_body full)) of
                Inl e \<Rightarrow> Inl (BadBody e)
              | Inr s \<Rightarrow> Inr s)"

section \<open>Expanding a key\<close>

fun expand_parts :: "key_env \<Rightarrow> string list \<Rightarrow> expand_error + string list" where
  "expand_parts K [] = Inr []"
| "expand_parts K (p # ps) =
     (case (if is_dynamic_key (trim_space p) then expand_dynamic K (trim_space p) else Inr p) of
        Inl e \<Rightarrow> Inl e
      | Inr q \<Rightarrow> (case expand_parts K ps of Inl e \<Rightarrow> Inl e | Inr qs \<Rightarrow> Inr (q # qs)))"

definition expand_access_key :: "key_env \<Rightarrow> string \<Rightarrow> expand_error + string" where
  "expand_access_key K key0 =
     (let key = trim_space key0 in
      if key = [] then Inl EmptyKey
      else if CHR 0x7C \<in> set key then
        (case expand_parts K (split_on CHR 0x7C key) of Inl e \<Rightarrow> Inl e | Inr ps \<Rightarrow> Inr (join [CHR 0x7C] ps))
      else if is_dynamic_key key then expand_dynamic K key
      else Inr key)"

definition access_key_endpoint :: "key_env \<Rightarrow> string \<Rightarrow> string" where
  "access_key_endpoint K key0 =
     (let key = trim_space key0 in
      if key = [] then [] else case kx_url K key of Inl e \<Rightarrow> [] | Inr u \<Rightarrow> ku_host u)"

section \<open>The server of a key\<close>

datatype server_error =
    NoKey | MultiPart | BadServerUrl string | NoScheme string | NoHost | LookupFailed string | NoAddress

fun first_v4 :: "ip list \<Rightarrow> ip option" where
  "first_v4 [] = None"
| "first_v4 (a # as) = (case to4 a of Some v4 \<Rightarrow> Some (IP4 v4) | None \<Rightarrow> first_v4 as)"

definition resolve_server_ip :: "key_env \<Rightarrow> string \<Rightarrow> server_error + ip" where
  "resolve_server_ip K key0 =
     (let key = trim_space key0 in
      if key = [] then Inl NoKey
      else if CHR 0x7C \<in> set key then Inl MultiPart
      else case kx_url K key of
        Inl e \<Rightarrow> Inl (BadServerUrl e)
      | Inr u \<Rightarrow>
          if ku_scheme u \<noteq> ''ss'' \<and> ku_scheme u \<noteq> ''ssconf'' \<and> ku_hostname u = [] then Inl (NoScheme (ku_scheme u))
          else if ku_hostname u = [] then Inl NoHost
          else case parse_ip (ku_hostname u) of
            Some a \<Rightarrow> Inr (norm4 a)
          | None \<Rightarrow>
              (case kx_lookup K (ku_hostname u) of
                 Inl e \<Rightarrow> Inl (LookupFailed e)
               | Inr as \<Rightarrow>
                   (case first_v4 as of
                      Some a \<Rightarrow> Inr a
                    | None \<Rightarrow> if as \<noteq> [] then Inr (hd as) else Inl NoAddress)))"

text \<open>The environment the Outline client runs in: its expansion and its server address come from here.\<close>

definition client_env ::
  "key_env \<Rightarrow> (expand_error \<Rightarrow> string) \<Rightarrow> (string \<Rightarrow> string option) \<Rightarrow> (string \<Rightarrow> string \<Rightarrow> dial_error option) \<Rightarrow> outline_env" where
  "client_env K show_error new_dialer dial =
     \<lparr>ox_expand = (\<lambda>k. case expand_access_key K k of Inl e \<Rightarrow> Inl (show_error e) | Inr s \<Rightarrow> Inr s),
      ox_new_dialer = new_dialer,
      ox_server_ip = (\<lambda>k. case resolve_server_ip K k of Inl e \<Rightarrow> None | Inr a \<Rightarrow> Some a),
      ox_dial = dial\<rparr>"

section \<open>Reading a key back\<close>

text \<open>
  The form of a static key that the Outline SDK reads (SIP002): userinfo in the URL alphabet without
  padding, the address of the server, an escaped prefix. This reader is the specification.
\<close>

fun query_unescape :: "string \<Rightarrow> string option" where
  "query_unescape [] = Some []"
| "query_unescape (c # s) =
     (if c = CHR 0x25 then
        (case s of
           h # l # t \<Rightarrow>
             if is_hex h \<and> is_hex l then map_option (Cons (char_of (hexs_val [h, l]))) (query_unescape t) else None
         | _ \<Rightarrow> None)
      else map_option (Cons (if c = CHR ''+'' then CHR '' '' else c)) (query_unescape s))"

definition read_ss_key :: "string \<Rightarrow> outline_json option" where
  "read_ss_key s =
     (if \<not> has_prefix s ''ss://'' then None
      else
        (let rest = drop 5 s;
             (main, query) = (case cut rest CHR ''?'' of None \<Rightarrow> (rest, []) | Some mq \<Rightarrow> mq)
         in case cut main CHR ''@'' of
              None \<Rightarrow> None
            | Some (user, hostport) \<Rightarrow>
                (case (b64_decode UrlAlphabet False user, split_host_port hostport) of
                   (Some mp, Inr (host, port)) \<Rightarrow>
                     (case (cut mp CHR '':'', atoi port,
                          if query = [] then Some [] else query_unescape (trim_prefix query ''prefix='')) of
                        (Some (method, password), Some n, Some pre) \<Rightarrow>
                          Some \<lparr>oj_server = host, oj_port = n, oj_password = password, oj_method = method, oj_prefix = pre\<rparr>
                      | _ \<Rightarrow> None)
                 | _ \<Rightarrow> None)))"

section \<open>Round trip\<close>

lemma upper_hex_props:
  assumes "d < 16"
  shows "is_hex (upper_hex d) \<and> hex_val (upper_hex d) = d \<and> is_graph (upper_hex d) \<and> upper_hex d \<noteq> CHR 0x7C"
proof -
  have "byte (upper_hex d) = (if d < 10 then 48 + d else 55 + d)"
    using assms by (simp add: upper_hex_def byte_char_of)
  moreover have "byte (CHR 0x7C) = 124"
    by (simp add: byte_def)
  ultimately show ?thesis
    using assms by (auto simp: is_hex_def hex_val_def is_digit_def is_graph_def split: if_splits)
qed

lemma escape_back: "query_unescape (escape_char c @ s) = map_option (Cons c) (query_unescape s)"
proof -
  have b: "char_of (byte c) = c" by (simp add: byte_def)
  have h: "hexs_val [upper_hex (byte c div 16), upper_hex (byte c mod 16)] = byte c"
    using upper_hex_props [of "byte c div 16"] upper_hex_props [of "byte c mod 16"] byte_div(1) [of c]
    by (simp add: hexs_val_def)
  have "\<not> unreserved (CHR 0x25)" "\<not> unreserved (CHR ''+'')"
    by (simp_all add: unreserved_def is_digit_def byte_def)
  then show ?thesis
    using b h upper_hex_props [of "byte c div 16"] upper_hex_props [of "byte c mod 16"] byte_div(1) [of c]
    by (auto simp: escape_char_def)
qed

lemma query_roundtrip: "query_unescape (query_escape s) = Some s"
  by (induction s) (simp_all add: query_escape_def escape_back)

lemma escape_graph: "c \<in> set (query_escape s) \<Longrightarrow> is_graph c \<and> c \<noteq> CHR 0x7C"
proof -
  have "is_graph d \<and> d \<noteq> CHR 0x7C" if "d \<in> set (escape_char e)" for d e
    using that upper_hex_props [of "byte e div 16"] upper_hex_props [of "byte e mod 16"] byte_div(1) [of e]
    by (auto simp: escape_char_def unreserved_def is_digit_def is_graph_def byte_def split: if_splits)
  then show "c \<in> set (query_escape s) \<Longrightarrow> is_graph c \<and> c \<noteq> CHR 0x7C"
    by (auto simp: query_escape_def)
qed

text \<open>The base64 characters are none of those that structure a key.\<close>

lemma b64_url_plain:
  "c \<in> b64_set UrlAlphabet \<Longrightarrow> is_graph c \<and> c \<notin> {CHR ''@'', CHR ''?'', CHR 0x7C}"
  by (auto simp: b64_set_def b64_val_def is_graph_def is_digit_def byte_def split: if_splits)

lemma userinfo_plain: "c \<in> set (userinfo j) \<Longrightarrow> is_graph c \<and> c \<notin> {CHR ''@'', CHR ''?'', CHR 0x7C}"
  using b64_encode_set [of UrlAlphabet False "oj_method j @ '':'' @ oj_password j"] b64_url_plain
  by (auto simp: userinfo_def)

lemma atoi_port:
  assumes "0 < n" "n < 2 ^ 63"
  shows "atoi (show_int n) = Some n"
proof -
  have "hd (show_nat (nat n)) \<noteq> CHR ''-''" "hd (show_nat (nat n)) \<noteq> CHR ''+''"
    using show_nat_set [of "hd (show_nat (nat n))" "nat n"] hd_in_set [of "show_nat (nat n)"]
    by (auto simp: is_digit_def byte_def)
  then have "\<not> has_prefix (show_nat (nat n)) ''-''" "\<not> has_prefix (show_nat (nat n)) ''+''"
    by (cases "show_nat (nat n)"; simp add: has_prefix_def)+
  moreover have "read_nat (show_nat (nat n)) = Some (nat n)"
    by (simp add: read_nat_def show_nat_digits digits_val_show_nat)
  ultimately show ?thesis
    using assms by (simp add: atoi_def show_int_def)
qed

text \<open>What the provider must not put into a name for the key to be readable at all.\<close>

definition plain_server :: "string \<Rightarrow> bool" where
  "plain_server h \<longleftrightarrow> h \<noteq> [] \<and> list_all (\<lambda>c. is_graph c \<and> c \<notin> {CHR ''@'', CHR ''?'', CHR 0x7C, CHR ''['', CHR '']''}) h"

lemma hostport_plain:
  assumes "plain_server h" "c \<in> set (join_host_port h (show_int n))" "0 < n"
  shows "is_graph c \<and> c \<notin> {CHR ''@'', CHR ''?'', CHR 0x7C}"
proof -
  have "is_digit c \<Longrightarrow> is_graph c \<and> c \<notin> {CHR ''@'', CHR ''?'', CHR 0x7C}"
    by (auto simp: is_digit_def is_graph_def byte_def)
  moreover have "is_graph d \<and> d \<notin> {CHR ''@'', CHR ''?'', CHR 0x7C}" if "d \<in> {CHR ''['', CHR '']'', CHR '':''}" for d
    using that by (auto simp: is_graph_def byte_def)
  ultimately show ?thesis
    using assms show_nat_set [of c "nat n"]
    by (auto simp: join_host_port_def plain_server_def list_all_iff show_int_def split: if_splits)
qed

lemma hostport_back:
  assumes "plain_server h" "0 < n"
  shows "split_host_port (join_host_port h (show_int n)) = Inr (h, show_int n)"
proof -
  have "\<not> is_digit c \<Longrightarrow> c \<notin> set (show_int n)" for c
    using assms(2) show_nat_set by (auto simp: show_int_def)
  then show ?thesis
    using assms(1) by (intro split_join_host_port) (auto simp: plain_server_def list_all_iff is_digit_def byte_def)
qed

lemma cut_miss: "c \<notin> set s \<Longrightarrow> cut s c = None"
  by simp

lemma read_ss_key_back:
  assumes "plain_server (oj_server j)" "0 < oj_port j" "oj_port j < 2 ^ 63" "CHR '':'' \<notin> set (oj_method j)"
  shows "read_ss_key (ss_key j) = Some j"
proof -
  let ?hp = "join_host_port (oj_server j) (show_int (oj_port j))"
  let ?main = "userinfo j @ ''@'' @ ?hp" and ?q = "query_escape (oj_prefix j)"
  have u: "CHR ''@'' \<notin> set (userinfo j)" "CHR ''?'' \<notin> set (userinfo j)"
    using userinfo_plain by blast+
  have h: "CHR ''?'' \<notin> set ?hp"
    using hostport_plain [OF assms(1) _ assms(2)] by blast
  have m: "cut ?main CHR ''@'' = Some (userinfo j, ?hp)"
    using cut_hit [OF u(1), of ?hp] by simp
  have d: "b64_decode UrlAlphabet False (userinfo j) = Some (oj_method j @ '':'' @ oj_password j)"
    by (simp add: userinfo_def)
  have c: "cut (oj_method j @ '':'' @ oj_password j) CHR '':'' = Some (oj_method j, oj_password j)"
    using cut_hit [OF assms(4), of "oj_password j"] by simp
  note parts = m d c hostport_back [OF assms(1,2)] atoi_port [OF assms(2,3)]
  show ?thesis
  proof (cases "oj_prefix j = []")
    case True
    then have "ss_key j = ''ss://'' @ ?main"
      by (simp add: ss_key_def)
    then show ?thesis
      using True u(2) h parts by (simp add: read_ss_key_def has_prefix_def Let_def cut_miss)
  next
    case False
    then have "ss_key j = ''ss://'' @ ?main @ ''?'' @ ''prefix='' @ ?q"
      by (simp add: ss_key_def)
    moreover have "cut (?main @ ''?'' @ ''prefix='' @ ?q) CHR ''?'' = Some (?main, ''prefix='' @ ?q)"
      using cut_hit [of "CHR ''?''" ?main "''prefix='' @ ?q"] u(2) h by simp
    moreover have "query_unescape (trim_prefix (''prefix='' @ ?q) ''prefix='') = Some (oj_prefix j)"
      using query_roundtrip by (simp add: trim_prefix_def has_prefix_def)
    ultimately show ?thesis
      using parts by (simp add: read_ss_key_def has_prefix_def Let_def)
  qed
qed

lemma ss_key_graph:
  assumes "plain_server (oj_server j)" "0 < oj_port j" "c \<in> set (ss_key j)"
  shows "is_graph c \<and> c \<noteq> CHR 0x7C"
proof -
  have "is_graph d \<and> d \<noteq> CHR 0x7C" if "d \<in> set ''ss://'' \<union> set ''@'' \<union> set ''?prefix=''" for d
    using that by (auto simp: is_graph_def byte_def)
  then show ?thesis
    using assms(3) userinfo_plain [of c j] hostport_plain [OF assms(1) _ assms(2), of c] escape_graph [of c "oj_prefix j"]
    by (auto simp: ss_key_def split: if_splits)
qed

lemma has_prefix_ss [simp]: "has_prefix (ss_key j) ''ss://''"
  by (simp add: ss_key_def has_prefix_def)

lemma no_prefix_Nil [simp]: "\<not> has_prefix [] ''ss://''"
  by (simp add: has_prefix_def)

lemma ss_not_dynamic:
  assumes "has_prefix s ''ss://''" "trim_space s = s"
  shows "\<not> is_dynamic_key s"
proof -
  obtain t where "s = ''ss://'' @ t"
    using assms(1) by (metis append_take_drop_id has_prefix_def)
  then show ?thesis
    using assms(2) by (simp add: is_dynamic_key_def has_prefix_def)
qed

lemma ss_key_trim:
  assumes "plain_server (oj_server j)" "0 < oj_port j"
  shows "trim_space (ss_key j) = ss_key j"
proof -
  have ne: "ss_key j \<noteq> []"
    by (simp add: ss_key_def)
  then show ?thesis
    using ss_key_graph [OF assms, of "hd (ss_key j)"] ss_key_graph [OF assms, of "last (ss_key j)"]
    by (intro trim_space_graph) simp_all
qed

text \<open>A static key expands to itself.\<close>

lemma expand_static:
  "has_prefix s ''ss://'' \<Longrightarrow> trim_space s = s \<Longrightarrow> CHR 0x7C \<notin> set s \<Longrightarrow> expand_access_key K s = Inr s"
  using ss_not_dynamic [of s] by (auto simp: expand_access_key_def Let_def has_prefix_def)

lemma expand_single:
  "is_dynamic_key key \<Longrightarrow> CHR 0x7C \<notin> set key \<Longrightarrow> trim_space key = key \<Longrightarrow>
     expand_access_key K key = expand_dynamic K key"
  by (auto simp: expand_access_key_def Let_def is_dynamic_key_def has_prefix_def)

text \<open>
  C28: what the provider configured is what the client dials. When a dynamic key is answered with a complete
  JSON object, it expands to a static key that reads back as exactly that object - server, port, method,
  password with any bytes, and prefix with any bytes - and the static key expands to itself, so it can be
  stored and used in place of the dynamic one.
\<close>
theorem dynamic_key_roundtrip:
  assumes "is_dynamic_key key" "trim_space key = key" "CHR 0x7C \<notin> set key"
    and "kx_url K key = Inr u" "ku_scheme u = ''ssconf''" "kx_fetch K (ku_https u) = Inr (200, full)"
    and "body = trim_space (take max_body full)" "body \<noteq> []" "\<not> has_prefix body ''ss://''" "unmarshal_outline body = (j, DecodeOk)"
    and "plain_server (oj_server j)" "0 < oj_port j" "oj_port j < 2 ^ 63"
    and "oj_method j \<noteq> []" "CHR '':'' \<notin> set (oj_method j)" "oj_password j \<noteq> []"
  shows "\<exists>s. expand_access_key K key = Inr s \<and> read_ss_key s = Some j \<and> expand_access_key K s = Inr s"
proof -
  have "oj_server j \<noteq> []"
    using assms(11) by (simp add: plain_server_def)
  then have "expand_dynamic K key = Inr (ss_key j)"
    using assms(2,4-10,12,14,16) by (simp add: expand_dynamic_def parse_dynamic_body_def)
  then have "expand_access_key K key = Inr (ss_key j)"
    using expand_single [OF assms(1,3,2)] by simp
  moreover have "expand_access_key K (ss_key j) = Inr (ss_key j)"
    using ss_key_trim [OF assms(11,12)] ss_key_graph [OF assms(11,12)] by (intro expand_static) auto
  ultimately show ?thesis
    using read_ss_key_back [OF assms(11-13,15)] by blast
qed


section \<open>Examples\<close>

definition sample_json :: outline_json where
  "sample_json =
     \<lparr>oj_server = ''2001:db8::1'', oj_port = 8388, oj_password = ''a:b@c?/+'', oj_method = ''chacha20-ietf-poly1305'',
      oj_prefix = map char_of [22, 3, 1, 0, 0xC2, 168, 1, 1 :: nat]\<rparr>"

text \<open>An answer with other fields, other letter case and escapes.\<close>

definition sample_answer :: string where
  "sample_answer =
     (let q = [CHR 0x22]; b = [CHR 0x5C] in
      ''{'' @ q @ ''Server'' @ q @ '' : '' @ q @ ''2001:db8::1'' @ q @ '', '' @ q @ ''server_port'' @ q @ '':8388,'' @
      q @ ''password'' @ q @ '':'' @ q @ ''a:b@c?'' @ b @ ''/+'' @ q @ '','' @ q @ ''method'' @ q @ '':'' @
      q @ ''chacha20-ietf-poly1305'' @ q @ '','' @ q @ ''tags'' @ q @ '':[null,{}],'' @ q @ ''prefix'' @ q @ '':'' @
      q @ b @ ''u0016'' @ b @ ''u0003'' @ b @ ''u0001'' @ b @ ''u0000'' @ b @ ''u00a8'' @ b @ ''u0001'' @ b @ ''u0001'' @ q @ ''}'')"

lemma sample_answer_reads:
  "unmarshal_outline sample_answer = (sample_json, DecodeOk)" "trim_space sample_answer = sample_answer"
  "sample_answer \<noteq> []" "\<not> has_prefix sample_answer ''ss://''" "length sample_answer < 200"
  by code_simp+

definition sample_key_env :: key_env where
  "sample_key_env =
     \<lparr>kx_url = (\<lambda>k. Inr \<lparr>ku_scheme = ''ssconf'', ku_host = ''keys.example'', ku_hostname = ''keys.example'',
        ku_https = ''https://keys.example/k''\<rparr>),
      kx_fetch = (\<lambda>u. if u = ''https://keys.example/k'' then Inr (200, sample_answer) else Inr (404, [])),
      kx_lookup = (\<lambda>h. Inl ''no such host'')\<rparr>"

theorem dynamic_key_roundtrip_witness:
  "\<exists>s. expand_access_key sample_key_env ''ssconf://keys.example/k'' = Inr s \<and> read_ss_key s = Some sample_json"
proof -
  let ?key = "''ssconf://keys.example/k''"
  let ?u = "\<lparr>ku_scheme = ''ssconf'', ku_host = ''keys.example'', ku_hostname = ''keys.example'',
        ku_https = ''https://keys.example/k''\<rparr>"
  have key: "is_dynamic_key ?key" "trim_space ?key = ?key" "CHR 0x7C \<notin> set ?key"
    by code_simp+
  have e: "kx_url sample_key_env ?key = Inr ?u" "ku_scheme ?u = ''ssconf''"
    "kx_fetch sample_key_env (ku_https ?u) = Inr (200, sample_answer)"
    by (simp_all add: sample_key_env_def)
  have "take max_body sample_answer = sample_answer"
    by (rule take_all) (use sample_answer_reads(5) in \<open>simp add: max_body_def\<close>)
  then have b: "sample_answer = trim_space (take max_body sample_answer)"
    by (simp add: sample_answer_reads)
  have j: "plain_server (oj_server sample_json)" "0 < oj_port sample_json" "oj_port sample_json < 2 ^ 63"
    "oj_method sample_json \<noteq> []" "CHR '':'' \<notin> set (oj_method sample_json)" "oj_password sample_json \<noteq> []"
    by code_simp+
  show ?thesis
    using dynamic_key_roundtrip [OF key e(1-3) b sample_answer_reads(3,4,1) j] by blast
qed


text \<open>The whole client on such a key: it is ready with the static key, and hands it to be stored.\<close>

lemma connect_dynamic:
  assumes "expand_access_key K (oc_key c) = Inr s" "has_prefix s ''ss://''" "new_dialer s = None"
  shows "fst (connect (client_env K show_error new_dialer dial) c) = None \<and>
    oc_ready (snd (connect (client_env K show_error new_dialer dial) c)) \<and>
    oc_dialer (snd (connect (client_env K show_error new_dialer dial) c)) = Some s \<and>
    last (oc_events (snd (connect (client_env K show_error new_dialer dial) c))) = OnExpanded s"
  using assms by (simp add: connect_def client_env_def apply_expanded_def emit_def)

end
