(* ===== verification/Proxy_Serving.thy ===== *)
theory Proxy_Serving
  imports Socks5_Proxy
begin

text \<open>
  What the SOCKS and the transparent proxy share around their handlers (\<open>internal/proxy/socks5.go\<close>,
  \<open>transparent.go\<close>): the relay that copies between client and remote until both directions have ended, and
  the loop of \<open>ListenAndServe\<close> that accepts connections, waits for their handlers and returns. Both are state
  machines: an event has a guard and an effect, a run is a sequence of events in any order the guards allow.
\<close>

section \<open>Connections\<close>

text \<open>
  The dynamic types a \<open>net.Conn\<close> has here: a kernel TCP connection, the stream of the Outline SDK, and
  \<open>prefixConn\<close>, which embeds the interface \<open>net.Conn\<close>. Embedding promotes the methods of the interface only.
\<close>

datatype conn_type = TcpConn | SdkStream | PrefixConn conn_type

fun closes_write :: "conn_type \<Rightarrow> bool" where
  "closes_write TcpConn = True"
| "closes_write SdkStream = True"
| "closes_write (PrefixConn c) = False"

text \<open>\<open>prefixConn\<close> reads through the buffer of the handshake: its bytes come before those of the socket.\<close>

definition prefix_read :: "nat \<Rightarrow> string \<times> string \<Rightarrow> string \<times> (string \<times> string)" where
  "prefix_read n b =
     (case b of (buffered, socket) \<Rightarrow>
        if buffered = [] then (take n socket, ([], drop n socket)) else (take n buffered, (drop n buffered, socket)))"

lemma prefix_read_in_order: "fst (prefix_read n b) @ (case snd (prefix_read n b) of (u, v) \<Rightarrow> u @ v) = fst b @ snd b"
  by (simp add: prefix_read_def split: prod.split)

section \<open>The relay\<close>

text \<open>
  One direction of the relay: what its source sent so far and whether it has ended its side, what has arrived
  and is not read, what was written to the destination, whether the copy is running, and whether the
  destination sees the end of the stream.
\<close>

datatype side = ToRemote | ToClient

fun opposite :: "side \<Rightarrow> side" where
  "opposite ToRemote = ToClient"
| "opposite ToClient = ToRemote"

record pipe =
  pp_sent :: string
  pp_ended :: bool
  pp_wire :: string
  pp_out :: string
  pp_copying :: bool
  pp_fin :: bool

record relay_state =
  rl_pipe :: "side \<Rightarrow> pipe"
  rl_dst :: "side \<Rightarrow> conn_type"
  rl_returned :: bool

definition fresh_pipe :: "string \<Rightarrow> pipe" where
  "fresh_pipe early =
     \<lparr>pp_sent = early, pp_ended = False, pp_wire = early, pp_out = [], pp_copying = True, pp_fin = False\<rparr>"

text \<open>\<open>early\<close> are the bytes the client sent after its request, which the handshake has buffered.\<close>

definition relay :: "conn_type \<Rightarrow> conn_type \<Rightarrow> string \<Rightarrow> relay_state" where
  "relay client remote early =
     \<lparr>rl_pipe = (\<lambda>d. case d of ToRemote \<Rightarrow> fresh_pipe early | ToClient \<Rightarrow> fresh_pipe []),
      rl_dst = (\<lambda>d. case d of ToRemote \<Rightarrow> remote | ToClient \<Rightarrow> client), rl_returned = False\<rparr>"

text \<open>The relays of the two SOCKS handlers and of the transparent proxy.\<close>

definition socks_relay :: "conn_type \<Rightarrow> string \<Rightarrow> relay_state" where
  "socks_relay remote early = relay (PrefixConn TcpConn) remote early"

definition transparent_relay :: "conn_type \<Rightarrow> relay_state" where
  "transparent_relay remote = relay TcpConn remote []"

datatype relay_event =
    Sends side string
  | Ends side
  | Copies side nat
  | CopyEnds side
  | CopyBreaks side
  | Returns

definition on_pipe :: "side \<Rightarrow> (pipe \<Rightarrow> pipe) \<Rightarrow> relay_state \<Rightarrow> relay_state" where
  "on_pipe d f s = s\<lparr>rl_pipe := (rl_pipe s)(d := f (rl_pipe s d))\<rparr>"

text \<open>\<open>copyFn\<close> after \<open>io.Copy\<close>, for whatever reason it ended.\<close>

definition copy_over :: "side \<Rightarrow> relay_state \<Rightarrow> relay_state" where
  "copy_over d s = on_pipe d (\<lambda>p. p\<lparr>pp_copying := False, pp_fin := closes_write (rl_dst s d)\<rparr>) s"

fun relay_can :: "relay_event \<Rightarrow> relay_state \<Rightarrow> bool" where
  "relay_can (Sends d bs) s \<longleftrightarrow> bs \<noteq> [] \<and> \<not> pp_ended (rl_pipe s d) \<and> \<not> rl_returned s"
| "relay_can (Ends d) s \<longleftrightarrow> \<not> pp_ended (rl_pipe s d) \<and> \<not> rl_returned s"
| "relay_can (Copies d n) s \<longleftrightarrow> pp_copying (rl_pipe s d) \<and> 0 < n \<and> n \<le> length (pp_wire (rl_pipe s d))"
| "relay_can (CopyEnds d) s \<longleftrightarrow> pp_copying (rl_pipe s d) \<and> pp_wire (rl_pipe s d) = [] \<and> pp_ended (rl_pipe s d)"
| "relay_can (CopyBreaks d) s \<longleftrightarrow> pp_copying (rl_pipe s d)"
| "relay_can Returns s \<longleftrightarrow>
     \<not> rl_returned s \<and> \<not> pp_copying (rl_pipe s ToRemote) \<and> \<not> pp_copying (rl_pipe s ToClient)"

text \<open>Once \<open>relay\<close> has returned the handlers close both connections.\<close>

fun relay_do :: "relay_event \<Rightarrow> relay_state \<Rightarrow> relay_state" where
  "relay_do (Sends d bs) s = on_pipe d (\<lambda>p. p\<lparr>pp_sent := pp_sent p @ bs, pp_wire := pp_wire p @ bs\<rparr>) s"
| "relay_do (Ends d) s = on_pipe d (\<lambda>p. p\<lparr>pp_ended := True\<rparr>) s"
| "relay_do (Copies d n) s = on_pipe d (\<lambda>p. p\<lparr>pp_out := pp_out p @ take n (pp_wire p), pp_wire := drop n (pp_wire p)\<rparr>) s"
| "relay_do (CopyEnds d) s = copy_over d s"
| "relay_do (CopyBreaks d) s = copy_over d s"
| "relay_do Returns s = s\<lparr>rl_pipe := (\<lambda>d. (rl_pipe s d)\<lparr>pp_fin := True\<rparr>), rl_returned := True\<rparr>"

text \<open>Runs under an assumption on the events: which may happen in which state.\<close>

inductive relay_run :: "(relay_state \<Rightarrow> relay_event \<Rightarrow> bool) \<Rightarrow> relay_state \<Rightarrow> relay_event list \<Rightarrow> relay_state \<Rightarrow> bool" for A where
  none: "relay_run A s [] s"
| event: "relay_can e s \<Longrightarrow> A s e \<Longrightarrow> relay_run A (relay_do e s) es t \<Longrightarrow> relay_run A s (e # es) t"

text \<open>No read or write fails.\<close>

definition unbroken :: "relay_state \<Rightarrow> relay_event \<Rightarrow> bool" where
  "unbroken s e \<longleftrightarrow> (\<forall>d. e \<noteq> CopyBreaks d)"

text \<open>
  A peer that answers: it may send and end its side as it likes; one that waits ends its side only after it has
  seen the end of the other one's, as a client does that reads a reply up to its end.
\<close>

definition client_waits :: "relay_state \<Rightarrow> relay_event \<Rightarrow> bool" where
  "client_waits s e \<longleftrightarrow> unbroken s e \<and> (e = Ends ToRemote \<longrightarrow> pp_fin (rl_pipe s ToClient))"

text \<open>Both sides have stopped sending, and each ends its side once it has seen the end of the other.\<close>

definition winding_down :: "relay_state \<Rightarrow> relay_event \<Rightarrow> bool" where
  "winding_down s e \<longleftrightarrow> unbroken s e \<and> (\<forall>d bs. e \<noteq> Sends d bs) \<and> (\<forall>d. e = Ends d \<longrightarrow> pp_fin (rl_pipe s (opposite d)))"

inductive_cases relay_run_Nil [elim!]: "relay_run A s [] t"
inductive_cases relay_run_Cons [elim!]: "relay_run A s (e # es) t"

lemma on_pipe_same [simp]: "rl_pipe (on_pipe d f s) d = f (rl_pipe s d)"
  by (simp add: on_pipe_def)

lemma on_pipe_other: "d \<noteq> d' \<Longrightarrow> rl_pipe (on_pipe d f s) d' = rl_pipe s d'"
  by (simp add: on_pipe_def)

lemma on_pipe_fields [simp]: "rl_dst (on_pipe d f s) = rl_dst s" "rl_returned (on_pipe d f s) = rl_returned s"
  by (simp_all add: on_pipe_def)

lemma copy_over_simps [simp]:
  "rl_pipe (copy_over d s) d = (rl_pipe s d)\<lparr>pp_copying := False, pp_fin := closes_write (rl_dst s d)\<rparr>"
  "rl_dst (copy_over d s) = rl_dst s" "rl_returned (copy_over d s) = rl_returned s"
  by (simp_all add: copy_over_def)

lemma copy_over_other: "d \<noteq> d' \<Longrightarrow> rl_pipe (copy_over d s) d' = rl_pipe s d'"
  by (simp add: copy_over_def on_pipe_other)

lemma relay_dst_kept [simp]: "rl_dst (relay_do e s) = rl_dst s"
  by (cases e) simp_all

lemma relay_run_invariant:
  assumes "relay_run A s es t" "I s"
    and "\<And>s e. I s \<Longrightarrow> relay_can e s \<Longrightarrow> A s e \<Longrightarrow> I (relay_do e s)"
  shows "I t"
  using assms(1,2) by (induction rule: relay_run.induct) (auto intro: assms(3))

section \<open>What a relay delivers\<close>

fun sent_by :: "side \<Rightarrow> relay_event list \<Rightarrow> string" where
  "sent_by d [] = []"
| "sent_by d (Sends d' bs # es) = (if d = d' then bs else []) @ sent_by d es"
| "sent_by d (e # es) = sent_by d es"

definition no_loss :: "relay_state \<Rightarrow> bool" where
  "no_loss s \<longleftrightarrow> (\<forall>d. pp_sent (rl_pipe s d) = pp_out (rl_pipe s d) @ pp_wire (rl_pipe s d))"

lemma no_loss_step: "no_loss s \<Longrightarrow> no_loss (relay_do e s)"
proof (cases e)
  case (Sends d bs)
  then show "no_loss s \<Longrightarrow> ?thesis" by (auto simp: no_loss_def on_pipe_def)
qed (auto simp: no_loss_def on_pipe_def copy_over_def)

lemma no_loss_run: "relay_run A s es t \<Longrightarrow> no_loss s \<Longrightarrow> no_loss t"
  by (erule relay_run_invariant [where I = no_loss]) (simp_all add: no_loss_step)

lemma sent_by_run: "relay_run A s es t \<Longrightarrow> pp_sent (rl_pipe t d) = pp_sent (rl_pipe s d) @ sent_by d es"
proof (induction rule: relay_run.induct)
  case (event e s es t)
  then show ?case by (cases e) (auto simp: on_pipe_def copy_over_def)
qed simp

text \<open>Without faults a copy ends only when everything was written and its source had ended.\<close>

definition pipe_done :: "relay_state \<Rightarrow> side \<Rightarrow> bool" where
  "pipe_done s d \<longleftrightarrow>
     (let p = rl_pipe s d in
      if pp_copying p then \<not> pp_fin p \<and> \<not> rl_returned s
      else pp_wire p = [] \<and> pp_ended p \<and> pp_fin p = (closes_write (rl_dst s d) \<or> rl_returned s))"

definition relay_ok :: "relay_state \<Rightarrow> bool" where
  "relay_ok s \<longleftrightarrow> no_loss s \<and> (\<forall>d. pipe_done s d)"

lemma relay_ok_start: "relay_ok (relay client remote early)"
  by (auto simp: relay_ok_def no_loss_def pipe_done_def relay_def fresh_pipe_def split: side.split)

lemma pipe_done_step:
  assumes "\<forall>d. pipe_done s d" "relay_can e s" "unbroken s e"
  shows "pipe_done (relay_do e s) d"
proof -
  have other: "pipe_done (on_pipe d' f s) d" if "d' \<noteq> d" for d' f
    using assms(1) that by (simp add: pipe_done_def Let_def on_pipe_other)
  show ?thesis
  proof (cases e)
    case (Sends d' bs)
    then show ?thesis using assms other by (cases "d' = d") (auto simp: pipe_done_def Let_def split: if_splits)
  next
    case (Ends d')
    then show ?thesis using assms other by (cases "d' = d") (auto simp: pipe_done_def Let_def split: if_splits)
  next
    case (Copies d' n)
    then show ?thesis using assms other by (cases "d' = d") (auto simp: pipe_done_def Let_def split: if_splits)
  next
    case (CopyEnds d')
    have "\<not> rl_returned s"
      using assms(1,2) CopyEnds by (auto simp: pipe_done_def Let_def split: if_splits)
    then show ?thesis using assms(2) other CopyEnds by (cases "d' = d") (auto simp: pipe_done_def copy_over_def)
  next
    case (CopyBreaks d')
    then show ?thesis using assms(3) by (simp add: unbroken_def)
  next
    case Returns
    have "\<not> pp_copying (rl_pipe s d)"
      using assms(2) Returns by (cases d) simp_all
    then show ?thesis using assms(1) Returns by (auto simp: pipe_done_def Let_def)
  qed
qed

lemma relay_ok_run:
  assumes "relay_run A s es t" "relay_ok s" "\<And>s e. A s e \<Longrightarrow> unbroken s e"
  shows "relay_ok t"
  using assms(1,2)
  by (rule relay_run_invariant [where I = relay_ok]) (simp add: relay_ok_def no_loss_step pipe_done_step assms(3))

text \<open>
  C16: the relay carries the bytes of both sides in order. In every run - any interleaving of sends, chunks of any
  size, ends, and copies broken by a failed read or write - what was written in a direction is a prefix of
  the bytes its source sent, the buffered ones of the handshake first, and the rest is still unread. Unless
  a copy breaks, when the relay returns both sides have ended and everything they sent was written.
\<close>
theorem relay_carries_in_order:
  assumes "relay_run A (relay client remote early) es s"
  shows "(case d of ToRemote \<Rightarrow> early | ToClient \<Rightarrow> []) @ sent_by d es =
      pp_out (rl_pipe s d) @ pp_wire (rl_pipe s d) \<and>
    (relay_run unbroken (relay client remote early) es s \<and> rl_returned s \<longrightarrow>
       pp_ended (rl_pipe s d) \<and> pp_wire (rl_pipe s d) = [] \<and> pp_fin (rl_pipe s d))"
proof -
  have "no_loss (relay client remote early)"
    using relay_ok_start by (simp add: relay_ok_def)
  then have "no_loss s"
    using no_loss_run [OF assms] by blast
  moreover have "pp_sent (rl_pipe (relay client remote early) d) = (case d of ToRemote \<Rightarrow> early | ToClient \<Rightarrow> [])"
    by (cases d) (simp_all add: relay_def fresh_pipe_def)
  ultimately have 1: "(case d of ToRemote \<Rightarrow> early | ToClient \<Rightarrow> []) @ sent_by d es =
      pp_out (rl_pipe s d) @ pp_wire (rl_pipe s d)"
    using sent_by_run [OF assms, of d] by (simp add: no_loss_def)
  have 2: "pp_ended (rl_pipe s d) \<and> pp_wire (rl_pipe s d) = [] \<and> pp_fin (rl_pipe s d)"
    if "relay_run unbroken (relay client remote early) es s" "rl_returned s"
  proof -
    have "relay_ok s"
      using relay_ok_run [OF that(1) relay_ok_start] by blast
    then have "pipe_done s d"
      by (simp add: relay_ok_def)
    then show ?thesis
      using that(2) by (auto simp: pipe_done_def Let_def split: if_splits)
  qed
  show ?thesis using 1 2 by blast
qed

section \<open>When a relay ends\<close>

definition pipe_work :: "pipe \<Rightarrow> nat" where
  "pipe_work p = length (pp_wire p) + (if pp_copying p then 1 else 0) + (if pp_ended p then 0 else 1)"

definition relay_work :: "relay_state \<Rightarrow> nat" where
  "relay_work s = pipe_work (rl_pipe s ToRemote) + pipe_work (rl_pipe s ToClient) + (if rl_returned s then 0 else 1)"

lemma work_on_pipe:
  "pipe_work (f (rl_pipe s d)) < pipe_work (rl_pipe s d) \<Longrightarrow> relay_work (on_pipe d f s) < relay_work s"
  by (cases d) (simp_all add: relay_work_def on_pipe_def)

lemma winding_down_works:
  assumes "relay_can e s" "winding_down s e"
  shows "relay_work (relay_do e s) < relay_work s"
proof (cases e)
  case (CopyEnds d)
  then show ?thesis using assms(1) by (auto simp: copy_over_def pipe_work_def intro!: work_on_pipe)
next
  case Returns
  then show ?thesis using assms(1) by (simp add: relay_work_def pipe_work_def)
qed (use assms in \<open>auto simp: winding_down_def unbroken_def pipe_work_def intro!: work_on_pipe\<close>)

lemma winding_down_run_bound: "relay_run winding_down s fs t \<Longrightarrow> length fs + relay_work t \<le> relay_work s"
  by (induction rule: relay_run.induct) (auto dest: winding_down_works)

lemma ended_kept: "pp_ended (rl_pipe s d) \<Longrightarrow> pp_ended (rl_pipe (relay_do e s) d)"
  by (cases e) (auto simp: on_pipe_def copy_over_def)

lemma ended_stays: "relay_run A s es t \<Longrightarrow> pp_ended (rl_pipe s d) \<Longrightarrow> pp_ended (rl_pipe t d)"
  by (erule relay_run_invariant [where I = "\<lambda>s. pp_ended (rl_pipe s d)"]) (simp_all add: ended_kept)

text \<open>What can happen next to a direction that is still copied.\<close>

lemma copying_moves:
  assumes "pp_copying (rl_pipe s d)" "\<not> (\<exists>e. relay_can e s \<and> winding_down s e)" "\<not> rl_returned s"
  shows "\<not> pp_ended (rl_pipe s d) \<and> \<not> pp_fin (rl_pipe s (opposite d))"
proof -
  have "winding_down s (Copies d 1)" "winding_down s (CopyEnds d)"
    by (simp_all add: winding_down_def unbroken_def)
  then have "\<not> relay_can (Copies d 1) s" "\<not> relay_can (CopyEnds d) s"
    using assms(2) by blast+
  then have "pp_wire (rl_pipe s d) = []" "\<not> pp_ended (rl_pipe s d)"
    using assms(1) by (auto simp: Suc_le_eq)
  moreover have "pp_fin (rl_pipe s (opposite d)) \<Longrightarrow> winding_down s (Ends d)"
    by (simp add: winding_down_def unbroken_def)
  ultimately show ?thesis
    using assms(2,3) relay_can.simps(2) by blast
qed

lemma opposite_cases: "d' = d \<or> d' = opposite d"
  by (cases d; cases d') simp_all

lemma winding_down_progress:
  assumes "relay_ok s" "\<And>d. closes_write (rl_dst s d)" "pp_ended (rl_pipe s d0)"
    and stuck: "\<not> (\<exists>e. relay_can e s \<and> winding_down s e)"
  shows "rl_returned s"
proof (rule ccontr)
  assume open_: "\<not> rl_returned s"
  have "winding_down s Returns"
    by (simp add: winding_down_def unbroken_def)
  then have "\<not> relay_can Returns s"
    using stuck by blast
  then obtain d where d: "pp_copying (rl_pipe s d)"
    using open_ by auto
  note move = copying_moves [OF _ stuck open_]
  have "\<not> pp_copying (rl_pipe s (opposite d))"
    using move [OF d] move [of "opposite d"] opposite_cases [of d0 d] assms(3) by auto
  then have "pp_fin (rl_pipe s (opposite d))"
    using assms(1,2) by (auto simp: relay_ok_def pipe_done_def Let_def split: if_splits)
  then show False
    using move [OF d] by blast
qed

text \<open>
  C20: a relay whose connections can be half-closed winds down. From any state reached without a fault in which
  one side has ended, when both stop sending and each ends its side once it has seen the end of the other,
  every run has at most as many events as there are unread bytes, running copies and open sides, and one that
  cannot continue has returned, with every byte written to the other side.
\<close>
theorem relay_winds_down:
  assumes "relay_run unbroken (relay client remote early) es s" "closes_write client" "closes_write remote"
    and "pp_ended (rl_pipe s d)" "relay_run winding_down s fs t"
  shows "length fs \<le> relay_work s \<and>
    ((\<exists>e. relay_can e t \<and> winding_down t e) \<or>
     rl_returned t \<and> (\<forall>d. pp_out (rl_pipe t d) = pp_sent (rl_pipe t d)))"
proof -
  have ok: "relay_ok t"
    using relay_ok_run [OF assms(1) relay_ok_start] relay_ok_run [OF assms(5)]
    by (auto simp: winding_down_def)
  have kept: "rl_dst t = rl_dst s" "rl_dst s = rl_dst (relay client remote early)"
    using relay_run_invariant [OF assms(5), of "\<lambda>x. rl_dst x = rl_dst s"]
      relay_run_invariant [OF assms(1), of "\<lambda>x. rl_dst x = rl_dst (relay client remote early)"] by auto
  then have closes: "closes_write (rl_dst t d)" for d
    using assms(2,3) by (simp add: relay_def split: side.split)
  have "rl_returned t" if "\<not> (\<exists>e. relay_can e t \<and> winding_down t e)"
    using winding_down_progress [OF ok closes ended_stays [OF assms(5,4)] that] .
  moreover have "pp_out (rl_pipe t d) = pp_sent (rl_pipe t d)" if "rl_returned t" for d
    using ok that by (auto simp: relay_ok_def no_loss_def pipe_done_def Let_def split: if_splits)
  ultimately show ?thesis
    using winding_down_run_bound [OF assms(5)] by (auto simp: add_leD1)
qed

text \<open>
  The connection of a SOCKS or HTTP CONNECT client is a \<open>prefixConn\<close>, which cannot be half-closed: the end of
  the remote's stream is not passed on. A client that reads the reply to its end before it closes - as an
  HTTP/1.0 client does - waits for ever, and so does the relay, with both connections open.
\<close>
theorem socks_relay_keeps_waiting_client:
  assumes "relay_run client_waits (socks_relay remote early) es s"
  shows "\<not> rl_returned s \<and> \<not> pp_fin (rl_pipe s ToClient) \<and> pp_copying (rl_pipe s ToRemote)"
proof -
  let ?I = "\<lambda>s. \<not> rl_returned s \<and> \<not> pp_fin (rl_pipe s ToClient) \<and> pp_copying (rl_pipe s ToRemote) \<and>
    \<not> pp_ended (rl_pipe s ToRemote) \<and> rl_dst s ToClient = PrefixConn TcpConn"
  have "?I s"
    using assms
  proof (rule relay_run_invariant)
    show "?I (socks_relay remote early)"
      by (simp add: socks_relay_def relay_def fresh_pipe_def)
    show "?I (relay_do e s)" if "?I s" "relay_can e s" "client_waits s e" for s e
      using that by (cases e) (auto simp: client_waits_def unbroken_def on_pipe_def copy_over_def)
  qed
  then show ?thesis by blast
qed

section \<open>Concrete runs\<close>

fun may_run :: "(relay_state \<Rightarrow> relay_event \<Rightarrow> bool) \<Rightarrow> relay_state \<Rightarrow> relay_event list \<Rightarrow> bool" where
  "may_run A s [] \<longleftrightarrow> True"
| "may_run A s (e # es) \<longleftrightarrow> relay_can e s \<and> A s e \<and> may_run A (relay_do e s) es"

lemma relay_run_iff: "relay_run A s es t \<longleftrightarrow> may_run A s es \<and> t = fold relay_do es s"
  by (induction es arbitrary: s) (auto intro: relay_run.intros)

lemmas run_now = relay_run_iff socks_relay_def transparent_relay_def relay_def fresh_pipe_def copy_over_def on_pipe_def
  unbroken_def client_waits_def winding_down_def

text \<open>A request, the whole reply, and the end of the server's stream.\<close>

definition reply_then_end :: "relay_event list" where
  "reply_then_end =
     [Copies ToRemote 3, Sends ToClient ''reply'', Ends ToClient, Copies ToClient 2, Copies ToClient 3, CopyEnds ToClient]"

theorem relay_carries_in_order_witness:
  "\<exists>s. relay_run unbroken (relay TcpConn TcpConn ''GET'') (reply_then_end @ [Ends ToRemote, CopyEnds ToRemote, Returns]) s \<and>
     rl_returned s \<and> pp_out (rl_pipe s ToClient) = ''reply'' \<and> pp_out (rl_pipe s ToRemote) = ''GET''"
proof -
  let ?es = "reply_then_end @ [Ends ToRemote, CopyEnds ToRemote, Returns]"
  let ?s = "fold relay_do ?es (relay TcpConn TcpConn ''GET'')"
  have run: "relay_run unbroken (relay TcpConn TcpConn ''GET'') ?es ?s" "rl_returned ?s"
    by (simp_all add: run_now reply_then_end_def)
  then have "pp_out (rl_pipe ?s d) = (case d of ToRemote \<Rightarrow> ''GET'' | ToClient \<Rightarrow> []) @ sent_by d ?es" for d
    using relay_carries_in_order [OF run(1), of d] by auto
  from this [of ToClient] this [of ToRemote] run show ?thesis
    by (intro exI [of _ ?s]) (simp add: reply_then_end_def)
qed

theorem relay_winds_down_witness:
  "\<exists>s. relay_run unbroken (transparent_relay SdkStream) [Sends ToClient ''ab'', Ends ToClient] s \<and> relay_work s = 6 \<and>
     (\<forall>fs t. relay_run winding_down s fs t \<longrightarrow> length fs \<le> 6)"
proof -
  let ?es = "[Sends ToClient ''ab'', Ends ToClient]"
  let ?s = "fold relay_do ?es (relay TcpConn SdkStream [])"
  have run: "relay_run unbroken (relay TcpConn SdkStream []) ?es ?s" "pp_ended (rl_pipe ?s ToClient)"
    by (simp_all add: run_now)
  have w: "relay_work ?s = 6"
    by (simp add: run_now relay_work_def pipe_work_def)
  have "length fs \<le> 6" if "relay_run winding_down ?s fs t" for fs t
    using relay_winds_down [OF run(1) _ _ run(2) that] w by simp
  then show ?thesis
    using run(1) w by (intro exI [of _ ?s]) (simp add: transparent_relay_def)
qed

text \<open>The same events end the relay of the transparent proxy, and never that of the SOCKS proxy.\<close>

theorem socks_relay_keeps_waiting_client_witness:
  "\<exists>s. relay_run client_waits (socks_relay TcpConn ''GET'') reply_then_end s \<and> pp_out (rl_pipe s ToClient) = ''reply'' \<and>
     \<not> pp_fin (rl_pipe s ToClient) \<and> pp_copying (rl_pipe s ToRemote) \<and>
   (\<exists>t. relay_run client_waits (relay TcpConn TcpConn ''GET'') (reply_then_end @ [Ends ToRemote, CopyEnds ToRemote, Returns]) t)"
proof -
  let ?s = "fold relay_do reply_then_end (socks_relay TcpConn ''GET'')"
  have run: "relay_run client_waits (socks_relay TcpConn ''GET'') reply_then_end ?s"
    by (simp add: run_now reply_then_end_def)
  moreover have "pp_out (rl_pipe ?s ToClient) = ''reply''"
    by (simp add: run_now reply_then_end_def)
  moreover have "\<exists>t. relay_run client_waits (relay TcpConn TcpConn ''GET'')
      (reply_then_end @ [Ends ToRemote, CopyEnds ToRemote, Returns]) t"
    by (simp add: run_now reply_then_end_def)
  ultimately show ?thesis
    using socks_relay_keeps_waiting_client [OF run] by blast
qed

section \<open>The accept loop\<close>

text \<open>
  \<open>ListenAndServe\<close> of both proxies: the loop, the goroutine that closes the listener when the context ends,
  \<open>Close\<close>, and the handlers, each of which ends in its own time.
\<close>

datatype serve_error = DialerRequired string | ListenFailed string | AcceptFailed string

record server =
  sv_timeout :: int
  sv_listening :: bool
  sv_ctx_done :: bool
  sv_handlers :: nat
  sv_accept_error :: "string option"
  sv_result :: "serve_error option option"

definition serve_timeout :: "int \<Rightarrow> int" where
  "serve_timeout t = (if t \<le> 0 then 30000000000 else t)"

definition listen_and_serve :: "string \<Rightarrow> bool \<Rightarrow> int \<Rightarrow> string option \<Rightarrow> serve_error + server" where
  "listen_and_serve name has_dialer timeout listen_error =
     (if \<not> has_dialer then Inl (DialerRequired (name @ '': dialer is required''))
      else case listen_error of
        Some e \<Rightarrow> Inl (ListenFailed e)
      | None \<Rightarrow> Inr \<lparr>sv_timeout = serve_timeout timeout, sv_listening = True, sv_ctx_done = False, sv_handlers = 0,
                     sv_accept_error = None, sv_result = None\<rparr>)"

definition socks_serve :: "bool \<Rightarrow> int \<Rightarrow> string option \<Rightarrow> serve_error + server" where
  "socks_serve = listen_and_serve ''socks5''"

definition transparent_serve_start :: "bool \<Rightarrow> int \<Rightarrow> string option \<Rightarrow> serve_error + server" where
  "transparent_serve_start = listen_and_serve ''transparent''"

datatype server_event = Accepted | HandlerEnds | CtxDone | CtxCloses | CloseCalled | AcceptFails string | WaitEnds

text \<open>\<open>Accept\<close> succeeds on an open listener; it fails on a closed one, and may fail on an open one too.\<close>

fun server_can :: "server_event \<Rightarrow> server \<Rightarrow> bool" where
  "server_can Accepted s \<longleftrightarrow> sv_listening s \<and> sv_accept_error s = None"
| "server_can HandlerEnds s \<longleftrightarrow> 0 < sv_handlers s"
| "server_can CtxDone s \<longleftrightarrow> \<not> sv_ctx_done s"
| "server_can CtxCloses s \<longleftrightarrow> sv_ctx_done s \<and> sv_listening s"
| "server_can CloseCalled s \<longleftrightarrow> sv_listening s"
| "server_can (AcceptFails e) s \<longleftrightarrow> sv_accept_error s = None"
| "server_can WaitEnds s \<longleftrightarrow> sv_accept_error s \<noteq> None \<and> sv_handlers s = 0 \<and> sv_result s = None"

fun server_do :: "server_event \<Rightarrow> server \<Rightarrow> server" where
  "server_do Accepted s = s\<lparr>sv_handlers := sv_handlers s + 1\<rparr>"
| "server_do HandlerEnds s = s\<lparr>sv_handlers := sv_handlers s - 1\<rparr>"
| "server_do CtxDone s = s\<lparr>sv_ctx_done := True\<rparr>"
| "server_do CtxCloses s = s\<lparr>sv_listening := False\<rparr>"
| "server_do CloseCalled s = s\<lparr>sv_listening := False\<rparr>"
| "server_do (AcceptFails e) s = s\<lparr>sv_accept_error := Some e\<rparr>"
| "server_do WaitEnds s =
     s\<lparr>sv_result := Some (if sv_ctx_done s then None else map_option AcceptFailed (sv_accept_error s))\<rparr>"

text \<open>\<open>Close\<close> of both: without a listener there is nothing to close.\<close>

definition close_server :: "server option \<Rightarrow> server option" where
  "close_server s = map_option (server_do CloseCalled) s"

definition close_transparent :: "server option \<Rightarrow> server option" where
  "close_transparent s = map_option (server_do CloseCalled) s"

inductive server_run :: "server \<Rightarrow> server_event list \<Rightarrow> server \<Rightarrow> bool" where
  none: "server_run s [] s"
| event: "server_can e s \<Longrightarrow> server_run (server_do e s) es t \<Longrightarrow> server_run s (e # es) t"

lemma server_run_invariant:
  assumes "server_run s es t" "I s"
    and "\<And>s e. I s \<Longrightarrow> server_can e s \<Longrightarrow> I (server_do e s)"
  shows "I t"
  using assms(1,2) by (induction rule: server_run.induct) (auto intro: assms(3))

definition server_ok :: "server \<Rightarrow> bool" where
  "server_ok s \<longleftrightarrow>
     (\<forall>r. sv_result s = Some r \<longrightarrow>
        sv_handlers s = 0 \<and> sv_accept_error s \<noteq> None \<and>
        (case r of None \<Rightarrow> sv_ctx_done s | Some x \<Rightarrow> Some x = map_option AcceptFailed (sv_accept_error s)))"

lemma server_ok_step: "server_ok s \<Longrightarrow> server_can e s \<Longrightarrow> server_ok (server_do e s)"
  by (cases e) (auto simp: server_ok_def split: option.splits if_splits)

lemma server_ok_run: "server_run s es t \<Longrightarrow> server_ok s \<Longrightarrow> server_ok t"
  by (erule server_run_invariant [where I = server_ok]) (simp_all add: server_ok_step)

lemma listen_and_serve_ok: "listen_and_serve n b t x = Inr s \<Longrightarrow> server_ok s"
  by (auto simp: listen_and_serve_def server_ok_def split: if_splits option.splits)

lemma after_accept_error:
  "server_run s es t \<Longrightarrow> sv_accept_error s \<noteq> None \<Longrightarrow> Accepted \<notin> set es \<and> sv_accept_error t = sv_accept_error s \<and>
     sv_handlers t + length (filter (\<lambda>e. e = HandlerEnds) es) = sv_handlers s"
proof (induction rule: server_run.induct)
  case (event e s es t)
  then show ?case by (cases e) auto
qed simp

lemma serve_result_kept: "sv_result s = Some r \<Longrightarrow> server_can e s \<Longrightarrow> sv_result (server_do e s) = Some r"
  by (cases e) simp_all

lemma result_stays: "server_run s es t \<Longrightarrow> sv_result s = Some r \<Longrightarrow> sv_result t = Some r"
  by (erule server_run_invariant [where I = "\<lambda>s. sv_result s = Some r"]) (simp_all add: serve_result_kept)

text \<open>The events left once the context has ended and the listener is closed: handlers, the failing Accept, the return.\<close>

definition server_work :: "server \<Rightarrow> nat" where
  "server_work s = sv_handlers s + (if sv_accept_error s = None then 1 else 0) + (if sv_result s = None then 1 else 0)"

lemma closed_server_works:
  assumes "server_can e s" "sv_ctx_done s" "\<not> sv_listening s"
  shows "server_work (server_do e s) < server_work s \<and> sv_ctx_done (server_do e s) \<and> \<not> sv_listening (server_do e s)"
  using assms by (cases e) (auto simp: server_work_def)

text \<open>
  C31: a proxy stops cleanly. Once the context has ended and the listener is closed, every run of the server has at
  most one event for each open connection and two more, no connection is accepted any more, and one that
  cannot continue has returned nil with no handler running. The server never returns while a handler runs,
  and nil only when the context has ended.
\<close>
theorem server_stops:
  assumes "listen_and_serve name has_dialer timeout x = Inr s0" "server_run s0 es s" "sv_ctx_done s" "\<not> sv_listening s"
    and "server_run s fs t"
  shows "length fs \<le> sv_handlers s + 2 \<and> Accepted \<notin> set fs \<and>
    ((\<exists>e. server_can e t) \<or> sv_handlers t = 0 \<and>
       (sv_result s = None \<longrightarrow> sv_result t = Some None)) \<and>
    (sv_result t \<noteq> None \<longrightarrow> sv_handlers t = 0)"
proof -
  have ok: "server_ok t"
    using server_ok_run [OF assms(5) server_ok_run [OF assms(2) listen_and_serve_ok [OF assms(1)]]] .
  have bound: "length fs + server_work t \<le> server_work s \<and> Accepted \<notin> set fs \<and> sv_ctx_done t \<and> \<not> sv_listening t \<and>
      (sv_result s = None \<longrightarrow> sv_result t \<in> {None, Some None})"
    using assms(5,3,4)
  proof (induction rule: server_run.induct)
    case (event e s es t)
    have "sv_result s = None \<longrightarrow> sv_result (server_do e s) \<in> {None, Some None}"
      using event.hyps(1) event.prems by (cases e) auto
    moreover have "sv_result (server_do e s) \<noteq> None \<Longrightarrow> sv_result s \<noteq> None \<or> e = WaitEnds"
      by (cases e) auto
    moreover have "sv_result t = Some None" if "sv_result s = None" "e = WaitEnds"
      using result_stays [OF event.hyps(2)] event.prems(1) that by simp
    ultimately show ?case
      using event closed_server_works [OF event.hyps(1) event.prems] by auto
  qed simp
  have "length fs \<le> sv_handlers s + 2"
    using bound by (auto simp: server_work_def split: if_splits)
  moreover have "sv_handlers t = 0 \<and> (sv_result s = None \<longrightarrow> sv_result t = Some None)" if stuck: "\<not> (\<exists>e. server_can e t)"
  proof -
    have "\<not> server_can HandlerEnds t" "\<not> server_can (AcceptFails []) t" "\<not> server_can WaitEnds t"
      using stuck by blast+
    then show ?thesis
      using bound by auto
  qed
  ultimately show ?thesis
    using bound ok by (auto simp: server_ok_def)
qed

text \<open>
  An Accept that fails for another reason - too many open files - ends the loop, but the error is only
  returned when the last handler has ended: until then nothing is accepted and main is not told, while the
  listener stays open.
\<close>
lemma accept_error_waits_for_handlers:
  assumes "server_run s es t" "sv_accept_error s = Some e" "length (filter (\<lambda>e. e = HandlerEnds) es) < sv_handlers s"
    and "sv_result s = None"
  shows "sv_result t = None \<and> Accepted \<notin> set es"
proof -
  have "server_run s es t \<Longrightarrow> sv_accept_error s \<noteq> None \<Longrightarrow> sv_result s = None \<Longrightarrow>
      length (filter (\<lambda>e. e = HandlerEnds) es) < sv_handlers s \<Longrightarrow> sv_result t = None"
  proof (induction rule: server_run.induct)
    case (event e s es t)
    then show ?case by (cases e) auto
  qed simp
  then show ?thesis
    using assms after_accept_error [OF assms(1)] by simp
qed

fun server_may :: "server \<Rightarrow> server_event list \<Rightarrow> bool" where
  "server_may s [] \<longleftrightarrow> True"
| "server_may s (e # es) \<longleftrightarrow> server_can e s \<and> server_may (server_do e s) es"

lemma server_run_may: "server_may s es \<Longrightarrow> server_run s es (fold server_do es s)"
  by (induction es arbitrary: s) (auto intro: server_run.intros)

theorem server_stops_witness:
  "\<exists>s t. server_run s [AcceptFails ''closed'', HandlerEnds, WaitEnds] t \<and> sv_handlers s = 1 \<and> sv_timeout s = 30000000000 \<and>
     sv_handlers t = 0 \<and> sv_result t = Some None"
proof -
  define s0 where "s0 = \<lparr>sv_timeout = 30000000000, sv_listening = True, sv_ctx_done = False, sv_handlers = 0,
    sv_accept_error = None, sv_result = None\<rparr>"
  let ?es = "[Accepted, CtxDone, CtxCloses]" and ?fs = "[AcceptFails ''closed'', HandlerEnds, WaitEnds]"
  define s where "s = fold server_do ?es s0"
  define t where "t = fold server_do ?fs s"
  note defs = s0_def s_def t_def
  have start: "listen_and_serve ''socks5'' True 0 None = Inr s0"
    by (simp add: listen_and_serve_def serve_timeout_def s0_def)
  have run: "server_run s0 ?es s" "server_run s ?fs t"
    unfolding s_def t_def by (rule server_run_may, simp add: s0_def)+
  have closed: "sv_ctx_done s" "\<not> sv_listening s"
    by (simp_all add: defs)
  have "sv_handlers t = 0"
    using server_stops [OF start run(1) closed run(2)] by (simp add: defs)
  then show ?thesis
    using run(2) by (intro exI [of _ s] exI [of _ t]) (simp add: defs)
qed

end
