(* ===== verification/Main_Process.thy ===== *)
theory Main_Process
  imports Main_Wiring Outline_Key Amnezia_Client Proxy_Serving
begin

text \<open>
  \<open>cmd/outline-gate/main.go\<close> as a process, with \<open>internal/logging\<close> and \<open>internal/version\<close>: what it starts
  from the configuration, the expanded key it keeps between runs, the wait before the first apply, the
  goroutines with the channel of their errors, and the way out. The state the goroutines share and their
  steps are those of \<open>Main_Wiring\<close>.
\<close>

section \<open>Logging and version\<close>

datatype log_level = LevelDebug | LevelInfo | LevelWarn | LevelError

definition log_level_of :: "unicode \<Rightarrow> string \<Rightarrow> log_level" where
  "log_level_of U level =
     (let l = to_lower U level in
      if l = ''debug'' then LevelDebug
      else if l = ''warn'' then LevelWarn
      else if l = ''error'' then LevelError
      else LevelInfo)"

datatype log_handler = JsonHandler log_level | TextHandler log_level

definition log_setup :: "unicode \<Rightarrow> string \<Rightarrow> string \<Rightarrow> log_handler" where
  "log_setup U level format =
     (let lv = log_level_of U level in if to_lower U format = ''json'' then JsonHandler lv else TextHandler lv)"

definition version_string :: "string \<Rightarrow> string" where
  "version_string version =
     (let v = trim_space version in
      if v = [] then ''vdev''
      else if has_prefix v ''v'' \<or> has_prefix v ''V'' then ''v'' @ trim_prefix (trim_prefix v ''v'') ''V''
      else ''v'' @ v)"

text \<open>The levels a loaded configuration can have are the four levels of the logger.\<close>

lemma valid_levels:
  "log_level_of U l = LevelDebug \<longleftrightarrow> l = ''debug''" "log_level_of U l = LevelInfo \<longleftrightarrow> l = ''info''"
  "log_level_of U l = LevelWarn \<longleftrightarrow> l = ''warn''" "log_level_of U l = LevelError \<longleftrightarrow> l = ''error''"
  if "l \<in> {''debug'', ''info'', ''warn'', ''error''}"
proof -
  have "to_lower U ''debug'' = ''debug''" "to_lower U ''info'' = ''info''" "to_lower U ''warn'' = ''warn''"
    "to_lower U ''error'' = ''error''"
    by code_simp+
  then show "log_level_of U l = LevelDebug \<longleftrightarrow> l = ''debug''" "log_level_of U l = LevelInfo \<longleftrightarrow> l = ''info''"
    "log_level_of U l = LevelWarn \<longleftrightarrow> l = ''warn''" "log_level_of U l = LevelError \<longleftrightarrow> l = ''error''"
    using that by (auto simp: log_level_of_def Let_def)
qed

section \<open>The Outline client of main\<close>

definition expanded_path :: "config \<Rightarrow> string" where
  "expanded_path c = (let p = trim_space (cf_key_file c) in if p = [] then [] else p @ ''.expanded'')"

definition client_options :: "config \<Rightarrow> fs \<Rightarrow> options" where
  "client_options c fs =
     \<lparr>op_key = cf_key c, op_base = cf_reconnect_base c, op_max = cf_reconnect_max c, op_probe_addr = cf_probe_addr c,
      op_probe_interval = cf_probe_interval c, op_probe_timeout = cf_probe_timeout c, op_probe_fails = cf_probe_fails c,
      op_refresh = cf_ssconf_refresh c, op_last = read_persisted_key fs (expanded_path c)\<rparr>"

text \<open>The callback for an expanded key; an error is only logged.\<close>

definition keep_expanded :: "unicode \<Rightarrow> faults \<Rightarrow> string \<Rightarrow> string \<Rightarrow> fs \<Rightarrow> fs" where
  "keep_expanded U F path ss fs =
     (if path = [] then fs else final_fs fs (fst (persist_access_key U F path ss fs)))"

fun on_expanded :: "unicode \<Rightarrow> faults \<Rightarrow> string \<Rightarrow> outline_event \<Rightarrow> fs \<Rightarrow> fs" where
  "on_expanded U F path (OnExpanded ss) fs = keep_expanded U F path ss fs"
| "on_expanded U F path e fs = fs"

text \<open>The client as it is after the first connect, whether that succeeded, and the files.\<close>

definition start_client :: "unicode \<Rightarrow> faults \<Rightarrow> outline_env \<Rightarrow> config \<Rightarrow> fs \<Rightarrow> (string option \<times> client \<times> fs) option" where
  "start_client U F X c fs =
     (case new_client X (client_options c fs) of
        None \<Rightarrow> None
      | Some cl \<Rightarrow>
          (case connect X cl of
             (e, cl1) \<Rightarrow> Some (e, cl1, fold (on_expanded U F (expanded_path c)) (oc_events cl1) fs)))"

text \<open>AmneziaWG, when its file is configured and can be read.\<close>

definition main_awg :: "unicode \<Rightarrow> config \<Rightarrow> fs \<Rightarrow> awg_client option" where
  "main_awg U c fs =
     (let p = trim_space (cf_awg_file c) in
      if p = [] then None
      else case load_awg_file U fs p of
        Some (Inr conf) \<Rightarrow> Some (awg_new (cf_awg_iface c) (cf_awg_bin c) conf (cf_probe_addr c))
      | _ \<Rightarrow> None)"

text \<open>
  Up to the goroutines: the configuration is read, the client connects, the managers load, the engine and the
  gateway are made. \<open>run\<close> gives up only when there is no configuration or no client.
\<close>

datatype run_error = ConfigError config_error | NoClient

definition main_begin ::
  "main_env \<Rightarrow> outline_env \<Rightarrow> faults \<Rightarrow> (config_error + config) \<Rightarrow> fs \<Rightarrow> nft_table option \<Rightarrow> run_error + main" where
  "main_begin E X F loaded fs k =
     (let U = we_unicode (me_web E) in
      case loaded of
        Inl e \<Rightarrow> Inl (ConfigError e)
      | Inr c \<Rightarrow>
          (case start_client U F X c fs of
             None \<Rightarrow> Inl NoClient
           | Some (e, cl, fs1) \<Rightarrow>
               Inr (main_start E c cl (map_option (\<lambda>a. awg_endpoint_ip (Some a)) (main_awg U c fs1)) fs1 k)))"

section \<open>The expanded key between runs\<close>

lemma persisted_key_read:
  assumes "persist_access_key U F path key fs = (tr, None)"
  shows "read_persisted_key (final_fs fs tr) path = trim_space key \<and>
    crash_reads (final_fs fs tr) (trim_space path) = {Some (key_text (trim_space key))}"
proof -
  have v: "trim_space path \<noteq> []" "validate_access_key U (trim_space key) = None"
    and run: "run_script F (key_script (trim_space path) (key_text (trim_space key))) fs = (tr, None)"
    using assms by (auto simp: persist_access_key_def Let_def split: if_splits option.splits)
  have "final_fs fs tr (trim_space path) = Some (durable_file (key_text (trim_space key)))"
    using key_file.saved [OF run] by simp
  moreover have "first_non_comment_line (key_text (trim_space key)) = trim_space key"
    using first_line_key_text [OF v(2)] by simp
  ultimately show ?thesis
    using v(1) by (simp add: read_persisted_key_def Let_def durable_file_def crash_reads_def)
qed

lemma start_client_online:
  assumes "trim_space (cf_key c) \<noteq> []" "ox_expand X (cf_key c) = Inr s" "has_prefix s ''ss://''" "ox_new_dialer X s = None"
  shows "\<exists>cl. start_client U F X c fs = Some (None, cl, keep_expanded U F (expanded_path c) s fs) \<and>
    oc_ready cl \<and> oc_dialer cl = Some s \<and> oc_server cl = ox_server_ip X s"
  using assms
  by (simp add: start_client_def new_client_def client_options_def connect_def apply_expanded_def emit_def Let_def)

lemma start_client_offline:
  assumes "trim_space (cf_key c) \<noteq> []" "ox_expand X (cf_key c) = Inl e"
    and "read_persisted_key fs (expanded_path c) = s" "trim_space s = s" "has_prefix s ''ss://''" "ox_new_dialer X s = None"
  shows "\<exists>cl fs'. start_client U F X c fs = Some (None, cl, fs') \<and>
    oc_ready cl \<and> oc_dialer cl = Some s \<and> oc_server cl = ox_server_ip X s"
proof -
  have "s \<noteq> []"
    using assms(5) by (auto simp: has_prefix_def)
  then show ?thesis
    using assms
    by (simp add: start_client_def new_client_def client_options_def connect_def apply_expanded_def emit_def Let_def)
qed

lemma main_start_client: "wb_client (mn_web (main_start E c cl awg fs k)) = cl"
  by (simp add: main_start_def Let_def block_op_def with_bypass_rules_def main_init_def split: prod.split)

lemma current_engine_server:
  assumes "oc_server (wb_client (mn_web s)) = Some a"
  shows "is_server (current_engine s) a"
proof -
  have "Some a \<in> set (main_servers (mn_web s))"
    using assms by (simp add: main_servers_def tunnel_bypass_ips_def server_ips_from_def)
  then show ?thesis
    by (auto simp: is_server_iff current_engine_def new_engine_with_bypass_def ip_equal_norm4 intro: exI [of _ a])
qed

lemma main_start_server:
  assumes "oc_server cl = Some a"
  shows "\<exists>e. mn_engine (main_start E c cl awg fs k) = Some e \<and> is_server e a"
proof -
  let ?U = "we_unicode (me_web E)" and ?L = "we_lookup (me_web E)"
  define s2 where "s2 = block_op ?U no_faults (MLoad ?L) (bypass_op ?U (me_nft E) no_faults (MLoad ?L) (main_init E c cl awg fs k))"
  have "wb_client (mn_web s2) = cl"
    by (simp add: s2_def block_op_def with_bypass_rules_def main_init_def split: prod.split)
  then have "is_server (current_engine s2) a"
    using assms by (intro current_engine_server) simp
  then show ?thesis
    by (simp add: main_start_def Let_def s2_def)
qed

text \<open>
  C17: a dynamic key outlives its provider. When a first run has expanded the access key and saved the result, the
  file holds that key even after a crash, and a later run on the same key file, in which the provider cannot
  be reached, starts ready on the same static key, with its server on the direct path of the engine.
\<close>
theorem expanded_key_survives_restart:
  assumes "trim_space (cf_key c) \<noteq> []" "ox_expand X (cf_key c) = Inr s" "has_prefix s ''ss://''" "trim_space s = s"
    and "ox_new_dialer X s = None" "snd (persist_access_key U F (expanded_path c) s fs) = None"
    and "trim_space (cf_key c') \<noteq> []" "expanded_path c' = expanded_path c"
    and "ox_expand X' (cf_key c') = Inl e" "ox_new_dialer X' s = None" "ox_server_ip X' s = Some a"
    and "we_unicode (me_web E) = U"
  shows "\<exists>cl fs1. start_client U F X c fs = Some (None, cl, fs1) \<and> oc_dialer cl = Some s \<and>
    crash_reads fs1 (trim_space (expanded_path c)) = {Some (key_text s)} \<and>
    (\<exists>m eng. main_begin E X' F' (Inr c') fs1 k = Inr m \<and> oc_ready (wb_client (mn_web m)) \<and>
       oc_dialer (wb_client (mn_web m)) = Some s \<and> mn_engine m = Some eng \<and> decide eng (Some a) = PathDirect)"
proof -
  obtain tr where p: "persist_access_key U F (expanded_path c) s fs = (tr, None)"
    using assms(6) by (metis prod.collapse)
  then have path: "expanded_path c \<noteq> []"
    by (auto simp: persist_access_key_def Let_def)
  define fs1 where "fs1 = keep_expanded U F (expanded_path c) s fs"
  have fs1: "fs1 = final_fs fs tr"
    using path p by (simp add: fs1_def keep_expanded_def)
  note saved = persisted_key_read [OF p, unfolded assms(4)]
  obtain cl where cl: "start_client U F X c fs = Some (None, cl, fs1)" "oc_dialer cl = Some s"
    using start_client_online [OF assms(1-3,5)] unfolding fs1_def by blast
  have "read_persisted_key fs1 (expanded_path c') = s"
    using saved by (simp add: fs1 assms(8))
  from start_client_offline [OF assms(7,9) this assms(4,3,10)] obtain cl' fs2 where
    cl': "start_client U F' X' c' fs1 = Some (None, cl', fs2)" "oc_ready cl'" "oc_dialer cl' = Some s" "oc_server cl' = Some a"
    using assms(11) by metis
  let ?m = "main_start E c' cl' (map_option (\<lambda>a. awg_endpoint_ip (Some a)) (main_awg U c' fs2)) fs2 k"
  have m: "main_begin E X' F' (Inr c') fs1 k = Inr ?m"
    using cl'(1) assms(12) by (simp add: main_begin_def Let_def)
  obtain eng where eng: "mn_engine ?m = Some eng" "is_server eng a"
    using main_start_server [OF cl'(4)] by blast
  have "decide eng (Some a) = PathDirect"
    using eng(2) by (simp add: decide_cases excluded_def is_server_iff)
  then show ?thesis
    using cl m saved fs1 cl' eng main_start_client by (intro exI [of _ cl] exI [of _ fs1]) auto
qed

definition sample_dynamic_config :: config where
  "sample_dynamic_config = sample_main_config\<lparr>cf_key := ''ssconf://k/x'', cf_key_file := ''/config/key''\<rparr>"

definition sample_provider :: "(string + string) \<Rightarrow> outline_env" where
  "sample_provider r =
     \<lparr>ox_expand = (\<lambda>k. r), ox_new_dialer = (\<lambda>k. None), ox_server_ip = (\<lambda>k. Some (IP4 0x01020304)), ox_dial = (\<lambda>k a. None)\<rparr>"

theorem expanded_key_survives_restart_witness:
  "\<exists>cl fs1 m eng. start_client ascii_tables no_faults (sample_provider (Inr ''ss://u@h:1'')) sample_dynamic_config Map.empty =
       Some (None, cl, fs1) \<and>
     main_begin sample_main_env (sample_provider (Inl ''no route'')) no_faults (Inr sample_dynamic_config) fs1 None = Inr m \<and>
     oc_dialer (wb_client (mn_web m)) = Some ''ss://u@h:1'' \<and> mn_engine m = Some eng \<and>
     decide eng (Some (IP4 0x01020304)) = PathDirect"
proof -
  let ?c = sample_dynamic_config and ?k = "''ss://u@h:1''"
  have c: "cf_key ?c = ''ssconf://k/x''" "cf_key_file ?c = ''/config/key''"
    by (simp_all add: sample_dynamic_config_def)
  have t: "trim_space (cf_key ?c) \<noteq> []" "trim_space ?k = ?k" "has_prefix ?k ''ss://''"
    unfolding c by code_simp+
  have e: "expanded_path ?c = ''/config/key.expanded''"
    unfolding expanded_path_def c by code_simp
  have p: "snd (persist_access_key ascii_tables no_faults (expanded_path ?c) ?k Map.empty) = None"
    unfolding e by code_simp
  have u: "we_unicode (me_web sample_main_env) = ascii_tables"
    by (simp add: sample_main_env_def sample_web_env_def)
  have x: "ox_expand (sample_provider r) k = r" "ox_new_dialer (sample_provider r) k = None"
    "ox_server_ip (sample_provider r) k = Some (IP4 0x01020304)" for r k
    by (simp_all add: sample_provider_def)
  from expanded_key_survives_restart [OF t(1) x(1) t(3,2) x(2) p t(1) refl x(1,2,3) u] show ?thesis
    by blast
qed

section \<open>The wait before the first apply\<close>

text \<open>
  The goroutine of the gateway polls readiness every half second, at most for a minute. A poll is its time,
  whether the tunnel is ready, whether the context has ended by then, and whether it ends before the next.
\<close>

type_synonym ready_poll = "int \<times> bool \<times> bool \<times> bool"

datatype wait_result = StillWaiting | Cancelled | GoOn bool

fun wait_ready :: "int \<Rightarrow> ready_poll list \<Rightarrow> wait_result" where
  "wait_ready began [] = StillWaiting"
| "wait_ready began ((now, ready, cancelled, cancelled_waiting) # ps) =
     (if cancelled then Cancelled
      else if ready then GoOn True
      else if began + 60 * second < now then GoOn False
      else if cancelled_waiting then Cancelled
      else wait_ready began ps)"

definition gateway_part :: "main_env \<Rightarrow> int \<Rightarrow> ready_poll list \<Rightarrow> nft list \<Rightarrow> main \<Rightarrow> (bool \<times> int list) option \<times> main" where
  "gateway_part E began ps Ns s =
     (case wait_ready began ps of
        GoOn r \<Rightarrow> (case gateway_goroutine E Ns s of (ok, ws, s') \<Rightarrow> (Some (ok, ws), s'))
      | _ \<Rightarrow> (None, s))"

fun half_second_apart :: "int \<Rightarrow> ready_poll list \<Rightarrow> bool" where
  "half_second_apart t [] \<longleftrightarrow> True"
| "half_second_apart t (p # ps) \<longleftrightarrow> t \<le> fst p \<and> half_second_apart (fst p + 500000000) ps"

lemma wait_ready_ends:
  assumes "half_second_apart t ps" "began + 60 * second < t + 500000000 * int n" "n < length ps"
  shows "wait_ready began ps \<noteq> StillWaiting"
  using assms
proof (induction ps arbitrary: t n)
  case (Cons p ps)
  obtain now r c w where p: "p = (now, r, c, w)"
    by (metis prod_cases4)
  have t: "t \<le> now" "half_second_apart (now + 500000000) ps"
    using Cons.prems(1) by (simp_all add: p)
  show ?case
  proof (cases n)
    case 0
    then show ?thesis
      using Cons.prems(2) t(1) by (simp add: p)
  next
    case (Suc m)
    have "began + 60 * second < (now + 500000000) + 500000000 * int m"
      using Cons.prems(2) t(1) Suc by (simp add: algebra_simps)
    then have "wait_ready began ps \<noteq> StillWaiting"
      using Cons.IH [OF t(2)] Cons.prems(3) Suc by simp
    then show ?thesis
      by (simp add: p)
  qed
qed simp

text \<open>After 122 polls the wait is over, whatever they saw.\<close>

lemma wait_ready_bounded:
  assumes "half_second_apart began ps" "122 \<le> length ps"
  shows "wait_ready began ps \<noteq> StillWaiting"
  using assms by (intro wait_ready_ends [of began ps began 121]) (simp_all add: second_def)

section \<open>The goroutines and the way out\<close>

text \<open>
  The goroutines of a configuration, and those that report an error when they end: a listener that cannot be
  opened or fails, a panic in the loop of the Outline client.
\<close>

definition main_parts :: "config \<Rightarrow> part list" where
  "main_parts c =
     [HttpPart, BypassPart, BlockPart, OutlinePart] @ (if dns_enabled c then [DnsPart] else []) @ [SocksPart] @
     (if cf_gateway c then [TransparentPart, GatewayPart] else []) @ [HupPart]"

fun part_reports :: "part \<Rightarrow> bool" where
  "part_reports p \<longleftrightarrow> p = HttpPart \<or> p = OutlinePart \<or> p = DnsPart \<or> p = SocksPart \<or> p = TransparentPart"

definition err_capacity :: nat where
  "err_capacity = 8"

datatype stage = Serving | Stopping | Draining | Exited nat

record process =
  ps_main :: main
  ps_parts :: "part list"
  ps_errors :: "part list"
  ps_cancelled :: bool
  ps_stage :: stage

definition process_start :: "config \<Rightarrow> main \<Rightarrow> process" where
  "process_start c m =
     \<lparr>ps_main = m, ps_parts = main_parts c, ps_errors = [], ps_cancelled = False, ps_stage = Serving\<rparr>"

text \<open>
  A goroutine works, fails - it sends its error, which needs room in the channel - or ends: when the context has
  ended, the server of HTTP when it is shut down, that of the gateway also when an attempt succeeded. The context ends by a signal
  or a restart from the UI. The main goroutine waits for the context or an error; shuts the HTTP server down, flushes the
  gateway, closes SOCKS and AmneziaWG; waits for the goroutines, ten seconds at most; and returns nil. \<open>W\<close> are the
  goroutines whose work is considered.
\<close>

inductive process_step :: "main_env \<Rightarrow> part set \<Rightarrow> process \<Rightarrow> process \<Rightarrow> bool" for E W where
  work: "p \<in> set (ps_parts s) \<Longrightarrow> p \<in> W \<Longrightarrow> part_step p (ps_main s) m \<Longrightarrow> process_step E W s (s\<lparr>ps_main := m\<rparr>)"
| fails: "p \<in> set (ps_parts s) \<Longrightarrow> part_reports p \<Longrightarrow> length (ps_errors s) < err_capacity \<Longrightarrow>
    process_step E W s (s\<lparr>ps_parts := remove1 p (ps_parts s), ps_errors := ps_errors s @ [p]\<rparr>)"
| ends: "p \<in> set (ps_parts s) \<Longrightarrow> ps_cancelled s \<or> p = GatewayPart \<or> p = HttpPart \<and> ps_stage s \<noteq> Serving \<Longrightarrow>
    process_step E W s (s\<lparr>ps_parts := remove1 p (ps_parts s)\<rparr>)"
| cancel: "\<not> ps_cancelled s \<Longrightarrow> process_step E W s (s\<lparr>ps_cancelled := True\<rparr>)"
| leaves: "ps_stage s = Serving \<Longrightarrow> ps_cancelled s \<Longrightarrow> process_step E W s (s\<lparr>ps_stage := Stopping\<rparr>)"
| fatal: "ps_stage s = Serving \<Longrightarrow> ps_errors s = e # es \<Longrightarrow>
    process_step E W s (s\<lparr>ps_stage := Stopping, ps_errors := es, ps_cancelled := True\<rparr>)"
| stops: "ps_stage s = Stopping \<Longrightarrow>
    process_step E W s (s\<lparr>ps_main := shutdown E (ps_main s), ps_cancelled := True, ps_stage := Draining\<rparr>)"
| exits: "ps_stage s = Draining \<Longrightarrow> process_step E W s (s\<lparr>ps_stage := Exited 0\<rparr>)"

inductive process_run :: "main_env \<Rightarrow> part set \<Rightarrow> process \<Rightarrow> process \<Rightarrow> bool" for E W s0 where
  here: "process_run E W s0 s0"
| on: "process_run E W s0 s \<Longrightarrow> process_step E W s t \<Longrightarrow> process_run E W s0 t"

lemma process_run_main: "process_run E W s0 s \<Longrightarrow> main_run (ps_main s0) \<Longrightarrow> main_run (ps_main s)"
proof (induction rule: process_run.induct)
  case (on s t)
  from on.hyps(2) show ?case
    using on.IH [OF on.prems] by cases (auto intro: main_run.work main_run.stop)
qed

text \<open>The invariant of the goroutines: each runs, or has left at most one error, or is gone.\<close>

definition parts_ok :: "process \<Rightarrow> bool" where
  "parts_ok s \<longleftrightarrow> distinct (ps_parts s @ ps_errors s) \<and> list_all part_reports (ps_errors s) \<and>
     (ps_stage s \<in> {Serving, Stopping} \<or> ps_cancelled s) \<and> (\<forall>x. ps_stage s = Exited x \<longrightarrow> x = 0)"

lemma parts_ok_step: "process_step E W s t \<Longrightarrow> parts_ok s \<Longrightarrow> parts_ok t"
  by (induction rule: process_step.induct) (auto simp: parts_ok_def dest: notin_set_remove1 in_set_remove1 [THEN iffD1])

lemma parts_ok_start: "parts_ok (process_start c m)"
  by (auto simp: parts_ok_def process_start_def main_parts_def)

lemma parts_ok_run: "process_run E W s0 s \<Longrightarrow> parts_ok s0 \<Longrightarrow> parts_ok s"
  by (induction rule: process_run.induct) (auto intro: parts_ok_step)

lemma reports_few:
  assumes "parts_ok s"
  shows "length (filter part_reports (ps_parts s)) + length (ps_errors s) \<le> 5"
proof -
  let ?xs = "filter part_reports (ps_parts s) @ ps_errors s"
  have "distinct ?xs" "set ?xs \<subseteq> {HttpPart, OutlinePart, DnsPart, SocksPart, TransparentPart}"
    using assms by (auto simp: parts_ok_def list_all_iff)
  then have "length ?xs \<le> card {HttpPart, OutlinePart, DnsPart, SocksPart, TransparentPart}"
    by (metis card_mono distinct_card finite.emptyI finite.insertI)
  also have "\<dots> \<le> 5"
    by (simp add: card_insert_if)
  finally show ?thesis by simp
qed

text \<open>
  C39: no goroutine hangs on its error. In every state of the process there is room in the error channel for all
  goroutines that may still report: at most five ever do, each once, and the channel holds eight. So a goroutine
  that fails always ends, and when the process waits for the goroutines none is stuck in a send.
\<close>
theorem errors_never_block:
  assumes "process_run E W (process_start c m) s"
  shows "length (ps_errors s) + length (filter part_reports (ps_parts s)) \<le> 5 \<and>
    (\<forall>p \<in> set (ps_parts s). part_reports p \<longrightarrow>
       process_step E W s (s\<lparr>ps_parts := remove1 p (ps_parts s), ps_errors := ps_errors s @ [p]\<rparr>)) \<and>
    (ps_cancelled s \<and> ps_stage s \<noteq> Serving \<longrightarrow>
       (\<forall>p \<in> set (ps_parts s). process_step E W s (s\<lparr>ps_parts := remove1 p (ps_parts s)\<rparr>)))"
proof -
  have few: "length (filter part_reports (ps_parts s)) + length (ps_errors s) \<le> 5"
    using reports_few [OF parts_ok_run [OF assms parts_ok_start]] .
  then have "length (ps_errors s) < err_capacity"
    by (simp add: err_capacity_def)
  then show ?thesis
    using few by (auto intro: process_step.fails process_step.ends)
qed

subsection \<open>What the process leaves behind\<close>

definition rules_gone :: "main \<Rightarrow> bool" where
  "rules_gone s \<longleftrightarrow> mn_kernel s = None \<and> (\<exists>g. mn_gw s = Some g \<and> \<not> gw_active g)"

lemma rules_gone_view: "gw_view s = gw_view t \<Longrightarrow> rules_gone s = rules_gone t"
  by (simp add: gw_view_def rules_gone_def)

lemma rules_gone_push: "rules_gone s \<Longrightarrow> rules_gone (rebuild_push N s)"
  using inactive_push [of s _ N] by (auto simp: rules_gone_def)

lemma rules_gone_bypass: "rules_gone s \<Longrightarrow> rules_gone (bypass_op U N F opn s)"
  using inactive_op [of s _ U N F opn] by (auto simp: rules_gone_def)

definition applying_parts :: "part set" where
  "applying_parts = {HttpPart, GatewayPart, HupPart}"

lemma part_step_keeps_gone:
  assumes "part_step p s t" "p \<notin> applying_parts" "rules_gone s"
  shows "rules_gone t"
  using assms
  by (induction rule: part_step.induct)
    (auto simp: applying_parts_def rules_gone_bypass rules_gone_push outline_ready_def views [THEN rules_gone_view])

lemma shutdown_rules_gone:
  assumes "nft_deletes (me_nft E)" "mn_gw s \<noteq> None"
  shows "rules_gone (shutdown E s)"
proof -
  obtain g where g: "mn_gw s = Some g"
    using assms(2) by blast
  obtain r g' k' where f: "flush_gateway (we_unicode (me_web E)) (me_nft E) g (mn_kernel s) = (r, g', k')"
    by (metis prod_cases3)
  then have "k' = None" "\<not> gw_active g'"
    using run_delete [OF assms(1), of "mn_kernel s"] by (auto simp: flush_gateway_def split: prod.splits)
  then have "rules_gone (s\<lparr>mn_gw := Some g', mn_kernel := k'\<rparr>)"
    by (simp add: rules_gone_def)
  then show ?thesis
    using g f by (simp add: shutdown_def views(3) [THEN rules_gone_view])
qed

definition after_stop :: "process \<Rightarrow> bool" where
  "after_stop s \<longleftrightarrow> rules_gone (ps_main s) \<and> ps_stage s \<notin> {Serving, Stopping}"

lemma after_stop_step: "process_step E (- applying_parts) s t \<Longrightarrow> after_stop s \<Longrightarrow> after_stop t"
  by (induction rule: process_step.induct) (auto simp: after_stop_def part_step_keeps_gone)

lemma after_stop_run: "process_run E (- applying_parts) s t \<Longrightarrow> after_stop s \<Longrightarrow> after_stop t"
  by (induction rule: process_run.induct) (auto intro: after_stop_step)

text \<open>
  C21: a process that stops takes its rules with it. Whatever happened before, when the main goroutine has flushed the
  gateway the table is gone from the kernel, and it stays away while the goroutines drain - refreshes,
  dials, recorded connections, changes of the rules they announce, a client that becomes ready - up to the
  exit, as long as none of those that call Apply is still at work: a request, a reload, an attempt of the gateway's loop.
\<close>
theorem stopped_process_leaves_no_rules:
  assumes "process_run E UNIV (process_start c m) s" "main_run m" "ps_stage s = Stopping" "nft_deletes (me_nft E)"
    and "mn_gw (ps_main s) \<noteq> None" "process_run E (- applying_parts) (s\<lparr>ps_main := shutdown E (ps_main s), ps_cancelled := True, ps_stage := Draining\<rparr>) q"
  shows "mn_kernel (ps_main q) = None \<and> main_run (ps_main q) \<and>
    process_run E UNIV (process_start c m) (s\<lparr>ps_main := shutdown E (ps_main s), ps_cancelled := True, ps_stage := Draining\<rparr>) \<and>
    (ps_stage q = Draining \<longrightarrow> process_step E {} q (q\<lparr>ps_stage := Exited 0\<rparr>))"
proof -
  let ?t = "s\<lparr>ps_main := shutdown E (ps_main s), ps_cancelled := True, ps_stage := Draining\<rparr>"
  have run: "process_run E UNIV (process_start c m) ?t"
    by (rule process_run.on [OF assms(1) process_step.stops [OF assms(3)]])
  have "after_stop ?t"
    using shutdown_rules_gone [OF assms(4,5)] by (simp add: after_stop_def)
  then have "after_stop q"
    by (rule after_stop_run [OF assms(6)])
  moreover have "main_run (ps_main q)"
    using process_run_main [OF assms(6)] process_run_main [OF run] assms(2) by (simp add: process_start_def)
  ultimately show ?thesis
    using run by (auto simp: after_stop_def rules_gone_def intro: process_step.exits)
qed

text \<open>
  An attempt of the gateway's goroutine that is already past its check of the context runs after the flush: it
  loads the rules again, and the process exits with them in the kernel.
\<close>
lemma late_attempt_leaves_rules:
  assumes "accepts N" "gw_sync (ps_main s)" "mn_gw (ps_main s) \<noteq> None" "0 < cf_trans_port (mn_cfg (ps_main s))"
    and "GatewayPart \<in> set (ps_parts s)" "ps_stage s = Draining"
  shows "\<exists>q. process_run E {GatewayPart} s q \<and> ps_stage q = Exited 0 \<and> gateway_loaded (ps_main q)"
proof -
  let ?m = "snd (apply_once N (ps_main s))"
  have "part_step GatewayPart (ps_main s) ?m"
    using assms(1) by (intro part_step.attempt) (simp add: accepts_def)
  then have "process_run E {GatewayPart} s (s\<lparr>ps_main := ?m\<rparr>)"
    using assms(5) by (intro process_run.on [OF process_run.here] process_step.work) auto
  then have "process_run E {GatewayPart} s (s\<lparr>ps_main := ?m, ps_stage := Exited 0\<rparr>)"
    using process_run.on [OF _ process_step.exits] assms(6) by fastforce
  moreover have "ps_stage (s\<lparr>ps_main := ?m, ps_stage := Exited 0\<rparr>) = Exited 0"
    "ps_main (s\<lparr>ps_main := ?m, ps_stage := Exited 0\<rparr>) = ?m"
    by simp_all
  ultimately show ?thesis
    using apply_once_accepted [OF assms(1-4)] by metis
qed

text \<open>
  A listener that fails ends the process, as it should, but the error only reaches the log: \<open>run\<close> returns nil and
  the exit status is that of success.
\<close>
lemma fatal_error_exits_with_success:
  assumes "process_run E W (process_start c m) s" "ps_stage s = Serving" "ps_errors s = e # es"
  shows "(\<exists>q. process_run E {} s q \<and> ps_stage q = Exited 0) \<and>
    (\<forall>q x. process_run E W s q \<and> ps_stage q = Exited x \<longrightarrow> x = 0)"
proof
  let ?s1 = "s\<lparr>ps_stage := Stopping, ps_errors := es, ps_cancelled := True\<rparr>"
  let ?s2 = "?s1\<lparr>ps_main := shutdown E (ps_main ?s1), ps_cancelled := True, ps_stage := Draining\<rparr>"
  have "process_run E {} s ?s1"
    by (rule process_run.on [OF process_run.here process_step.fatal [OF assms(2,3)]])
  then have "process_run E {} s ?s2"
    by (rule process_run.on) (rule process_step.stops, simp)
  then have "process_run E {} s (?s2\<lparr>ps_stage := Exited 0\<rparr>)"
    by (rule process_run.on) (rule process_step.exits, simp)
  moreover have "ps_stage (?s2\<lparr>ps_stage := Exited 0\<rparr>) = Exited 0"
    by simp
  ultimately show "\<exists>q. process_run E {} s q \<and> ps_stage q = Exited 0"
    by blast
  show "\<forall>q x. process_run E W s q \<and> ps_stage q = Exited x \<longrightarrow> x = 0"
    using parts_ok_run [OF _ parts_ok_run [OF assms(1) parts_ok_start]] by (auto simp: parts_ok_def)
qed

section \<open>A process that stops\<close>

theorem errors_never_block_witness:
  "\<exists>s. process_run sample_main_env UNIV (process_start sample_main_config sample_main) s \<and> ps_errors s = [HttpPart] \<and>
     length (filter part_reports (ps_parts s)) \<le> 4 \<and> mn_kernel (ps_main s) \<noteq> None"
proof -
  let ?p = "process_start sample_main_config sample_main"
  let ?s = "?p\<lparr>ps_parts := remove1 HttpPart (ps_parts ?p), ps_errors := ps_errors ?p @ [HttpPart]\<rparr>"
  have "process_step sample_main_env UNIV ?p ?s"
    by (rule process_step.fails) (simp_all add: process_start_def main_parts_def err_capacity_def)
  then have run: "process_run sample_main_env UNIV ?p ?s"
    by (rule process_run.on [OF process_run.here])
  moreover have err: "ps_errors ?s = [HttpPart]" "ps_main ?s = sample_main"
    by (simp_all add: process_start_def)
  moreover have "length (filter part_reports (ps_parts ?s)) \<le> 4"
    using errors_never_block [OF run] unfolding err(1) by simp
  moreover have "mn_kernel sample_main \<noteq> None"
    using sample_main_loaded by (auto simp: gateway_loaded_def)
  ultimately show ?thesis
    by metis
qed

theorem stopped_process_leaves_no_rules_witness:
  "mn_kernel sample_main \<noteq> None \<and>
   (\<exists>q. process_run sample_main_env UNIV (process_start sample_main_config sample_main) q \<and> ps_stage q = Exited 0 \<and>
      mn_kernel (ps_main q) = None)"
proof -
  let ?E = sample_main_env
  define s0 where "s0 = process_start sample_main_config sample_main"
  define s where "s = s0\<lparr>ps_cancelled := True, ps_stage := Stopping\<rparr>"
  define t where "t = s\<lparr>ps_main := shutdown ?E (ps_main s), ps_cancelled := True, ps_stage := Draining\<rparr>"
  define q where "q = t\<lparr>ps_stage := Exited 0\<rparr>"
  have "process_run ?E UNIV s0 (s0\<lparr>ps_cancelled := True\<rparr>)"
    by (rule process_run.on [OF process_run.here process_step.cancel]) (simp add: s0_def process_start_def)
  then have "process_run ?E UNIV s0 (s0\<lparr>ps_cancelled := True, ps_stage := Stopping\<rparr>)"
    using process_run.on [OF _ process_step.leaves] by (fastforce simp: s0_def process_start_def)
  then have s: "process_run ?E UNIV s0 s"
    by (simp only: s_def)
  have stage: "ps_stage s = Stopping" "ps_main s = sample_main" "ps_stage t = Draining"
    by (simp_all add: s_def t_def s0_def process_start_def)
  have gw: "mn_gw (ps_main s) \<noteq> None"
    using sample_main_loaded by (auto simp: stage(2) gateway_loaded_def)
  have nft: "nft_deletes (me_nft ?E)"
    using sample_nft_accepts(2) by (simp add: sample_main_env_def)
  have q: "process_run ?E W t q" for W
    unfolding q_def by (rule process_run.on [OF process_run.here process_step.exits]) (rule stage(3))
  have "mn_kernel (ps_main q) = None" "process_run ?E UNIV s0 t"
    using stopped_process_leaves_no_rules [OF s [unfolded s0_def] sample_main_run(2) stage(1) nft gw q [unfolded t_def]]
    by (simp_all add: s0_def t_def)
  moreover have "process_run ?E UNIV s0 q"
    unfolding q_def by (rule process_run.on [OF _ process_step.exits]) (rule calculation, rule stage(3))
  moreover have "ps_stage q = Exited 0"
    by (simp add: q_def)
  moreover have "mn_kernel sample_main \<noteq> None"
    using sample_main_loaded by (auto simp: gateway_loaded_def)
  ultimately show ?thesis
    unfolding s0_def by blast
qed

end
